(* ===== verification/Prelude.thy ===== *)
theory Prelude
  imports Main "HOL-Library.Word" "HOL-Library.Monad_Syntax" "HOL-Library.Signed_Division"
begin

text \<open>
  What the component theories share: the machine types of the source, the little-endian
  memory representation of its integers, bounds-checked byte copies, and the iteration
  combinator for its range-for loops.

  Undefined behaviour is a value of the model: every operation that could dereference a
  dangling pointer or copy outside an array returns an \<open>option\<close>, and \<open>None\<close> is that
  undefined behaviour. "This handler is memory safe" is then the theorem that its result
  is \<open>Some\<close>. The error paths of the program itself (rejected packets, error codes,
  closed sessions) are ordinary values.
\<close>

unbundle bit_operations_syntax

named_theorems codec_simps \<open>layout and decoding of serialized integers\<close>
named_theorems frame_simps \<open>fields of the state an operation leaves alone\<close>

section \<open>Machine types\<close>

text \<open>
  \<open>size_t\<close> is 64 bits (the x64 configurations). A C \<open>int\<close> is a HOL \<open>int\<close>: the
  conversions to unsigned types are written out where the code makes them.
\<close>

type_synonym u8 = "8 word"
type_synonym u16 = "16 word"
type_synonym u32 = "32 word"
type_synonym i32 = "32 word"
type_synonym size_t = "64 word"
type_synonym bytes = "8 word list"

definition size_of_int :: "int \<Rightarrow> size_t" where
  "size_of_int i = word_of_int i"

definition uint_of_int :: "int \<Rightarrow> u32" where
  "uint_of_int i = word_of_int i"

lemma unat_size_of_int: "0 \<le> i \<Longrightarrow> i < 2 ^ 64 \<Longrightarrow> unat (size_of_int i) = nat i"
  by (simp add: size_of_int_def unat_eq_nat_uint uint_word_of_int)

lemma uint_size_of_int: "0 \<le> i \<Longrightarrow> i < 2 ^ 64 \<Longrightarrow> uint (size_of_int i) = i"
  by (simp add: size_of_int_def uint_word_of_int)

lemma unat_uint_of_int: "0 \<le> i \<Longrightarrow> i < 2 ^ 32 \<Longrightarrow> unat (uint_of_int i) = nat i"
  by (simp add: uint_of_int_def unat_eq_nat_uint uint_word_of_int)

lemma sint_of_int_small: "- (2 ^ 31) \<le> k \<Longrightarrow> k < 2 ^ 31 \<Longrightarrow> sint (word_of_int k :: u32) = k"
  by (simp add: signed_of_int signed_take_bit_int_eq_self)

lemma unat_ucast_up_16_64 [simp]: "unat (ucast (x :: u16) :: size_t) = unat x"
  by (simp add: unsigned_ucast_eq take_bit_nat_eq_self unsigned_less [THEN less_le_trans])

lemma unat_ucast_up_16_32 [simp]: "unat (ucast (x :: u16) :: u32) = unat x"
  by (simp add: unsigned_ucast_eq take_bit_nat_eq_self unsigned_less [THEN less_le_trans])

lemma unat_ucast_up_32_64 [simp]: "unat (ucast (x :: u32) :: size_t) = unat x"
  by (simp add: unsigned_ucast_eq take_bit_nat_eq_self unsigned_less [THEN less_le_trans])

lemma nat_numeral_uint [simp]: "nat (numeral k + uint (x :: 'a :: len word)) = numeral k + unat x"
  by (simp add: nat_add_distrib)

lemma unat_u16_less [simp]: "unat (x :: u16) < 65536"
  using unsigned_less [of x] by simp

lemma unat_u32_less [simp]: "unat (x :: u32) < 4294967296"
  using unsigned_less [of x] by simp

section \<open>Integers in memory\<close>

text \<open>
  The target is x86, so \<open>memcpy\<close> of an integer object reads and writes its bytes in
  little-endian order; the \<open>Writer\<close> of the protocol produces the same order by shifts.
\<close>

definition le16 :: "u16 \<Rightarrow> bytes" where
  "le16 v = [ucast v, ucast (drop_bit 8 v)]"

definition le32 :: "u32 \<Rightarrow> bytes" where
  "le32 v = [ucast v, ucast (drop_bit 8 v), ucast (drop_bit 16 v), ucast (drop_bit 24 v)]"

definition of_le16 :: "bytes \<Rightarrow> u16" where
  "of_le16 bs = ucast (bs ! 0) OR push_bit 8 (ucast (bs ! 1))"

definition of_le32 :: "bytes \<Rightarrow> u32" where
  "of_le32 bs = ucast (bs ! 0) OR push_bit 8 (ucast (bs ! 1)) OR
     push_bit 16 (ucast (bs ! 2)) OR push_bit 24 (ucast (bs ! 3))"

lemma length_le16 [simp, codec_simps]: "length (le16 v) = 2"
  by (simp add: le16_def)

lemma length_le32 [simp, codec_simps]: "length (le32 v) = 4"
  by (simp add: le32_def)

lemma of_le16_append [codec_simps]: "of_le16 (le16 v @ rest) = v"
  unfolding of_le16_def le16_def
  by (rule bit_word_eqI) (auto simp: bit_simps)

lemma of_le32_append [codec_simps]: "of_le32 (le32 v @ rest) = v"
proof (rule bit_word_eqI)
  fix n assume n: "n < LENGTH(32)"
  consider "n < 8" | "8 \<le> n" "n < 16" | "16 \<le> n" "n < 24" | "24 \<le> n" by linarith
  then show "bit (of_le32 (le32 v @ rest)) n = bit v n"
    by cases (use n in \<open>auto simp: of_le32_def le32_def bit_simps\<close>)
qed

lemma of_le16_le16 [simp]: "of_le16 (le16 v) = v"
  using of_le16_append [of v "[]"] by simp

lemma of_le32_le32 [simp]: "of_le32 (le32 v) = v"
  using of_le32_append [of v "[]"] by simp

lemma of_le16_take [simp]: "2 \<le> n \<Longrightarrow> of_le16 (take n bs) = of_le16 bs"
  by (simp add: of_le16_def)

lemma of_le32_take [simp]: "4 \<le> n \<Longrightarrow> of_le32 (take n bs) = of_le32 bs"
  by (simp add: of_le32_def)

lemma of_le16_append_long: "2 \<le> length bs \<Longrightarrow> of_le16 (bs @ cs) = of_le16 bs"
  by (auto simp: of_le16_def nth_append)

lemma le16_of_le16: "length bs = 2 \<Longrightarrow> le16 (of_le16 bs) = bs"
proof -
  assume "length bs = 2"
  then obtain a b where bs: "bs = [a, b]"
    by (auto simp: length_Suc_conv numeral_2_eq_2)
  have "ucast (ucast a OR push_bit 8 (ucast b) :: u16) = a"
    by (rule bit_word_eqI) (auto simp: bit_simps)
  moreover have "ucast (drop_bit 8 (ucast a OR push_bit 8 (ucast b) :: u16)) = b"
    by (rule bit_word_eqI) (auto simp: bit_simps dest: bit_imp_le_length)
  ultimately show ?thesis by (simp add: le16_def of_le16_def bs)
qed

section \<open>Byte copies\<close>

text \<open>
  \<open>memcpy(dst + d, src + s, n)\<close>: the new contents of \<open>dst\<close>, or \<open>None\<close> when either
  range leaves its array. The offsets are the \<open>int\<close> expressions of the source, \<open>n\<close> is
  its \<open>size_t\<close>.
\<close>

definition memcpy :: "bytes \<Rightarrow> int \<Rightarrow> bytes \<Rightarrow> int \<Rightarrow> size_t \<Rightarrow> bytes option" where
  "memcpy dst d src s n =
     (if 0 \<le> d \<and> 0 \<le> s \<and> nat d + unat n \<le> length dst \<and> nat s + unat n \<le> length src
      then Some (take (nat d) dst @ take (unat n) (drop (nat s) src) @
                 drop (nat d + unat n) dst)
      else None)"

text \<open>Reading \<open>n\<close> bytes from the start of an array, as \<open>std::string(p, p + n)\<close> and
  \<open>memcpy(&x, p, n)\<close> do.\<close>

definition read_bytes :: "bytes \<Rightarrow> nat \<Rightarrow> bytes option" where
  "read_bytes src n = (if n \<le> length src then Some (take n src) else None)"

lemma memcpy_Some:
  "memcpy dst d src s n = Some dst' \<longleftrightarrow>
     0 \<le> d \<and> 0 \<le> s \<and> nat d + unat n \<le> length dst \<and> nat s + unat n \<le> length src \<and>
     dst' = take (nat d) dst @ take (unat n) (drop (nat s) src) @ drop (nat d + unat n) dst"
  by (auto simp: memcpy_def)

lemma memcpy_length: "memcpy dst d src s n = Some dst' \<Longrightarrow> length dst' = length dst"
  by (auto simp: memcpy_Some)

lemma nth_memcpy:
  assumes "memcpy dst d src s n = Some dst'" and "i < length dst"
  shows "dst' ! i = (if nat d \<le> i \<and> i < nat d + unat n then src ! (nat s + (i - nat d)) else dst ! i)"
proof -
  have b: "nat s + unat n \<le> length src" "nat d + unat n \<le> length dst"
    and dst': "dst' = take (nat d) dst @ take (unat n) (drop (nat s) src) @ drop (nat d + unat n) dst"
    using assms(1) by (auto simp: memcpy_Some)
  consider "i < nat d" | "nat d \<le> i" "i < nat d + unat n" | "nat d + unat n \<le> i" by linarith
  then show ?thesis
    by cases (use b assms(2) in \<open>auto simp: dst' nth_append min_absorb2\<close>)
qed

lemma read_bytes_Some [simp]:
  "read_bytes src n = Some bs \<longleftrightarrow> n \<le> length src \<and> bs = take n src"
  by (auto simp: read_bytes_def)

lemma read_bytes_take [simp]: "n \<le> length src \<Longrightarrow> read_bytes src n = Some (take n src)"
  by simp

lemma read_bytes_short [simp]: "length src < n \<Longrightarrow> read_bytes src n = None"
  by (simp add: read_bytes_def)

lemma read_bytes_None [simp]: "read_bytes src n = None \<longleftrightarrow> length src < n"
  by (auto simp: read_bytes_def)

lemma read_bytes_all [simp]: "n = length src \<Longrightarrow> read_bytes src n = Some src"
  by (simp add: read_bytes_def)

section \<open>Text\<close>

text \<open>\<open>std::to_string\<close> of an unsigned value, in ASCII.\<close>

fun dec_string :: "nat \<Rightarrow> bytes" where
  "dec_string n = (if n < 10 then [48 + of_nat n] else dec_string (n div 10) @ [48 + of_nat (n mod 10)])"

declare dec_string.simps [simp del]

definition ascii :: "string \<Rightarrow> bytes" where
  "ascii = map of_char"

section \<open>Range-for loops in the option monad\<close>

fun for_each :: "('a \<Rightarrow> 'w \<Rightarrow> 'w option) \<Rightarrow> 'a list \<Rightarrow> 'w \<Rightarrow> 'w option" where
  "for_each f [] w = Some w"
| "for_each f (x # xs) w = (case f x w of None \<Rightarrow> None | Some w' \<Rightarrow> for_each f xs w')"

lemma for_each_append:
  "for_each f (xs @ ys) w = (case for_each f xs w of None \<Rightarrow> None | Some w' \<Rightarrow> for_each f ys w')"
  by (induction xs arbitrary: w) (auto split: option.splits)

lemma for_each_invariant:
  assumes "for_each f xs w = Some w'" and "P w"
    and "\<And>x w w'. x \<in> set xs \<Longrightarrow> P w \<Longrightarrow> f x w = Some w' \<Longrightarrow> P w'"
  shows "P w'"
  using assms
proof (induction xs arbitrary: w)
  case Nil
  then show ?case by simp
next
  case (Cons x xs)
  from Cons.prems(1) obtain w1 where "f x w = Some w1" and "for_each f xs w1 = Some w'"
    by (auto split: option.splits)
  with Cons.prems(2,3) Cons.IH [of w1] show ?case by (auto 4 3)
qed

lemma for_each_total:
  assumes "P w" and "\<And>x w. x \<in> set xs \<Longrightarrow> P w \<Longrightarrow> \<exists>w'. f x w = Some w' \<and> P w'"
  shows "\<exists>w'. for_each f xs w = Some w' \<and> P w'"
  using assms
proof (induction xs arbitrary: w)
  case Nil
  then show ?case by simp
next
  case (Cons x xs)
  then obtain w1 where "f x w = Some w1" and "P w1" by (meson list.set_intros(1))
  with Cons.IH [of w1] Cons.prems(2) show ?case by auto
qed

lemma for_each_cong_fun:
  "(\<And>x w. x \<in> set xs \<Longrightarrow> f x w = g x w) \<Longrightarrow> for_each f xs w = for_each g xs w"
  by (induction xs arbitrary: w) (auto split: option.splits)

end
