(* ===== verification/Ring_Buffer.thy ===== *)
theory Ring_Buffer
  imports Prelude
begin

text \<open>
  The receive ring of a session (RingBuffer.h, RingBuffer.cpp): the structure with its two
  \<open>int\<close> cursors and its \<open>size_t\<close> counter, the five operations with their conversions and
  two-part \<open>memcpy\<close>, and the interface the framing loop uses: a first-in first-out byte
  store. \<open>rb_contents\<close> is the abstraction; the locale \<open>byte_store\<close> states the contract
  and its interpretation \<open>ring\<close> discharges it on these definitions.
\<close>

section \<open>The structure\<close>

definition RING_SIZE :: int where
  "RING_SIZE = 8192"

record ring_buffer =
  buffer :: bytes
  readPos :: int
  writePos :: int
  storedBytes :: size_t

text \<open>The array has no initialiser: \<open>junk\<close> is whatever memory holds.\<close>

definition new_ring :: "bytes \<Rightarrow> ring_buffer" where
  "new_ring junk = \<lparr>buffer = junk, readPos = 0, writePos = 0, storedBytes = 0\<rparr>"

section \<open>Operations\<close>

definition rb_Write :: "ring_buffer \<Rightarrow> bytes \<Rightarrow> int \<Rightarrow> (bool \<times> ring_buffer) option" where
  "rb_Write r src sz =
     (if ucast (uint_of_int sz) > size_of_int RING_SIZE - storedBytes r then Some (False, r)
      else do {
        let firstCopy = min sz (RING_SIZE - writePos r);
        b1 \<leftarrow> memcpy (buffer r) (writePos r) src 0 (size_of_int firstCopy);
        let remain = sz - firstCopy;
        b2 \<leftarrow> (if remain > 0 then memcpy b1 0 src firstCopy (size_of_int remain) else Some b1);
        Some (True, r\<lparr>buffer := b2,
                      writePos := (writePos r + sz) smod RING_SIZE,
                      storedBytes := storedBytes r + size_of_int sz\<rparr>)
      })"

definition rb_Peek :: "ring_buffer \<Rightarrow> bytes \<Rightarrow> int \<Rightarrow> (bool \<times> bytes) option" where
  "rb_Peek r dst sz =
     (if storedBytes r < ucast (uint_of_int sz) then Some (False, dst)
      else do {
        let firstCopy = min sz (RING_SIZE - readPos r);
        d1 \<leftarrow> memcpy dst 0 (buffer r) (readPos r) (size_of_int firstCopy);
        let remain = sz - firstCopy;
        d2 \<leftarrow> (if remain > 0 then memcpy d1 firstCopy (buffer r) 0 (size_of_int remain) else Some d1);
        Some (True, d2)
      })"

definition rb_Read :: "ring_buffer \<Rightarrow> bytes \<Rightarrow> int \<Rightarrow> (bool \<times> bytes \<times> ring_buffer) option" where
  "rb_Read r dst sz = do {
     (ok, d) \<leftarrow> rb_Peek r dst sz;
     if \<not> ok then Some (False, d, r)
     else Some (True, d, r\<lparr>readPos := (readPos r + sz) smod RING_SIZE,
                           storedBytes := storedBytes r - size_of_int sz\<rparr>)
   }"

definition rb_Has :: "ring_buffer \<Rightarrow> size_t \<Rightarrow> bool" where
  "rb_Has r sz \<longleftrightarrow> storedBytes r \<ge> sz"

text \<open>\<open>Skip\<close> adds an \<open>int\<close> and a \<open>size_t\<close>: the sum and the remainder are unsigned.\<close>

definition rb_Skip :: "ring_buffer \<Rightarrow> size_t \<Rightarrow> ring_buffer" where
  "rb_Skip r sz = r\<lparr>readPos := uint ((size_of_int (readPos r) + sz) mod size_of_int RING_SIZE),
                      storedBytes := storedBytes r - sz\<rparr>"

section \<open>Invariant and abstraction\<close>

definition rb_ok :: "ring_buffer \<Rightarrow> bool" where
  "rb_ok r \<longleftrightarrow> length (buffer r) = 8192 \<and> 0 \<le> readPos r \<and> readPos r < 8192 \<and>
     unat (storedBytes r) \<le> 8192 \<and> writePos r = (readPos r + int (unat (storedBytes r))) mod 8192"

definition ring_slice :: "bytes \<Rightarrow> nat \<Rightarrow> nat \<Rightarrow> bytes" where
  "ring_slice b p n = map (\<lambda>i. b ! ((p + i) mod 8192)) [0..<n]"

definition rb_contents :: "ring_buffer \<Rightarrow> bytes" where
  "rb_contents r = ring_slice (buffer r) (nat (readPos r)) (unat (storedBytes r))"

lemma length_ring_slice [simp]: "length (ring_slice b p n) = n"
  by (simp add: ring_slice_def)

lemma length_rb_contents [simp]: "length (rb_contents r) = unat (storedBytes r)"
  by (simp add: rb_contents_def)

lemma nth_ring_slice: "i < n \<Longrightarrow> ring_slice b p n ! i = b ! ((p + i) mod 8192)"
  by (simp add: ring_slice_def)

lemma take_ring_slice: "m \<le> n \<Longrightarrow> take m (ring_slice b p n) = ring_slice b p m"
  by (rule nth_equalityI) (auto simp: nth_ring_slice)

lemma drop_ring_slice: "drop m (ring_slice b p n) = ring_slice b ((p + m) mod 8192) (n - m)"
  by (rule nth_equalityI) (auto simp: nth_ring_slice mod_add_left_eq add.assoc)

lemma ring_slice_append:
  "ring_slice b p (m + n) = ring_slice b p m @ ring_slice b ((p + m) mod 8192) n"
proof -
  have "ring_slice b p (m + n) = take m (ring_slice b p (m + n)) @ drop m (ring_slice b p (m + n))"
    by simp
  then show ?thesis by (simp only: take_ring_slice drop_ring_slice le_add1 diff_add_inverse)
qed

lemma ring_slice_cong:
  assumes "\<And>i. i < n \<Longrightarrow> b ! ((p + i) mod 8192) = c ! ((p + i) mod 8192)"
  shows "ring_slice b p n = ring_slice c p n"
  using assms by (auto simp: ring_slice_def)

text \<open>A slice that does not wrap is a sublist of the array; a slice that does is two.\<close>

lemma ring_slice_flat:
  assumes "length b = 8192" and "p + n \<le> 8192"
  shows "ring_slice b p n = take n (drop p b)"
  using assms by (intro nth_equalityI) (auto simp: nth_ring_slice)

lemma ring_slice_wrap:
  assumes "length b = 8192" and "p < 8192" and "8192 \<le> p + n" and "n \<le> 8192"
  shows "ring_slice b p n = drop p b @ take (n - (8192 - p)) b"
proof -
  have "ring_slice b p ((8192 - p) + (n - (8192 - p)))
      = ring_slice b p (8192 - p) @ ring_slice b ((p + (8192 - p)) mod 8192) (n - (8192 - p))"
    by (rule ring_slice_append)
  with assms show ?thesis by (simp add: ring_slice_flat)
qed

section \<open>Functional behaviour of the operations\<close>

lemma smod_nonneg: "0 \<le> a \<Longrightarrow> 0 < b \<Longrightarrow> a smod b = a mod (b :: int)"
  by (simp add: signed_modulo_int_def signed_divide_int_def minus_div_mult_eq_mod sgn_if split: if_splits)

lemma new_ring_ok: "length junk = 8192 \<Longrightarrow> rb_ok (new_ring junk)"
  by (simp add: rb_ok_def new_ring_def)

lemma new_ring_contents [simp]: "rb_contents (new_ring junk) = []"
  by (simp add: rb_contents_def new_ring_def ring_slice_def)

lemma rb_Has_iff: "rb_Has r n \<longleftrightarrow> unat n \<le> length (rb_contents r)"
  by (simp add: rb_Has_def word_le_nat_alt)

lemma rb_ok_length: "rb_ok r \<Longrightarrow> length (rb_contents r) \<le> 8192"
  by (simp add: rb_ok_def)

lemma unat_size_of_uint: "0 \<le> n \<Longrightarrow> n < 2 ^ 32 \<Longrightarrow> unat (ucast (uint_of_int n) :: size_t) = nat n"
  by (simp add: unat_uint_of_int)

lemma rb_Peek_short:
  assumes "length (rb_contents r) < n" and "n < 2 ^ 32"
  shows "rb_Peek r dst (int n) = Some (False, dst)"
  using assms by (simp add: rb_Peek_def word_less_nat_alt unat_uint_of_int)

lemma rb_Peek_ok:
  assumes ok: "rb_ok r" and n: "n \<le> length (rb_contents r)" and d: "n \<le> length dst"
  shows "rb_Peek r dst (int n) = Some (True, take n (rb_contents r) @ drop n dst)"
proof -
  let ?p = "nat (readPos r)" and ?b = "buffer r"
  have len: "length ?b = 8192" and p: "?p < 8192" "0 \<le> readPos r" and le: "unat (storedBytes r) \<le> 8192"
    using ok by (auto simp: rb_ok_def)
  have n8: "n \<le> 8192" using n le by simp
  have guard: "\<not> storedBytes r < ucast (uint_of_int (int n))"
    using n n8 by (simp add: word_less_nat_alt unat_uint_of_int)
  have sl: "take n (rb_contents r) = ring_slice ?b ?p n"
    using n by (simp add: rb_contents_def take_ring_slice)
  show ?thesis
  proof (cases "?p + n \<le> 8192")
    case True
    have "rb_Peek r dst (int n) = Some (True, take n (drop ?p ?b) @ drop n dst)"
      using guard True p len d n8
      by (simp add: rb_Peek_def RING_SIZE_def min_absorb1 memcpy_def unat_size_of_int nat_le_iff le_nat_iff)
    with sl True len show ?thesis by (simp add: ring_slice_flat)
  next
    case False
    let ?f = "8192 - readPos r"
    have f: "min (int n) ?f = ?f" and nf: "nat ?f = 8192 - ?p" and f0: "0 \<le> ?f" "?f < 8193"
      and fn: "?f < int n"
      using False p by auto
    have c1: "memcpy dst 0 ?b (readPos r) (size_of_int ?f) = Some (drop ?p ?b @ drop (8192 - ?p) dst)"
      using False p len d f0 nf by (simp add: memcpy_def unat_size_of_int)
    have c2: "memcpy (drop ?p ?b @ drop (8192 - ?p) dst) ?f ?b 0 (size_of_int (int n - ?f))
        = Some (drop ?p ?b @ take (n - (8192 - ?p)) ?b @ drop n dst)"
    proof -
      have "nat (int n - ?f) = n - (8192 - ?p)" using nf f0 fn by simp
      moreover have "0 \<le> int n - ?f" "int n - ?f < 2 ^ 64" using fn f0 n8 by auto
      moreover have "n + ?p - 8192 \<le> 8192" using n8 p by linarith
      ultimately show ?thesis
        using False p len d f0 nf n8 by (simp add: memcpy_def unat_size_of_int)
    qed
    have "rb_Peek r dst (int n) = Some (True, drop ?p ?b @ take (n - (8192 - ?p)) ?b @ drop n dst)"
      using guard fn by (simp add: rb_Peek_def RING_SIZE_def f c1 c2 Let_def)
    with sl False p len n8 show ?thesis by (simp add: ring_slice_wrap)
  qed
qed


lemma rb_Skip_pos:
  assumes "0 \<le> readPos r" "readPos r < 8192"
  shows "readPos (rb_Skip r n) = (readPos r + uint n) mod 8192"
proof -
  have "uint (size_of_int (readPos r) + n) = (readPos r + uint n) mod 2 ^ 64"
    using assms by (simp add: uint_word_ariths size_of_int_def uint_word_of_int)
  then have "uint ((size_of_int (readPos r) + n) mod size_of_int RING_SIZE)
      = (readPos r + uint n) mod 2 ^ 64 mod 8192"
    by (simp add: uint_mod size_of_int_def RING_SIZE_def)
  also have "\<dots> = (readPos r + uint n) mod 8192"
    by (rule mod_mod_cancel) simp
  finally show ?thesis by (simp add: rb_Skip_def)
qed

lemma rb_Skip_ok:
  assumes ok: "rb_ok r" and n: "unat n \<le> length (rb_contents r)"
  shows "rb_ok (rb_Skip r n) \<and> rb_contents (rb_Skip r n) = drop (unat n) (rb_contents r)"
proof -
  have p: "0 \<le> readPos r" "readPos r < 8192"
    using ok by (auto simp: rb_ok_def)
  note pos = rb_Skip_pos [OF p, of n]
  have st: "unat (storedBytes (rb_Skip r n)) = unat (storedBytes r) - unat n"
    using n by (simp add: rb_Skip_def unat_sub word_le_nat_alt)
  have buf: "buffer (rb_Skip r n) = buffer r" "writePos (rb_Skip r n) = writePos r"
    by (simp_all add: rb_Skip_def)
  have np: "nat ((readPos r + uint n) mod 8192) = (nat (readPos r) + unat n) mod 8192"
    using p by (simp add: nat_mod_distrib nat_add_distrib)
  have "writePos r = ((readPos r + uint n) mod 8192 + int (unat (storedBytes r) - unat n)) mod 8192"
  proof -
    have "int (unat (storedBytes r) - unat n) = uint (storedBytes r) - uint n"
      using n by (simp add: of_nat_diff)
    moreover have "writePos r = (readPos r + uint (storedBytes r)) mod 8192"
      using ok by (simp add: rb_ok_def)
    ultimately show ?thesis by (simp only: mod_add_left_eq) simp
  qed
  moreover have "unat (storedBytes r) - unat n \<le> 8192"
    using ok by (auto simp: rb_ok_def)
  ultimately show ?thesis
    using ok n by (simp add: rb_ok_def rb_contents_def pos st buf np drop_ring_slice)
qed

lemma rb_Read_ok:
  assumes ok: "rb_ok r" and n: "n \<le> length (rb_contents r)" and d: "n \<le> length dst"
  shows "rb_Read r dst (int n) =
    Some (True, take n (rb_contents r) @ drop n dst, rb_Skip r (size_of_int (int n)))"
proof -
  have n8: "n \<le> 8192" and p: "0 \<le> readPos r" "readPos r < 8192"
    using ok n by (auto simp: rb_ok_def)
  have "(readPos r + int n) smod 8192 = readPos (rb_Skip r (size_of_int (int n)))"
    using p n8 by (simp add: rb_Skip_pos smod_nonneg uint_size_of_int)
  then show ?thesis
    by (simp add: rb_Read_def rb_Peek_ok [OF ok n d] RING_SIZE_def) (simp add: rb_Skip_def)
qed

text \<open>A write of at most the free space appends; a longer one is refused and changes nothing.\<close>

lemma free_space:
  assumes "rb_ok r"
  shows "unat (size_of_int RING_SIZE - storedBytes r) = 8192 - length (rb_contents r)"
proof -
  have "storedBytes r \<le> 8192"
    using assms by (simp add: rb_ok_def word_le_nat_alt)
  then show ?thesis by (simp add: size_of_int_def RING_SIZE_def unat_sub)
qed

lemma rb_Write_full:
  assumes "rb_ok r" and "8192 < length (rb_contents r) + n" and "n < 2 ^ 32"
  shows "rb_Write r src (int n) = Some (False, r)"
proof -
  have "size_of_int RING_SIZE - storedBytes r < ucast (uint_of_int (int n))"
    using assms free_space [OF assms(1)] rb_ok_length [OF assms(1)]
    by (simp add: word_less_nat_alt unat_uint_of_int)
  then show ?thesis by (simp add: rb_Write_def)
qed

lemma rb_Write_bytes:
  assumes ok: "rb_ok r" and n: "length (rb_contents r) + n \<le> 8192" and s: "n \<le> length src"
  obtains b where "rb_Write r src (int n) = Some (True, r\<lparr>buffer := b,
        writePos := (writePos r + int n) smod RING_SIZE, storedBytes := storedBytes r + size_of_int (int n)\<rparr>)"
    and "length b = 8192"
    and "\<And>i. i < 8192 \<Longrightarrow> b ! i =
      (if nat (writePos r) \<le> i \<and> i < nat (writePos r) + n then src ! (i - nat (writePos r))
       else if i + 8192 < nat (writePos r) + n then src ! (i + 8192 - nat (writePos r))
       else buffer r ! i)"
proof -
  let ?w = "nat (writePos r)" and ?b = "buffer r"
  have len: "length ?b = 8192" and w: "0 \<le> writePos r" "writePos r < 8192"
    using ok by (auto simp: rb_ok_def)
  have n8: "n \<le> 8192" using n by simp
  have guard: "\<not> ucast (uint_of_int (int n)) > size_of_int RING_SIZE - storedBytes r"
    using n n8 free_space [OF ok] by (simp add: word_less_nat_alt unat_uint_of_int)
  let ?f = "min (int n) (8192 - writePos r)"
  have f: "0 \<le> ?f" "?f < 2 ^ 64" and fn: "nat ?f = min n (8192 - ?w)" and w8: "?w < 8192"
    using w n8 by auto
  have uf: "unat (size_of_int ?f) = min n (8192 - ?w)"
    using unat_size_of_int [OF f] fn by simp
  obtain b1 where b1: "memcpy ?b (writePos r) src 0 (size_of_int ?f) = Some b1"
  proof -
    have "?w + min n (8192 - ?w) \<le> 8192" using w8 by simp
    then have "memcpy ?b (writePos r) src 0 (size_of_int ?f) \<noteq> None"
      using w len s by (simp add: memcpy_def uf)
    then show thesis using that by blast
  qed
  note n1 = nth_memcpy [OF b1, unfolded uf len] and l1 = memcpy_length [OF b1, unfolded len]
  show thesis
  proof (cases "?w + n \<le> 8192")
    case True
    have "?f = int n" using True w by auto
    with guard b1 have "rb_Write r src (int n) = Some (True, r\<lparr>buffer := b1,
        writePos := (writePos r + int n) smod RING_SIZE, storedBytes := storedBytes r + size_of_int (int n)\<rparr>)"
      by (simp add: rb_Write_def RING_SIZE_def Let_def)
    then show thesis
      by (rule that) (use True n1 l1 in auto)
  next
    case False
    have fw: "?f = 8192 - writePos r" "8192 - writePos r < int n" using False w by auto
    have rem: "unat (size_of_int (int n - (8192 - writePos r))) = n - (8192 - ?w)"
      using False w n8 by (subst unat_size_of_int) (auto simp: nat_diff_distrib')
    obtain b2 where b2: "memcpy b1 0 src (8192 - writePos r) (size_of_int (int n - (8192 - writePos r))) = Some b2"
    proof -
      have "n - (8192 - ?w) \<le> 8192" "nat (8192 - writePos r) + (n - (8192 - ?w)) \<le> length src"
        using False w s n8 by auto
      then have "memcpy b1 0 src (8192 - writePos r) (size_of_int (int n - (8192 - writePos r))) \<noteq> None"
        using w l1 by (simp add: memcpy_def rem)
      then show thesis using that by blast
    qed
    note n2 = nth_memcpy [OF b2, unfolded rem l1] and l2 = memcpy_length [OF b2, unfolded l1]
    have "rb_Write r src (int n) = Some (True, r\<lparr>buffer := b2,
        writePos := (writePos r + int n) smod RING_SIZE, storedBytes := storedBytes r + size_of_int (int n)\<rparr>)"
      using guard b1 b2 fw by (simp add: rb_Write_def RING_SIZE_def Let_def)
    then show thesis
    proof (rule that)
      fix i :: nat assume i: "i < 8192"
      show "b2 ! i = (if ?w \<le> i \<and> i < ?w + n then src ! (i - ?w)
         else if i + 8192 < ?w + n then src ! (i + 8192 - ?w) else ?b ! i)"
        using i False w w8 n8 by (auto simp: n1 [OF i] n2 [OF i] nat_diff_distrib' ac_simps)
    qed (rule l2)
  qed
qed


lemma rb_Write_ok:
  assumes ok: "rb_ok r" and n: "length (rb_contents r) + n \<le> 8192" and s: "n \<le> length src"
  shows "\<exists>r'. rb_Write r src (int n) = Some (True, r') \<and> rb_ok r' \<and>
    rb_contents r' = rb_contents r @ take n src"
proof -
  let ?p = "nat (readPos r)" and ?m = "unat (storedBytes r)" and ?w = "nat (writePos r)"
  have p: "0 \<le> readPos r" "readPos r < 8192" and w: "writePos r = (readPos r + int ?m) mod 8192"
    and mn: "?m + n \<le> 8192"
    using ok n by (auto simp: rb_ok_def)
  have wn: "?w = (?p + ?m) mod 8192"
    using p by (simp add: w nat_mod_distrib nat_add_distrib del: of_nat_unat)
  obtain b where wr: "rb_Write r src (int n) = Some (True, r\<lparr>buffer := b,
        writePos := (writePos r + int n) smod RING_SIZE, storedBytes := storedBytes r + size_of_int (int n)\<rparr>)"
      (is "_ = Some (True, ?r)") and lb: "length b = 8192"
    and nth: "\<And>i. i < 8192 \<Longrightarrow> b ! i =
      (if ?w \<le> i \<and> i < ?w + n then src ! (i - ?w)
       else if i + 8192 < ?w + n then src ! (i + 8192 - ?w) else buffer r ! i)"
    by (rule rb_Write_bytes [OF ok n s]) blast
  have st: "unat (storedBytes r + size_of_int (int n)) = ?m + n"
    using mn by (subst unat_word_ariths) (simp add: unat_size_of_int)
  have old: "ring_slice b ?p ?m = ring_slice (buffer r) ?p ?m"
  proof (rule ring_slice_cong)
    fix i assume i: "i < ?m"
    have "\<not> (?w \<le> (?p + i) mod 8192 \<and> (?p + i) mod 8192 < ?w + n)"
         "\<not> (?p + i) mod 8192 + 8192 < ?w + n"
      using i mn p by (auto simp: wn nat_less_iff mod_if split: if_splits)
    with nth [of "(?p + i) mod 8192"]
    show "b ! ((?p + i) mod 8192) = buffer r ! ((?p + i) mod 8192)"
      by (simp only: if_False mod_less_divisor zero_less_numeral)
  qed
  have new: "ring_slice b ?w n = take n src"
  proof (rule nth_equalityI)
    fix i assume i: "i < length (ring_slice b ?w n)"
    have w8: "?w < 8192" by (simp add: wn)
    have "(?w + i) mod 8192 = (if ?w + i < 8192 then ?w + i else ?w + i - 8192)"
      using i w8 mn by (auto simp: mod_if)
    then show "ring_slice b ?w n ! i = take n src ! i"
      using i w8 mn by (auto simp: nth_ring_slice nth)
  qed (use s in simp)
  have "rb_contents ?r = ring_slice b ?p (?m + n)"
    by (simp add: rb_contents_def st)
  also have "\<dots> = rb_contents r @ take n src"
    by (simp add: ring_slice_append old flip: wn) (simp add: new rb_contents_def)
  finally have c: "rb_contents ?r = rb_contents r @ take n src" .
  have "(writePos r + int n) smod RING_SIZE = (readPos r + int (?m + n)) mod 8192"
  proof -
    have "(writePos r + int n) smod RING_SIZE = (writePos r + int n) mod 8192"
      by (simp add: RING_SIZE_def smod_nonneg w)
    also have "\<dots> = (readPos r + int ?m + int n) mod 8192"
      unfolding w by (rule mod_add_left_eq)
    finally show ?thesis by (simp add: add.assoc)
  qed
  then have "rb_ok ?r"
    using ok lb mn by (simp add: rb_ok_def st del: of_nat_unat)
  with wr c show ?thesis by blast
qed

section \<open>The contract of the framing loop\<close>

text \<open>
  What \<open>Session::OnRecvComplete\<close> relies on: a bounded first-in first-out byte store. The
  client lemmas say how one packet is looked at and consumed.
\<close>

locale byte_store =
  fixes invar :: "'r \<Rightarrow> bool"
    and contents :: "'r \<Rightarrow> bytes"
    and has :: "'r \<Rightarrow> size_t \<Rightarrow> bool"
    and peek :: "'r \<Rightarrow> bytes \<Rightarrow> int \<Rightarrow> (bool \<times> bytes) option"
    and skip :: "'r \<Rightarrow> size_t \<Rightarrow> 'r"
    and put :: "'r \<Rightarrow> bytes \<Rightarrow> int \<Rightarrow> (bool \<times> 'r) option"
    and cap :: nat
  assumes bounded: "invar r \<Longrightarrow> length (contents r) \<le> cap"
    and has_iff: "has r k \<longleftrightarrow> unat k \<le> length (contents r)"
    and peek_ok: "invar r \<Longrightarrow> n \<le> length (contents r) \<Longrightarrow> n \<le> length dst \<Longrightarrow>
      peek r dst (int n) = Some (True, take n (contents r) @ drop n dst)"
    and skip_ok: "invar r \<Longrightarrow> unat k \<le> length (contents r) \<Longrightarrow>
      invar (skip r k) \<and> contents (skip r k) = drop (unat k) (contents r)"
    and put_ok: "invar r \<Longrightarrow> length (contents r) + n \<le> cap \<Longrightarrow> n \<le> length src \<Longrightarrow>
      \<exists>r'. put r src (int n) = Some (True, r') \<and> invar r' \<and> contents r' = contents r @ take n src"
    and put_full: "invar r \<Longrightarrow> cap < length (contents r) + n \<Longrightarrow> n < 2 ^ 32 \<Longrightarrow>
      put r src (int n) = Some (False, r)"
begin

lemma peek_exact:
  assumes "invar r" and "n \<le> length (contents r)" and "length dst = n"
  shows "peek r dst (int n) = Some (True, take n (contents r))"
  using peek_ok [OF assms(1,2), of dst] assms(3) by simp

text \<open>Skip a header, look at the body, skip the body: the bytes are consumed in order.\<close>

lemma take_record:
  assumes "invar r" and "unat h + unat b \<le> length (contents r)" and "length dst = unat b"
  shows "peek (skip r h) dst (int (unat b)) = Some (True, take (unat b) (drop (unat h) (contents r))) \<and>
    invar (skip (skip r h) b) \<and> contents (skip (skip r h) b) = drop (unat h + unat b) (contents r)"
proof -
  have s: "invar (skip r h)" "contents (skip r h) = drop (unat h) (contents r)"
    using skip_ok [OF assms(1), of h] assms(2) by simp_all
  have b: "unat b \<le> length (contents (skip r h))" using s assms(2) by simp
  show ?thesis
    using peek_exact [OF s(1) b assms(3)] skip_ok [OF s(1) b] s(2) by (simp add: add.commute)
qed

text \<open>Bytes come out in the order they went in: a write after a skip only appends.\<close>

lemma put_then_take:
  assumes "invar r" and "length (contents r) + n \<le> cap" and "n \<le> length src"
    and "put r src (int n) = Some (ok, r')"
  shows "ok \<and> take (length (contents r)) (contents r') = contents r \<and>
    drop (length (contents r)) (contents r') = take n src"
  using put_ok [OF assms(1-3)] assms(4) by auto

end

interpretation ring: byte_store rb_ok rb_contents rb_Has rb_Peek rb_Skip rb_Write 8192
  by unfold_locales
    (simp_all add: rb_ok_length rb_Has_iff rb_Peek_ok rb_Skip_ok rb_Write_ok rb_Write_full
      del: length_rb_contents)

end
