(* ===== verification/Packet.thy ===== *)
theory Packet
  imports Prelude
begin

text \<open>
  Packet.h, Packet.cpp and the enumerations of Protocol.h: the four-byte packed header, the
  non-owning packet view, its validity check, the packet ids and the error codes. The
  enumerations are datatypes with their wire values; an id that arrives from a client is a
  raw \<open>uint16_t\<close>.
\<close>

section \<open>Identifiers\<close>

datatype PACKET_ID =
    PKT_CS_LOGIN | PKT_CS_CHAT | PKT_SC_CHAT | PKT_CS_ENTER_ROOM
  | PKT_CS_HELLO | PKT_SC_WELCOME | PKT_CS_JOIN_ROOM | PKT_SC_ROOM_STATE
  | PKT_CS_READY | PKT_SC_GAME_START
  | PKT_SC_SHUTDOWN | PKT_SC_KICK | PKT_SC_ERROR

fun pkt :: "PACKET_ID \<Rightarrow> u16" where
  "pkt PKT_CS_LOGIN = 1"
| "pkt PKT_CS_CHAT = 2"
| "pkt PKT_SC_CHAT = 3"
| "pkt PKT_CS_ENTER_ROOM = 4"
| "pkt PKT_CS_HELLO = 10"
| "pkt PKT_SC_WELCOME = 11"
| "pkt PKT_CS_JOIN_ROOM = 20"
| "pkt PKT_SC_ROOM_STATE = 21"
| "pkt PKT_CS_READY = 22"
| "pkt PKT_SC_GAME_START = 30"
| "pkt PKT_SC_SHUTDOWN = 1000"
| "pkt PKT_SC_KICK = 1001"
| "pkt PKT_SC_ERROR = 1002"

datatype PROTOCOL_ERROR =
    ERR_VERSION_MISMATCH | ERR_BAD_FORMAT | ERR_NOT_ALLOWED | ERR_NO_SUCH_ROOM
  | ERR_ROOM_FULL | ERR_MATCH_ENDED | ERR_BOMB_LIMIT

fun err_code :: "PROTOCOL_ERROR \<Rightarrow> u16" where
  "err_code ERR_VERSION_MISMATCH = 1"
| "err_code ERR_BAD_FORMAT = 2"
| "err_code ERR_NOT_ALLOWED = 3"
| "err_code ERR_NO_SUCH_ROOM = 4"
| "err_code ERR_ROOM_FULL = 5"
| "err_code ERR_MATCH_ENDED = 6"
| "err_code ERR_BOMB_LIMIT = 7"

definition PROTOCOL_VERSION :: u16 where
  "PROTOCOL_VERSION = 1"

lemma pkt_inject [simp]: "pkt a = pkt b \<longleftrightarrow> a = b"
  by (cases a; cases b) simp_all

lemma err_code_inject [simp]: "err_code a = err_code b \<longleftrightarrow> a = b"
  by (cases a; cases b) simp_all

section \<open>Header and packet\<close>

record PacketHeader =
  h_size :: u16
  h_id :: u16

text \<open>\<open>sizeof(PacketHeader)\<close> is 4: the struct is packed.\<close>

definition HEADER_SIZE :: size_t where
  "HEADER_SIZE = 4"

definition MAX_PACKET_SIZE :: u16 where
  "MAX_PACKET_SIZE = 4096"

text \<open>The bytes of a header object, and the object its bytes spell.\<close>

definition header_bytes :: "PacketHeader \<Rightarrow> bytes" where
  "header_bytes h = le16 (h_size h) @ le16 (h_id h)"

definition header_of :: "bytes \<Rightarrow> PacketHeader" where
  "header_of bs = \<lparr>h_size = of_le16 bs, h_id = of_le16 (drop 2 bs)\<rparr>"

text \<open>A packet does not own its body: the body is what its pointer reaches.\<close>

record Packet =
  header :: PacketHeader
  body :: bytes

definition IsValid :: "Packet \<Rightarrow> bool" where
  "IsValid p =
     (if ucast (h_size (header p)) < HEADER_SIZE then False
      else if h_size (header p) > MAX_PACKET_SIZE then False
      else True)"

definition IsKnownPacketId :: "u16 \<Rightarrow> bool" where
  "IsKnownPacketId i \<longleftrightarrow>
     i = pkt PKT_CS_LOGIN \<or> i = pkt PKT_CS_CHAT \<or> i = pkt PKT_CS_ENTER_ROOM \<or>
     i = pkt PKT_CS_HELLO \<or> i = pkt PKT_CS_JOIN_ROOM \<or> i = pkt PKT_CS_READY"

text \<open>
  \<open>const int bodySize = header.size - sizeof(PacketHeader)\<close>: a \<open>size_t\<close> subtraction
  that wraps for a size below four, narrowed to \<open>int\<close>.
\<close>

definition body_size :: "PacketHeader \<Rightarrow> int" where
  "body_size h = sint (ucast (ucast (h_size h) - HEADER_SIZE :: size_t) :: u32)"

lemma body_size_eq: "body_size h = int (unat (h_size h)) - 4"
proof -
  have eq: "ucast (ucast (h_size h) - HEADER_SIZE :: size_t) = (word_of_int (uint (h_size h) - 4) :: u32)"
    by (simp add: HEADER_SIZE_def word_uint_eq_iff uint_word_of_int uint_word_ariths unsigned_ucast_eq
        take_bit_eq_mod mod_mod_cancel mod_diff_left_eq)
  have "uint (h_size h) < 65536"
    using uint_lt2p [of "h_size h"] by simp
  then have "- (2 ^ 31) \<le> uint (h_size h) - 4" and "uint (h_size h) - 4 < 2 ^ 31"
    by simp_all
  then have "sint (word_of_int (uint (h_size h) - 4) :: u32) = uint (h_size h) - 4"
    by (rule sint_of_int_small)
  then show ?thesis
    unfolding body_size_def eq by simp
qed

lemma header_of_bytes [codec_simps]: "header_of (header_bytes h @ rest) = h"
  by (simp add: header_of_def header_bytes_def codec_simps)

lemma length_header_bytes [simp]: "length (header_bytes h) = 4"
  by (simp add: header_bytes_def)

lemma header_of_take [simp]: "4 \<le> n \<Longrightarrow> header_of (take n bs) = header_of bs"
  by (simp add: header_of_def drop_take)

lemma header_of_append_long: "4 \<le> length bs \<Longrightarrow> header_of (bs @ cs) = header_of bs"
  by (simp add: header_of_def of_le16_append_long)

lemma header_bytes_of: "length bs = 4 \<Longrightarrow> header_bytes (header_of bs) = bs"
proof -
  assume len: "length bs = 4"
  have "le16 (of_le16 (take 2 bs)) = take 2 bs" and "le16 (of_le16 (drop 2 bs)) = drop 2 bs"
    using len by (intro le16_of_le16, simp)+
  then show ?thesis by (simp add: header_bytes_def header_of_def)
qed

lemma IsValid_iff: "IsValid p \<longleftrightarrow> 4 \<le> unat (h_size (header p)) \<and> unat (h_size (header p)) \<le> 4096"
  by (auto simp: IsValid_def HEADER_SIZE_def MAX_PACKET_SIZE_def word_less_nat_alt word_le_nat_alt)

text \<open>Every id a client may send is client-to-server, and only those are known.\<close>

lemma IsKnownPacketId_iff:
  "IsKnownPacketId i \<longleftrightarrow> i \<in> pkt ` {PKT_CS_LOGIN, PKT_CS_CHAT, PKT_CS_ENTER_ROOM,
     PKT_CS_HELLO, PKT_CS_JOIN_ROOM, PKT_CS_READY}"
  by (simp add: IsKnownPacketId_def del: pkt.simps)

end
