(* ===== verification/Job_Queue.thy ===== *)
theory Job_Queue
  imports Packet
begin

text \<open>
  GameJob.h and GameJobQueue: the messages from the network threads to the game thread, and
  the lock-protected queue that carries them. Each of \<open>Push\<close> and \<open>Pop\<close> runs under the
  queue's mutex, so each is one atomic step. The locale \<open>fifo\<close> is the contract the game
  loop relies on.
\<close>

text \<open>
  \<open>GameJob\<close> is a tagged struct: only a \<open>Packet\<close> job carries a header and a body, and a
  \<open>Shutdown\<close> job's session is null. A session pointer is its address.
\<close>

type_synonym sid = nat

datatype GameJob =
    PacketJob sid PacketHeader bytes
  | DisconnectJob sid
  | ConnectJob sid
  | ShutdownJob

type_synonym GameJobQueue = "GameJob list"

definition Push :: "GameJobQueue \<Rightarrow> GameJob \<Rightarrow> GameJobQueue" where
  "Push q job = q @ [job]"

text \<open>\<open>Pop\<close> returns false on an empty queue and leaves the out-parameter alone.\<close>

fun Pop :: "GameJobQueue \<Rightarrow> (GameJob \<times> GameJobQueue) option" where
  "Pop [] = None"
| "Pop (job # q) = Some (job, q)"

section \<open>The contract\<close>

locale fifo =
  fixes push :: "'q \<Rightarrow> 'a \<Rightarrow> 'q"
    and pop :: "'q \<Rightarrow> ('a \<times> 'q) option"
    and pending :: "'q \<Rightarrow> 'a list"
  assumes pending_push: "pending (push q x) = pending q @ [x]"
    and pop_empty: "pending q = [] \<Longrightarrow> pop q = None"
    and pop_head: "pending q = x # xs \<Longrightarrow> \<exists>q'. pop q = Some (x, q') \<and> pending q' = xs"
begin

fun push_all :: "'q \<Rightarrow> 'a list \<Rightarrow> 'q" where
  "push_all q [] = q"
| "push_all q (x # xs) = push_all (push q x) xs"

fun pop_n :: "nat \<Rightarrow> 'q \<Rightarrow> 'a list \<times> 'q" where
  "pop_n 0 q = ([], q)"
| "pop_n (Suc n) q = (case pop q of None \<Rightarrow> ([], q)
     | Some (x, q') \<Rightarrow> (case pop_n n q' of (xs, q'') \<Rightarrow> (x # xs, q'')))"

lemma pending_push_all: "pending (push_all q xs) = pending q @ xs"
  by (induction xs arbitrary: q) (simp_all add: pending_push)

lemma pop_n_pending:
  "n \<le> length (pending q) \<Longrightarrow> fst (pop_n n q) = take n (pending q) \<and> pending (snd (pop_n n q)) = drop n (pending q)"
proof (induction n arbitrary: q)
  case 0
  then show ?case by simp
next
  case (Suc n)
  then obtain x xs where p: "pending q = x # xs" by (cases "pending q") auto
  then obtain q' where q': "pop q = Some (x, q')" "pending q' = xs" using pop_head by blast
  with Suc.IH [of q'] Suc.prems p show ?case by (auto split: prod.splits)
qed

text \<open>What was pushed comes out in the same order, behind what was already there.\<close>

lemma first_in_first_out:
  assumes "pending q = []"
  shows "fst (pop_n (length xs) (push_all q xs)) = xs"
  using pop_n_pending [of "length xs" "push_all q xs"] pending_push_all [of q xs] assms by simp

lemma pop_None_iff: "pop q = None \<longleftrightarrow> pending q = []"
  using pop_empty pop_head by (cases "pending q") fastforce+

end

interpretation jobs: fifo Push Pop "\<lambda>q. q"
  by unfold_locales (auto simp: Push_def)

lemma Pop_Push_nonempty: "Pop q = Some (j, q') \<Longrightarrow> Pop (Push q k) = Some (j, Push q' k)"
  by (cases q) (auto simp: Push_def)

end
