(* ===== verification/Session.thy ===== *)
theory Session
  imports Ring_Buffer Job_Queue
begin

text \<open>
  Session.h, Session.cpp, the network-side validation of Protocol.cpp and the job producers
  of GameServer.cpp: everything that runs on a session from its socket up to the job queue.

  The state \<open>io\<close> holds the heap of sessions (\<open>sessions s\<close> is \<open>None\<close> when no live session
  is at address \<open>s\<close>), the two members of the game server that network threads touch (its
  state and its job queue), and the sequence of system calls made so far. \<open>sysResult n\<close> is
  the outcome the operating system gives to the call made after \<open>n\<close> others: any sequence of
  outcomes is an instance. An operation is a function \<open>io \<Rightarrow> io option\<close>; \<open>None\<close> means that it
  used a freed session or left an array.
\<close>

section \<open>State\<close>

datatype SessionState = Connected | Closing | Closed

datatype ServerState = Running | ShuttingDown | Stopped

text \<open>\<open>IoStarted\<close> is success or \<open>WSA_IO_PENDING\<close>; \<open>IoFailed\<close> is every other error.\<close>

datatype io_result = IoStarted | IoFailed

datatype syscall =
    WSARecv sid
  | WSASend sid bytes
  | CloseSocket nat
  | AssociatePort nat sid
  | PostStatus "sid option"

text \<open>\<open>INVALID_SOCKET\<close> is \<open>None\<close>. \<open>s_recvBuf\<close> is the array of the receive context.\<close>

record session =
  s_sock :: "nat option"
  s_state :: SessionState
  s_gameCleanupDone :: bool
  s_pendingIO :: i32
  s_destroying :: bool
  s_recvPosted :: bool
  s_closeIssued :: bool
  s_recvBuf :: bytes
  s_recvRing :: ring_buffer

record io =
  sessions :: "sid \<Rightarrow> session option"
  srvState :: ServerState
  jobQueue :: GameJobQueue
  trace :: "syscall list"
  sysResult :: "nat \<Rightarrow> io_result"

definition BUFFER_SIZE :: nat where
  "BUFFER_SIZE = 4096"

text \<open>The constructor: the context array is zeroed, the ring's array is not (\<open>junk\<close>).\<close>

definition new_Session :: "nat \<Rightarrow> bytes \<Rightarrow> session" where
  "new_Session sock junk =
     \<lparr>s_sock = Some sock, s_state = Connected, s_gameCleanupDone = False, s_pendingIO = 0,
      s_destroying = False, s_recvPosted = False, s_closeIssued = False,
      s_recvBuf = replicate BUFFER_SIZE 0, s_recvRing = new_ring junk\<rparr>"

definition put_session :: "sid \<Rightarrow> session \<Rightarrow> io \<Rightarrow> io" where
  "put_session s x w = w\<lparr>sessions := (sessions w)(s \<mapsto> x)\<rparr>"

definition syscall_result :: "io \<Rightarrow> io_result" where
  "syscall_result w = sysResult w (length (trace w))"

definition add_call :: "syscall \<Rightarrow> io \<Rightarrow> io" where
  "add_call c w = w\<lparr>trace := trace w @ [c]\<rparr>"

section \<open>Job producers\<close>

definition IsShuttingDown :: "io \<Rightarrow> bool" where
  "IsShuttingDown w \<longleftrightarrow> srvState w = ShuttingDown"

definition push_job :: "GameJob \<Rightarrow> io \<Rightarrow> io" where
  "push_job j w = w\<lparr>jobQueue := Push (jobQueue w) j\<rparr>"

text \<open>The body is copied into the job; a null or empty body leaves the job's empty.\<close>

definition EnqueuePacketJob :: "sid \<Rightarrow> Packet \<Rightarrow> io \<Rightarrow> io option" where
  "EnqueuePacketJob s p w =
     (if IsShuttingDown w then Some w
      else let bodySize = body_size (header p) in
        do {
          bd \<leftarrow> (if bodySize > 0 then read_bytes (body p) (nat bodySize) else Some []);
          Some (push_job (PacketJob s (header p) bd) w)
        })"

definition EnqueueDisconnectJob :: "sid \<Rightarrow> io \<Rightarrow> io" where
  "EnqueueDisconnectJob s w = push_job (DisconnectJob s) w"

definition EnqueueConnectJob :: "sid \<Rightarrow> io \<Rightarrow> io" where
  "EnqueueConnectJob s w = (if IsShuttingDown w then w else push_job (ConnectJob s) w)"

definition EnqueueShutdownJob :: "io \<Rightarrow> io" where
  "EnqueueShutdownJob w = push_job ShutdownJob w"

text \<open>\<open>OnSessionDisconnected\<close> of Protocol.cpp forwards to the game server's queue.\<close>

definition OnSessionDisconnected :: "sid \<Rightarrow> io \<Rightarrow> io" where
  "OnSessionDisconnected s w = EnqueueDisconnectJob s w"

section \<open>Closing\<close>

text \<open>
  Compare-and-exchange on a boolean flag: the new value of the flag and whether this call
  changed it.
\<close>

definition cas_flag :: "bool \<Rightarrow> bool \<times> bool" where
  "cas_flag flag = (if flag then (flag, False) else (True, True))"

definition Close :: "sid \<Rightarrow> io \<Rightarrow> io option" where
  "Close s w = do {
     x \<leftarrow> sessions w s;
     let (flag, won) = cas_flag (s_closeIssued x);
     if \<not> won then Some w
     else let w1 = (case s_sock x of None \<Rightarrow> w | Some k \<Rightarrow> add_call (CloseSocket k) w)
       in Some (put_session s (x\<lparr>s_closeIssued := flag, s_sock := None, s_state := Closed\<rparr>) w1)
   }"

definition RequestClose :: "sid \<Rightarrow> io \<Rightarrow> io option" where
  "RequestClose s w = do {
     x \<leftarrow> sessions w s;
     if s_state x \<noteq> Connected then Some w
     else do {
       w1 \<leftarrow> Close s (put_session s (x\<lparr>s_state := Closing\<rparr>) w);
       Some (OnSessionDisconnected s w1)
     }
   }"

definition TryBeginDestroy :: "sid \<Rightarrow> io \<Rightarrow> (bool \<times> io) option" where
  "TryBeginDestroy s w = do {
     x \<leftarrow> sessions w s;
     let (flag, won) = cas_flag (s_destroying x);
     Some (won, put_session s (x\<lparr>s_destroying := flag\<rparr>) w)
   }"

definition MarkGameCleanupDone :: "sid \<Rightarrow> io \<Rightarrow> io option" where
  "MarkGameCleanupDone s w = do {
     x \<leftarrow> sessions w s;
     Some (put_session s (x\<lparr>s_gameCleanupDone := True\<rparr>) w)
   }"

section \<open>Posting I/O\<close>

definition PostRecv :: "sid \<Rightarrow> io \<Rightarrow> io option" where
  "PostRecv s w = do {
     x \<leftarrow> sessions w s;
     if s_state x \<noteq> Connected then Some w
     else let (flag, won) = cas_flag (s_recvPosted x) in
       if \<not> won then Some w
       else let x1 = x\<lparr>s_recvPosted := flag, s_pendingIO := s_pendingIO x + 1\<rparr>;
                ret = syscall_result w;
                w1 = add_call (WSARecv s) (put_session s x1 w)
         in case ret of
              IoStarted \<Rightarrow> Some w1
            | IoFailed \<Rightarrow> RequestClose s (put_session s
                 (x1\<lparr>s_recvPosted := False, s_pendingIO := s_pendingIO x1 - 1\<rparr>) w1)
   }"

text \<open>The send context owns a copy of the data; a failed call deletes it.\<close>

definition PostSend :: "sid \<Rightarrow> bytes option \<Rightarrow> int \<Rightarrow> io \<Rightarrow> io option" where
  "PostSend s data len w = do {
     x \<leftarrow> sessions w s;
     if s_state x = Closed then Some w
     else if data = None \<or> len \<le> 0 \<or> len > uint MAX_PACKET_SIZE then Some w
     else do {
       buf \<leftarrow> read_bytes (the data) (nat len);
       let x1 = x\<lparr>s_pendingIO := s_pendingIO x + 1\<rparr>;
       let ret = syscall_result w;
       let w1 = add_call (WSASend s buf) (put_session s x1 w);
       (case ret of
          IoStarted \<Rightarrow> Some w1
        | IoFailed \<Rightarrow> RequestClose s (put_session s (x1\<lparr>s_pendingIO := s_pendingIO x1 - 1\<rparr>) w1))
     }
   }"

text \<open>
  \<open>SendPacket(id, data, dataSize)\<close>; \<open>None\<close> is a null \<open>data\<close> pointer. The 32-bit sum of
  header and body cannot wrap, so its lower test never rejects.
\<close>

definition SendPacket :: "sid \<Rightarrow> u16 \<Rightarrow> bytes option \<Rightarrow> u16 \<Rightarrow> io \<Rightarrow> io option" where
  "SendPacket s pid data dataSize w = do {
     x \<leftarrow> sessions w s;
     if pid \<noteq> pkt PKT_SC_SHUTDOWN \<and> (s_state x \<noteq> Connected \<or> IsShuttingDown w) then Some w
     else
       let packetSize32 = (ucast HEADER_SIZE + ucast dataSize :: u32) in
       if packetSize32 < ucast HEADER_SIZE \<or> packetSize32 > ucast MAX_PACKET_SIZE then Some w
       else if dataSize > 0 \<and> data = None then Some w
       else do {
         let packetSize = (ucast packetSize32 :: u16);
         bd \<leftarrow> (if dataSize > 0 then read_bytes (the data) (unat dataSize) else Some []);
         let packet = header_bytes \<lparr>h_size = packetSize, h_id = pid\<rparr> @ bd;
         PostSend s (Some packet) (int (length packet)) w
       }
   }"

definition OnSendComplete :: "sid \<Rightarrow> u32 \<Rightarrow> bool \<Rightarrow> io \<Rightarrow> io option" where
  "OnSendComplete s n success w = do {
     x \<leftarrow> sessions w s;
     let w1 = put_session s (x\<lparr>s_pendingIO := s_pendingIO x - 1\<rparr>) w;
     if \<not> success \<or> n = 0 then RequestClose s w1 else Some w1
   }"

section \<open>Network-side validation\<close>

definition ProcessPacket :: "sid \<Rightarrow> Packet \<Rightarrow> io \<Rightarrow> io option" where
  "ProcessPacket s p w =
     (if IsShuttingDown w then Some w
      else do {
        x \<leftarrow> sessions w s;
        if s_state x = Closing then Some w
        else if \<not> IsValid p then do {
          w1 \<leftarrow> SendPacket s (pkt PKT_SC_KICK) None 0 w;
          RequestClose s w1
        }
        else if \<not> IsKnownPacketId (h_id (header p)) then do {
          w1 \<leftarrow> SendPacket s (pkt PKT_SC_KICK) None 0 w;
          RequestClose s w1
        }
        else EnqueuePacketJob s p w
      })"

end
