(* ===== verification/Session_Facts.thy ===== *)
theory Session_Facts
  imports Session
begin

text \<open>
  What the session operations guarantee. \<open>session_ok\<close> is the invariant of a session between
  two handlers; \<open>io_frame\<close> is the effect contract of every operation that only sends or
  closes: it never frees a session, never reopens one, never touches a receive ring, only
  appends system calls and disconnect jobs, and keeps the pending-I/O counter in balance with
  the calls the operating system accepted.
\<close>

section \<open>The flags: compare-and-exchange\<close>

text \<open>A one-shot flag is won by exactly one of any number of attempts.\<close>

locale one_shot =
  fixes cas :: "'f \<Rightarrow> 'f \<times> bool" and raised :: "'f \<Rightarrow> bool"
  assumes cas_raises: "raised (fst (cas f))"
    and cas_wins: "snd (cas f) \<longleftrightarrow> \<not> raised f"
begin

fun attempts :: "nat \<Rightarrow> 'f \<Rightarrow> bool list" where
  "attempts 0 f = []"
| "attempts (Suc n) f = snd (cas f) # attempts n (fst (cas f))"

lemma attempts_raised: "raised f \<Longrightarrow> attempts n f = replicate n False"
  by (induction n arbitrary: f) (simp_all add: cas_wins cas_raises)

lemma exactly_one_winner: "\<not> raised f \<Longrightarrow> count_list (attempts (Suc n) f) True = 1"
  by (simp add: cas_wins attempts_raised cas_raises count_list_0_iff)

end

interpretation flag: one_shot cas_flag "\<lambda>f. f"
  by unfold_locales (auto simp: cas_flag_def)

lemma cas_flag_simps [simp]: "cas_flag True = (True, False)" "cas_flag False = (True, True)"
  by (simp_all add: cas_flag_def)

section \<open>State access\<close>

lemma sessions_put [simp]: "sessions (put_session s x w) = (sessions w)(s \<mapsto> x)"
  by (simp add: put_session_def)

lemma put_session_fields [simp]:
  "srvState (put_session s x w) = srvState w" "jobQueue (put_session s x w) = jobQueue w"
  "trace (put_session s x w) = trace w" "sysResult (put_session s x w) = sysResult w"
  by (simp_all add: put_session_def)

lemma add_call_fields [simp]:
  "sessions (add_call c w) = sessions w" "srvState (add_call c w) = srvState w"
  "jobQueue (add_call c w) = jobQueue w" "trace (add_call c w) = trace w @ [c]"
  "sysResult (add_call c w) = sysResult w"
  by (simp_all add: add_call_def)

lemma push_job_fields [simp]:
  "sessions (push_job j w) = sessions w" "srvState (push_job j w) = srvState w"
  "jobQueue (push_job j w) = jobQueue w @ [j]" "trace (push_job j w) = trace w"
  "sysResult (push_job j w) = sysResult w"
  by (simp_all add: push_job_def Push_def)

lemma IsShuttingDown_cong: "srvState w = srvState w' \<Longrightarrow> IsShuttingDown w = IsShuttingDown w'"
  by (simp add: IsShuttingDown_def)

lemmas job_defs = OnSessionDisconnected_def EnqueueDisconnectJob_def EnqueueConnectJob_def
  EnqueueShutdownJob_def

section \<open>Started I/O\<close>

fun io_of :: "sid \<Rightarrow> syscall \<Rightarrow> bool" where
  "io_of s (WSARecv t) \<longleftrightarrow> s = t"
| "io_of s (WSASend t d) \<longleftrightarrow> s = t"
| "io_of s _ \<longleftrightarrow> False"

text \<open>The overlapped operations of session \<open>s\<close> that the operating system accepted.\<close>

definition started :: "sid \<Rightarrow> io \<Rightarrow> nat" where
  "started s w = length (filter (\<lambda>i. io_of s (trace w ! i) \<and> sysResult w i = IoStarted)
     [0..<length (trace w)])"

lemma started_cong: "trace w = trace w' \<Longrightarrow> sysResult w = sysResult w' \<Longrightarrow> started s w = started s w'"
  by (simp add: started_def)

lemma started_put [simp]: "started s (put_session t x w) = started s w"
  and started_push [simp]: "started s (push_job j w) = started s w"
  by (rule started_cong; simp)+

lemma started_add_call [simp]:
  "started s (add_call c w) = started s w + (if io_of s c \<and> syscall_result w = IoStarted then 1 else 0)"
proof -
  have "filter (\<lambda>i. io_of s ((trace w @ [c]) ! i) \<and> sysResult w i = IoStarted) [0..<length (trace w)]
      = filter (\<lambda>i. io_of s (trace w ! i) \<and> sysResult w i = IoStarted) [0..<length (trace w)]"
    by (rule filter_cong) (auto simp: nth_append)
  then show ?thesis by (simp add: started_def syscall_result_def)
qed

section \<open>The order of the session states\<close>

text \<open>A session goes from open over closing to closed; the order lets monotonicity be stated as \<open>\<le>\<close>.\<close>

primrec session_rank :: "SessionState \<Rightarrow> nat" where
  "session_rank Connected = 0"
| "session_rank Closing = 1"
| "session_rank Closed = 2"

lemma session_rank_inj [simp]: "session_rank a = session_rank b \<longleftrightarrow> a = b"
  by (cases a; cases b) simp_all

instantiation SessionState :: linorder
begin

definition less_eq_SessionState :: "SessionState \<Rightarrow> SessionState \<Rightarrow> bool" where
  "less_eq_SessionState a b \<longleftrightarrow> session_rank a \<le> session_rank b"

definition less_SessionState :: "SessionState \<Rightarrow> SessionState \<Rightarrow> bool" where
  "less_SessionState a b \<longleftrightarrow> session_rank a < session_rank b"

instance
  by standard (auto simp: less_eq_SessionState_def less_SessionState_def intro: antisym [THEN session_rank_inj [THEN iffD1]])

end

lemma session_state_bounds [simp]: "Connected \<le> st" "st \<le> Closed"
  by (cases st; simp add: less_eq_SessionState_def)+

section \<open>The invariant of a session\<close>

text \<open>
  Between handlers a session is open with a socket, or closed without one; the intermediate
  \<open>Closing\<close> is only visible inside \<open>RequestClose\<close>.
\<close>

definition session_ok :: "session \<Rightarrow> bool" where
  "session_ok x \<longleftrightarrow> rb_ok (s_recvRing x) \<and> length (s_recvBuf x) = BUFFER_SIZE \<and>
     (if s_closeIssued x then s_state x = Closed \<and> s_sock x = None
      else s_state x = Connected \<and> s_sock x \<noteq> None)"

definition io_ok :: "io \<Rightarrow> bool" where
  "io_ok w \<longleftrightarrow> (\<forall>s x. sessions w s = Some x \<longrightarrow> session_ok x)"

lemma new_Session_ok: "length junk = 8192 \<Longrightarrow> session_ok (new_Session sock junk)"
  by (simp add: session_ok_def new_Session_def new_ring_ok)

lemma session_ok_upd [simp]:
  "session_ok (x\<lparr>s_recvPosted := b\<rparr>) = session_ok x"
  "session_ok (x\<lparr>s_pendingIO := n\<rparr>) = session_ok x"
  "session_ok (x\<lparr>s_gameCleanupDone := b\<rparr>) = session_ok x"
  "session_ok (x\<lparr>s_destroying := b\<rparr>) = session_ok x"
  "session_ok x \<Longrightarrow> rb_ok r \<Longrightarrow> session_ok (x\<lparr>s_recvRing := r\<rparr>)"
  "session_ok x \<Longrightarrow> length b' = BUFFER_SIZE \<Longrightarrow> session_ok (x\<lparr>s_recvBuf := b'\<rparr>)"
  by (auto simp: session_ok_def)

lemma io_okD: "io_ok w \<Longrightarrow> sessions w s = Some x \<Longrightarrow> session_ok x"
  by (simp add: io_ok_def)

lemma io_ok_put: "io_ok w \<Longrightarrow> session_ok x \<Longrightarrow> io_ok (put_session s x w)"
  by (simp add: io_ok_def)

lemma io_ok_simps [simp]: "io_ok (add_call c w) = io_ok w" "io_ok (push_job j w) = io_ok w"
  by (simp_all add: io_ok_def)

section \<open>The effect contract\<close>

text \<open>
  The jobs a session may raise: its disconnection, and packets that passed validation and
  whose body has the length the header announces.
\<close>

fun session_job :: "GameJob \<Rightarrow> bool" where
  "session_job (PacketJob s h b) \<longleftrightarrow>
     4 \<le> unat (h_size h) \<and> unat (h_size h) \<le> 4096 \<and> length b = unat (h_size h) - 4 \<and> IsKnownPacketId (h_id h)"
| "session_job (DisconnectJob s) \<longleftrightarrow> True"
| "session_job (ConnectJob s) \<longleftrightarrow> False"
| "session_job ShutdownJob \<longleftrightarrow> False"

text \<open>A session that is closed raises its disconnect job exactly then, and no other does.\<close>

definition is_open :: "sid \<Rightarrow> io \<Rightarrow> bool" where
  "is_open s w \<longleftrightarrow> (\<exists>x. sessions w s = Some x \<and> s_state x = Connected)"

lemma is_open_simps [simp]:
  "is_open t (put_session s x w) = (if t = s then s_state x = Connected else is_open t w)"
  "is_open t (add_call c w) = is_open t w" "is_open t (push_job j w) = is_open t w"
  by (auto simp: is_open_def)

lemma is_open_session: "sessions w s = Some x \<Longrightarrow> is_open s w \<longleftrightarrow> s_state x = Connected"
  by (simp add: is_open_def)

lemma is_open_same: "sessions w s = Some x \<Longrightarrow> s_state x' = s_state x \<Longrightarrow> is_open t (put_session s x' w) = is_open t w"
  by (auto simp: is_open_session)

definition close_jobs :: "io \<Rightarrow> io \<Rightarrow> GameJob list \<Rightarrow> bool" where
  "close_jobs w w' js \<longleftrightarrow> list_all session_job js \<and>
     (\<forall>s. count_list js (DisconnectJob s) = (if is_open s w \<and> \<not> is_open s w' then 1 else 0))"

lemma close_jobsD: "close_jobs w w' js \<Longrightarrow> list_all session_job js"
  by (simp add: close_jobs_def)

lemma close_jobs_trans:
  assumes "close_jobs u v j1" and "close_jobs v w j2"
    and "\<And>s. is_open s v \<Longrightarrow> is_open s u" and "\<And>s. is_open s w \<Longrightarrow> is_open s v"
  shows "close_jobs u w (j1 @ j2)"
  unfolding close_jobs_def
proof (intro conjI allI)
  show "list_all session_job (j1 @ j2)" using assms(1,2) close_jobsD by auto
  fix s
  have "count_list j1 (DisconnectJob s) = (if is_open s u \<and> \<not> is_open s v then 1 else 0)"
    "count_list j2 (DisconnectJob s) = (if is_open s v \<and> \<not> is_open s w then 1 else 0)"
    using assms(1,2) by (simp_all add: close_jobs_def)
  with assms(3,4) [of s] show "count_list (j1 @ j2) (DisconnectJob s) = (if is_open s u \<and> \<not> is_open s w then 1 else 0)"
    by (cases "is_open s u"; cases "is_open s v"; cases "is_open s w") simp_all
qed

lemma close_jobs_Nil: "(\<And>s. is_open s w' = is_open s w) \<Longrightarrow> close_jobs w w' []"
  by (simp add: close_jobs_def)

definition session_frame :: "session \<Rightarrow> session \<Rightarrow> bool" where
  "session_frame x x' \<longleftrightarrow> s_recvRing x' = s_recvRing x \<and> s_recvBuf x' = s_recvBuf x \<and>
     s_gameCleanupDone x' = s_gameCleanupDone x \<and> s_destroying x' = s_destroying x \<and>
     (s_state x \<noteq> Connected \<longrightarrow> s_state x' \<noteq> Connected) \<and> (session_ok x \<longrightarrow> session_ok x')"

definition io_frame :: "io \<Rightarrow> io \<Rightarrow> bool" where
  "io_frame w w' \<longleftrightarrow> srvState w' = srvState w \<and> sysResult w' = sysResult w \<and>
     (\<exists>js. jobQueue w' = jobQueue w @ js \<and> close_jobs w w' js) \<and>
     (\<exists>cs. trace w' = trace w @ cs) \<and>
     (\<forall>s. rel_option session_frame (sessions w s) (sessions w' s)) \<and>
     (\<forall>s. sessions w s = None \<longrightarrow> started s w' = started s w) \<and>
     (\<forall>s x x'. sessions w s = Some x \<longrightarrow> sessions w' s = Some x' \<longrightarrow>
        s_pendingIO x' - of_nat (started s w') = s_pendingIO x - of_nat (started s w))"

lemma session_frame_refl [simp]: "session_frame x x"
  by (simp add: session_frame_def)

lemma session_frame_trans: "session_frame x y \<Longrightarrow> session_frame y z \<Longrightarrow> session_frame x z"
  by (simp add: session_frame_def)

lemma io_frame_refl [simp, intro]: "io_frame w w"
  by (auto simp: io_frame_def option.rel_refl intro: close_jobs_Nil)

lemma io_frameD:
  assumes "io_frame w w'"
  shows "srvState w' = srvState w" and "sysResult w' = sysResult w"
    and "sessions w s = None \<longleftrightarrow> sessions w' s = None"
    and "sessions w s = Some x \<Longrightarrow> \<exists>x'. sessions w' s = Some x' \<and> session_frame x x'"
    and "\<exists>js. jobQueue w' = jobQueue w @ js \<and> list_all session_job js"
    and "\<exists>cs. trace w' = trace w @ cs"
    and "\<exists>js. jobQueue w' = jobQueue w @ js \<and> close_jobs w w' js"
    and "is_open s w' \<Longrightarrow> is_open s w"
    and "sessions w s = None \<Longrightarrow> started s w' = started s w"
proof -
  have r: "rel_option session_frame (sessions w s) (sessions w' s)"
    using assms by (simp add: io_frame_def)
  from r show "sessions w s = None \<longleftrightarrow> sessions w' s = None"
    by (cases "sessions w s"; cases "sessions w' s") auto
  from r show "sessions w s = Some x \<Longrightarrow> \<exists>x'. sessions w' s = Some x' \<and> session_frame x x'"
    by (cases "sessions w' s") auto
  from r show "is_open s w' \<Longrightarrow> is_open s w"
    by (cases "sessions w s") (auto simp: is_open_def session_frame_def)
  show "\<exists>js. jobQueue w' = jobQueue w @ js \<and> list_all session_job js"
    using assms close_jobsD unfolding io_frame_def by blast
qed (use assms in \<open>simp_all add: io_frame_def\<close>)

lemma io_frame_trans:
  assumes a: "io_frame u v" and b: "io_frame v w"
  shows "io_frame u w"
proof -
  have "rel_option session_frame (sessions u s) (sessions w s)" for s
    using io_frameD(3,4) [OF a, of s] io_frameD(3,4) [OF b, of s]
    by (cases "sessions u s"; cases "sessions v s"; cases "sessions w s")
      (auto dest: session_frame_trans)
  moreover have "s_pendingIO x' - of_nat (started s w) = s_pendingIO x - of_nat (started s u)"
    if x: "sessions u s = Some x" and x': "sessions w s = Some x'" for s x x'
  proof -
    obtain y where "sessions v s = Some y" using io_frameD(4) [OF a x] by blast
    with a b x x' show ?thesis unfolding io_frame_def by metis
  qed
  moreover obtain j1 j2 where j: "jobQueue v = jobQueue u @ j1" "jobQueue w = jobQueue v @ j2"
    and "close_jobs u v j1" "close_jobs v w j2"
    using io_frameD(7) [OF a] io_frameD(7) [OF b] by blast
  then have "close_jobs u w (j1 @ j2)"
    using io_frameD(8) [OF a] io_frameD(8) [OF b] by (auto intro: close_jobs_trans)
  then have "\<exists>js. jobQueue w = jobQueue u @ js \<and> close_jobs u w js" using j by auto
  moreover obtain c1 c2 where "trace v = trace u @ c1" "trace w = trace v @ c2"
    using io_frameD(6) [OF a] io_frameD(6) [OF b] by blast
  moreover have "started s w = started s u" if "sessions u s = None" for s
    using that io_frameD(9) [OF a, of s] io_frameD(9) [OF b, of s] io_frameD(3) [OF a, of s] by simp
  ultimately show ?thesis
    using io_frameD(1,2) [OF a] io_frameD(1,2) [OF b] by (simp add: io_frame_def)
qed

lemma io_frame_ok: "io_frame w w' \<Longrightarrow> io_ok w \<Longrightarrow> io_ok w'"
proof (unfold io_ok_def, intro allI impI)
  fix s x'
  assume f: "io_frame w w'" and ok: "\<forall>s x. sessions w s = Some x \<longrightarrow> session_ok x"
    and x': "sessions w' s = Some x'"
  obtain x where x: "sessions w s = Some x" using io_frameD(3) [OF f, of s] x' by (cases "sessions w s") auto
  with io_frameD(4) [OF f x] ok x' show "session_ok x'" by (auto simp: session_frame_def)
qed

text \<open>How an operation meets the contract: it rewrites one session, makes calls, pushes jobs.\<close>

lemma io_frame_put:
  assumes "sessions w s = Some x" and "session_frame x x'" and "s_pendingIO x' = s_pendingIO x"
    and "s_state x' = s_state x"
  shows "io_frame w (put_session s x' w)"
  using assms is_open_same [OF assms(1)] by (auto simp: io_frame_def option.rel_refl simp del: is_open_simps(1) intro!: close_jobs_Nil)

lemma io_frame_call:
  assumes "\<And>s. \<not> io_of s c"
  shows "io_frame w (add_call c w)"
  using assms by (auto simp: io_frame_def option.rel_refl is_open_same simp del: is_open_simps(1) intro!: close_jobs_Nil)

lemma io_frame_job: "session_job (PacketJob s h b) \<Longrightarrow> io_frame w (push_job (PacketJob s h b) w)"
  by (auto simp: io_frame_def option.rel_refl close_jobs_def)

text \<open>Posting an operation and counting it, or undoing the count when the call failed.\<close>

lemma io_frame_post:
  assumes "sessions w s = Some x" and "session_frame x x'" and "\<And>t. io_of t c \<longleftrightarrow> t = s"
    and "s_pendingIO x' = s_pendingIO x + (if syscall_result w = IoStarted then 1 else 0)"
    and "s_state x' = s_state x"
  shows "io_frame w (add_call c (put_session s x' w))"
proof -
  have "syscall_result (put_session s x' w) = syscall_result w"
    by (simp add: syscall_result_def)
  with assms is_open_same [OF assms(1)] show ?thesis by (auto simp: io_frame_def option.rel_refl simp del: is_open_simps(1) intro!: close_jobs_Nil)
qed

section \<open>Closing\<close>

lemma Close_won:
  assumes "sessions w s = Some x" and "\<not> s_closeIssued x"
  shows "Close s w = Some (put_session s (x\<lparr>s_closeIssued := True, s_sock := None, s_state := Closed\<rparr>)
    (case s_sock x of None \<Rightarrow> w | Some k \<Rightarrow> add_call (CloseSocket k) w))"
  using assms by (simp add: Close_def)

text \<open>What \<open>RequestClose\<close> does to an open session, in one equation.\<close>

definition closed_session :: "session \<Rightarrow> session" where
  "closed_session x = x\<lparr>s_closeIssued := True, s_sock := None, s_state := Closed\<rparr>"

lemma RequestClose_open:
  assumes "sessions w s = Some x" and "session_ok x" and "s_state x = Connected"
  shows "\<exists>k. s_sock x = Some k \<and> RequestClose s w =
    Some (push_job (DisconnectJob s) (add_call (CloseSocket k) (put_session s (closed_session x) w)))"
proof -
  have ci: "\<not> s_closeIssued x" and "s_sock x \<noteq> None"
    using assms by (auto simp: session_ok_def split: if_splits)
  then obtain k where k: "s_sock x = Some k" by blast
  let ?w = "put_session s (x\<lparr>s_state := Closing\<rparr>) w"
  have "Close s ?w = Some (put_session s (closed_session x) (add_call (CloseSocket k) ?w))"
    using ci k by (simp add: Close_def closed_session_def)
  moreover have "put_session s (closed_session x) (add_call (CloseSocket k) ?w)
      = add_call (CloseSocket k) (put_session s (closed_session x) w)"
    by (simp add: put_session_def add_call_def)
  ultimately show ?thesis
    using assms k by (simp add: RequestClose_def job_defs)
qed

lemma RequestClose_closed:
  assumes "sessions w s = Some x" and "s_state x \<noteq> Connected"
  shows "RequestClose s w = Some w"
  using assms by (simp add: RequestClose_def)

lemma closed_session_frame: "session_ok x \<Longrightarrow> session_frame x (closed_session x)"
  by (simp add: session_frame_def closed_session_def session_ok_def)

lemma RequestClose_frame:
  assumes "sessions w s = Some x" and "session_ok x"
  shows "\<exists>w'. RequestClose s w = Some w' \<and> io_frame w w'"
proof (cases "s_state x = Connected")
  case True
  obtain k where rc: "RequestClose s w =
      Some (push_job (DisconnectJob s) (add_call (CloseSocket k) (put_session s (closed_session x) w)))"
    using RequestClose_open [OF assms True] by blast
  have "close_jobs w (push_job (DisconnectJob s) (add_call (CloseSocket k) (put_session s (closed_session x) w))) [DisconnectJob s]"
    using assms True by (auto simp: close_jobs_def is_open_session closed_session_def)
  then have "io_frame w (push_job (DisconnectJob s) (add_call (CloseSocket k) (put_session s (closed_session x) w)))"
    using assms closed_session_frame [OF assms(2)] by (auto simp: io_frame_def option.rel_refl closed_session_def)
  with rc show ?thesis by blast
next
  case False
  then show ?thesis using RequestClose_closed [OF assms(1)] by auto
qed


lemma RequestClose_closes:
  assumes "sessions w s = Some x" and "session_ok x" and "RequestClose s w = Some w'"
  shows "\<exists>x'. sessions w' s = Some x' \<and> s_state x' \<noteq> Connected"
proof (cases "s_state x = Connected")
  case True
  with RequestClose_open [OF assms(1,2) True] assms(3) show ?thesis by (auto simp: closed_session_def)
next
  case False
  with RequestClose_closed [OF assms(1) False] assms show ?thesis by auto
qed

section \<open>Posting\<close>

lemma session_frame_pending [simp]: "session_frame x (x\<lparr>s_pendingIO := n\<rparr>)"
  by (simp add: session_frame_def session_ok_def)

text \<open>
  The shape shared by \<open>PostRecv\<close> and \<open>PostSend\<close>: count the operation, call the operating
  system, and on failure take the count back and close.
\<close>

lemma post_call_frame:
  assumes x: "sessions w s = Some x" and ok: "session_ok x"
    and f1: "session_frame x x1" and p1: "s_pendingIO x1 = s_pendingIO x + 1"
    and f2: "session_frame x1 x2" and p2: "s_pendingIO x2 = s_pendingIO x"
    and st: "s_state x1 = s_state x" "s_state x2 = s_state x" and c: "\<And>t. io_of t c \<longleftrightarrow> t = s"
  shows "\<exists>w'. (case syscall_result w of
      IoStarted \<Rightarrow> Some (add_call c (put_session s x1 w))
    | IoFailed \<Rightarrow> RequestClose s (put_session s x2 (add_call c (put_session s x1 w)))) = Some w' \<and> io_frame w w'"
proof (cases "syscall_result w")
  case IoStarted
  then show ?thesis using io_frame_post [OF x f1 c] p1 st by simp
next
  case IoFailed
  let ?w = "put_session s x2 (add_call c (put_session s x1 w))"
  have f12: "session_frame x x2" using f1 f2 by (rule session_frame_trans)
  have eq: "?w = add_call c (put_session s x2 w)"
    by (simp add: put_session_def add_call_def)
  have fr: "io_frame w ?w"
    unfolding eq using p2 IoFailed st by (intro io_frame_post [OF x f12 c]) simp_all
  have "sessions ?w s = Some x2" "session_ok x2"
    using f12 ok by (simp_all add: session_frame_def)
  from RequestClose_frame [OF this] obtain w' where "RequestClose s ?w = Some w'" "io_frame ?w w'" by blast
  with fr IoFailed show ?thesis by (auto intro: io_frame_trans)
qed

lemma PostSend_frame:
  assumes x: "sessions w s = Some x" and ok: "session_ok x"
    and d: "\<And>d. data = Some d \<Longrightarrow> nat len \<le> length d"
  shows "\<exists>w'. PostSend s data len w = Some w' \<and> io_frame w w'"
proof (cases "s_state x = Closed \<or> data = None \<or> len \<le> 0 \<or> len > uint MAX_PACKET_SIZE")
  case True
  then show ?thesis using x by (auto simp: PostSend_def)
next
  case False
  then obtain b where b: "data = Some b" by auto
  have rd: "read_bytes b (nat len) = Some (take (nat len) b)" using d [OF b] by simp
  show ?thesis
    using post_call_frame [OF x ok session_frame_pending _ session_frame_pending,
        of "s_pendingIO x + 1" "s_pendingIO x" "WSASend s (take (nat len) b)"] False x
    by (simp add: PostSend_def b rd Let_def cong: io_result.case_cong)
qed

lemma PostRecv_frame:
  assumes x: "sessions w s = Some x" and ok: "session_ok x"
  shows "\<exists>w'. PostRecv s w = Some w' \<and> io_frame w w'"
proof (cases "s_state x \<noteq> Connected \<or> s_recvPosted x")
  case True
  then show ?thesis using x by (auto simp: PostRecv_def)
next
  case False
  have fr: "session_frame y (y\<lparr>s_recvPosted := b, s_pendingIO := n\<rparr>)" for y b n
    by (simp add: session_frame_def session_ok_def)
  show ?thesis
    using post_call_frame [where c = "WSARecv s", OF x ok fr [where b = True and n = "s_pendingIO x + 1"] _
        fr [where b = False and n = "s_pendingIO x"]] False x
    by (simp add: PostRecv_def Let_def cong: io_result.case_cong)
qed

lemma PostRecv_posted:
  assumes "sessions w s = Some x" and "s_state x = Connected" and "\<not> s_recvPosted x"
    and "syscall_result w = IoStarted"
  shows "PostRecv s w = Some (add_call (WSARecv s)
    (put_session s (x\<lparr>s_recvPosted := True, s_pendingIO := s_pendingIO x + 1\<rparr>) w))"
  using assms by (simp add: PostRecv_def Let_def)

section \<open>Sending a packet\<close>

lemma packet_size_bounds:
  fixes n :: u16
  defines "p \<equiv> ucast HEADER_SIZE + ucast n :: u32"
  shows "unat p = 4 + unat n"
    and "unat n \<le> 4092 \<Longrightarrow> unat (ucast p :: u16) = 4 + unat n"
proof -
  have "4 + unat n < 4294967296" using unat_u16_less [of n] by linarith
  then show p: "unat p = 4 + unat n"
    by (simp add: p_def HEADER_SIZE_def unat_word_ariths)
  show "unat (ucast p :: u16) = 4 + unat n" if "unat n \<le> 4092"
    using that p by (simp add: unsigned_ucast_eq take_bit_nat_eq_self)
qed

definition send_allowed :: "sid \<Rightarrow> u16 \<Rightarrow> io \<Rightarrow> bool" where
  "send_allowed s pid w \<longleftrightarrow> (case sessions w s of None \<Rightarrow> False
     | Some x \<Rightarrow> s_state x = Connected \<and> (pid = pkt PKT_SC_SHUTDOWN \<or> \<not> IsShuttingDown w))"

text \<open>The packet a well-formed call hands to the operating system.\<close>

definition packet_bytes :: "u16 \<Rightarrow> bytes \<Rightarrow> bytes" where
  "packet_bytes pid data = header_bytes \<lparr>h_size = of_nat (4 + length data), h_id = pid\<rparr> @ data"

lemma SendPacket_unfold:
  assumes x: "sessions w s = Some x" and n: "unat n \<le> 4092" "unat n \<le> length d"
  shows "SendPacket s pid (Some d) n w =
    (if pid \<noteq> pkt PKT_SC_SHUTDOWN \<and> (s_state x \<noteq> Connected \<or> IsShuttingDown w) then Some w
     else PostSend s (Some (packet_bytes pid (take (unat n) d))) (int (4 + unat n)) w)"
proof -
  let ?p = "ucast HEADER_SIZE + ucast n :: u32"
  have guards: "\<not> (?p < ucast HEADER_SIZE \<or> ?p > ucast MAX_PACKET_SIZE)"
    using n packet_size_bounds(1) [of n]
    by (simp add: word_less_nat_alt HEADER_SIZE_def MAX_PACKET_SIZE_def)
  have "(of_nat (4 + unat n) :: u16) = ucast ?p"
    by (simp flip: packet_size_bounds(2) [OF n(1)])
  then have sz: "of_nat (4 + length (take (unat n) d)) = (ucast ?p :: u16)"
    using n by simp
  show ?thesis
  proof (cases "n = 0")
    case True
    with x guards show ?thesis by (simp add: SendPacket_def packet_bytes_def HEADER_SIZE_def)
  next
    case False
    then have "n > 0" by (simp add: word_gt_0)
    with x guards n sz show ?thesis
      by (simp add: SendPacket_def packet_bytes_def)
  qed
qed


lemma SendPacket_too_big:
  assumes x: "sessions w s = Some x" and n: "4092 < unat n"
  shows "SendPacket s pid data n w = Some w"
proof -
  have "ucast HEADER_SIZE + ucast n > (ucast MAX_PACKET_SIZE :: u32)"
    using n packet_size_bounds(1) [of n]
    by (simp add: word_less_nat_alt HEADER_SIZE_def MAX_PACKET_SIZE_def)
  then show ?thesis using x by (simp add: SendPacket_def Let_def)
qed

lemma SendPacket_empty:
  "sessions w s = Some x \<Longrightarrow> SendPacket s pid None 0 w = SendPacket s pid (Some []) 0 w"
  by (simp add: SendPacket_def Let_def)

text \<open>A send whose buffer holds the announced bytes never fails and obeys the contract.\<close>

lemma SendPacket_frame:
  assumes x: "sessions w s = Some x" and ok: "session_ok x"
    and d: "data = Some d \<and> unat n \<le> length d \<or> data = None \<and> n = 0"
  shows "\<exists>w'. SendPacket s pid data n w = Some w' \<and> io_frame w w'"
proof (cases "unat n \<le> 4092")
  case True
  from d obtain e where e: "SendPacket s pid data n w = SendPacket s pid (Some e) n w" "unat n \<le> length e"
    using SendPacket_empty [OF x, of pid] by force
  have "length (packet_bytes pid (take (unat n) e)) = 4 + unat n"
    using e(2) by (simp add: packet_bytes_def)
  then have "\<exists>w'. PostSend s (Some (packet_bytes pid (take (unat n) e))) (int (4 + unat n)) w = Some w' \<and> io_frame w w'"
    by (intro PostSend_frame [OF x ok]) auto
  then show ?thesis
    unfolding e(1) SendPacket_unfold [OF x True e(2)] by auto
next
  case False
  then show ?thesis using SendPacket_too_big [OF x] by auto
qed

lemma PostSend_sent:
  assumes "sessions w s = Some x" and "s_state x = Connected" and "syscall_result w = IoStarted"
    and "0 < length d" and "length d \<le> 4096"
  shows "PostSend s (Some d) (int (length d)) w =
    Some (add_call (WSASend s d) (put_session s (x\<lparr>s_pendingIO := s_pendingIO x + 1\<rparr>) w))"
  using assms by (simp add: PostSend_def MAX_PACKET_SIZE_def)

lemma length_packet_bytes [simp]: "length (packet_bytes pid d) = 4 + length d"
  by (simp add: packet_bytes_def)

text \<open>When sending is allowed and the call is accepted, exactly one packet goes out.\<close>

lemma SendPacket_sent:
  assumes "send_allowed s pid w" and "syscall_result w = IoStarted" and "length d \<le> 4092"
    and n: "n = of_nat (length d)"
  shows "\<exists>x. sessions w s = Some x \<and> SendPacket s pid (Some d) n w =
    Some (add_call (WSASend s (packet_bytes pid d)) (put_session s (x\<lparr>s_pendingIO := s_pendingIO x + 1\<rparr>) w))"
proof -
  obtain x where x: "sessions w s = Some x" "s_state x = Connected" "pid = pkt PKT_SC_SHUTDOWN \<or> \<not> IsShuttingDown w"
    using assms(1) by (auto simp: send_allowed_def split: option.splits)
  have un: "unat n = length d"
    using assms(3) n by (simp add: unsigned_of_nat take_bit_nat_eq_self)
  have "SendPacket s pid (Some d) n w = PostSend s (Some (packet_bytes pid d)) (int (4 + length d)) w"
    using x un assms(3) by (subst SendPacket_unfold [OF x(1)]) auto
  also have "int (4 + length d) = int (length (packet_bytes pid d))" by simp
  also have "PostSend s (Some (packet_bytes pid d)) (int (length (packet_bytes pid d))) w =
      Some (add_call (WSASend s (packet_bytes pid d)) (put_session s (x\<lparr>s_pendingIO := s_pendingIO x + 1\<rparr>) w))"
    using x assms by (intro PostSend_sent) auto
  finally show ?thesis using x(1) by blast
qed

text \<open>An empty packet and then a close: the same calls and one job whether or not the send is accepted.\<close>

lemma send_then_close:
  assumes x: "sessions w s = Some x" and ok: "session_ok x" and st: "s_state x = Connected" and al: "send_allowed s pid w"
  shows "\<exists>w1 w2 x' k. s_sock x = Some k \<and> SendPacket s pid None 0 w = Some w1 \<and> RequestClose s w1 = Some w2 \<and>
    trace w2 = trace w @ [WSASend s (packet_bytes pid []), CloseSocket k] \<and> jobQueue w2 = jobQueue w @ [DisconnectJob s] \<and>
    sysResult w2 = sysResult w \<and> srvState w2 = srvState w \<and> (\<forall>t. t \<noteq> s \<longrightarrow> sessions w2 t = sessions w t) \<and>
    sessions w2 s = Some x' \<and> s_state x' = Closed"
proof (cases "syscall_result w")
  case IoStarted
  let ?x = "x\<lparr>s_pendingIO := s_pendingIO x + 1\<rparr>"
  let ?w1 = "add_call (WSASend s (packet_bytes pid [])) (put_session s ?x w)"
  have sp: "SendPacket s pid None 0 w = Some ?w1"
    using SendPacket_sent [OF al IoStarted, of "[]" 0] x by (simp add: SendPacket_empty [OF x])
  have "sessions ?w1 s = Some ?x" "session_ok ?x" "s_state ?x = Connected" using ok st by simp_all
  from RequestClose_open [OF this] obtain k where "s_sock x = Some k" "RequestClose s ?w1 =
    Some (push_job (DisconnectJob s) (add_call (CloseSocket k) (put_session s (closed_session ?x) ?w1)))" by auto
  with sp show ?thesis by (auto simp: closed_session_def)
next
  case IoFailed
  let ?w = "put_session s x (add_call (WSASend s (packet_bytes pid [])) (put_session s (x\<lparr>s_pendingIO := s_pendingIO x + 1\<rparr>) w))"
  have "SendPacket s pid None 0 w = PostSend s (Some (packet_bytes pid [])) 4 w"
    using al x unfolding SendPacket_empty [OF x] by (subst SendPacket_unfold [OF x]) (auto simp: send_allowed_def)
  then have e: "SendPacket s pid None 0 w = RequestClose s ?w"
    using IoFailed x st by (simp add: PostSend_def Let_def MAX_PACKET_SIZE_def)
  have "sessions ?w s = Some x" by simp
  from RequestClose_open [OF this ok st] obtain k where k: "s_sock x = Some k" "RequestClose s ?w =
    Some (push_job (DisconnectJob s) (add_call (CloseSocket k) (put_session s (closed_session x) ?w)))" (is "_ = Some ?w2") by auto
  have "RequestClose s ?w2 = Some ?w2"
    by (rule RequestClose_closed [where x = "closed_session x"]) (simp_all add: closed_session_def)
  with e k show ?thesis by (auto simp: closed_session_def)
qed

text \<open>After a session closed, or while the server shuts down, nothing but the shutdown notice is sent.\<close>

lemma SendPacket_refused:
  assumes "sessions w s = Some x" and "pid \<noteq> pkt PKT_SC_SHUTDOWN"
    and "s_state x \<noteq> Connected \<or> IsShuttingDown w"
  shows "SendPacket s pid data n w = Some w"
  using assms by (simp add: SendPacket_def)

section \<open>Completions\<close>

lemma OnSendComplete_total:
  assumes x: "sessions w s = Some x" and ok: "session_ok x"
  shows "\<exists>w'. OnSendComplete s n success w = Some w' \<and>
    io_frame (put_session s (x\<lparr>s_pendingIO := s_pendingIO x - 1\<rparr>) w) w'"
proof -
  let ?w = "put_session s (x\<lparr>s_pendingIO := s_pendingIO x - 1\<rparr>) w"
  have "sessions ?w s = Some (x\<lparr>s_pendingIO := s_pendingIO x - 1\<rparr>)" by simp
  moreover have "session_ok (x\<lparr>s_pendingIO := s_pendingIO x - 1\<rparr>)" using ok by (simp add: session_ok_def)
  ultimately obtain w' where "RequestClose s ?w = Some w'" "io_frame ?w w'"
    using RequestClose_frame by blast
  then show ?thesis using x by (auto simp: OnSendComplete_def Let_def)
qed

section \<open>Validation\<close>

text \<open>A known, valid packet is queued with a copy of its body.\<close>

lemma EnqueuePacketJob_queued:
  assumes "\<not> IsShuttingDown w" and "IsValid p" and "length (body p) = unat (h_size (header p)) - 4"
  shows "EnqueuePacketJob s p w = Some (push_job (PacketJob s (header p) (body p)) w)"
proof -
  have "body_size (header p) = int (length (body p))"
    using assms(2,3) by (simp add: body_size_eq IsValid_iff of_nat_diff)
  with assms(1) show ?thesis by (auto simp: EnqueuePacketJob_def Let_def)
qed

lemma ProcessPacket_queued:
  assumes "sessions w s = Some x" and "s_state x \<noteq> Closing" and "\<not> IsShuttingDown w"
    and "IsValid p" and "IsKnownPacketId (h_id (header p))" and "length (body p) = unat (h_size (header p)) - 4"
  shows "ProcessPacket s p w = Some (push_job (PacketJob s (header p) (body p)) w)"
  using assms by (simp add: ProcessPacket_def EnqueuePacketJob_queued)

lemma ProcessPacket_kick:
  assumes "sessions w s = Some x" and "s_state x \<noteq> Closing" and "\<not> IsShuttingDown w"
    and "\<not> IsValid p \<or> \<not> IsKnownPacketId (h_id (header p))"
  shows "ProcessPacket s p w = do { w1 \<leftarrow> SendPacket s (pkt PKT_SC_KICK) None 0 w; RequestClose s w1 }"
  using assms by (auto simp: ProcessPacket_def)

lemma ProcessPacket_frame:
  assumes x: "sessions w s = Some x" and ok: "session_ok x"
    and b: "length (body p) = unat (h_size (header p)) - 4"
  shows "\<exists>w'. ProcessPacket s p w = Some w' \<and> io_frame w w'"
proof (cases "IsShuttingDown w \<or> s_state x = Closing")
  case True
  then show ?thesis using x by (auto simp: ProcessPacket_def)
next
  case open_: False
  show ?thesis
  proof (cases "IsValid p \<and> IsKnownPacketId (h_id (header p))")
    case True
    with open_ x b have "ProcessPacket s p w = Some (push_job (PacketJob s (header p) (body p)) w)"
      by (intro ProcessPacket_queued) auto
    moreover have "session_job (PacketJob s (header p) (body p))"
      using True b by (simp add: IsValid_iff)
    ultimately show ?thesis by (auto intro: io_frame_job)
  next
    case False
    obtain w1 where w1: "SendPacket s (pkt PKT_SC_KICK) None 0 w = Some w1" "io_frame w w1"
      using SendPacket_frame [OF x ok, of None _ 0] by auto
    obtain x1 where "sessions w1 s = Some x1" "session_ok x1"
      using io_frameD(4) [OF w1(2) x] ok by (auto simp: session_frame_def)
    then obtain w2 where "RequestClose s w1 = Some w2" "io_frame w1 w2" using RequestClose_frame by blast
    with w1 show ?thesis
      using open_ False x by (auto simp: ProcessPacket_kick intro: io_frame_trans)
  qed
qed

end
