(* ===== verification/Framing.thy ===== *)
theory Framing
  imports Session_Facts
begin

text \<open>
  The receive path of a session: \<open>Session::OnRecvComplete\<close> with its framing loop. The loop is
  modelled one iteration at a time (\<open>recv_iter\<close>), every exit of the body included, and then
  as a recursion whose termination is proved: each iteration that continues consumes at
  least a header.

  Its specification is the pure function \<open>frames\<close>, which cuts a byte stream into packets.
  The refinement theorem says that the loop over the ring is \<open>frames\<close> over the buffered
  bytes followed by \<open>ProcessPacket\<close> on each packet in order, on every path.
\<close>

section \<open>The loop\<close>

text \<open>In-place mutation of the session's ring.\<close>

definition upd_ring :: "sid \<Rightarrow> ring_buffer \<Rightarrow> io \<Rightarrow> io" where
  "upd_ring s r w = w\<lparr>sessions := (sessions w)(s := map_option (\<lambda>x. x\<lparr>s_recvRing := r\<rparr>) (sessions w s))\<rparr>"

datatype loop_exit = Continue | Break | Return

definition recv_iter :: "sid \<Rightarrow> io \<Rightarrow> (loop_exit \<times> io) option" where
  "recv_iter s w = do {
     x \<leftarrow> sessions w s;
     let r = s_recvRing x;
     if \<not> rb_Has r HEADER_SIZE then Some (Break, w)
     else do {
       (ok, hb) \<leftarrow> rb_Peek r (replicate 4 0) 4;
       if \<not> ok then Some (Break, w)
       else let h = header_of hb in
         if ucast (h_size h) < HEADER_SIZE \<or> h_size h > MAX_PACKET_SIZE then do {
           w' \<leftarrow> RequestClose s w;
           Some (Return, w')
         }
         else if \<not> rb_Has r (ucast (h_size h)) then Some (Break, w)
         else do {
           let r1 = rb_Skip r HEADER_SIZE;
           let bodySize = body_size h;
           let w1 = upd_ring s r1 w;
           (ok, bd) \<leftarrow> (if bodySize > 0 then rb_Peek r1 (replicate (nat bodySize) 0) bodySize else Some (True, []));
           if \<not> ok then do {
             w' \<leftarrow> RequestClose s w1;
             Some (Return, w')
           }
           else do {
             w2 \<leftarrow> ProcessPacket s \<lparr>header = h, body = bd\<rparr> w1;
             x2 \<leftarrow> sessions w2 s;
             Some (Continue, upd_ring s (rb_Skip (s_recvRing x2) (size_of_int bodySize)) w2)
           }
         }
     }
   }"

text \<open>What the loop's termination rests on: \<open>ProcessPacket\<close> does not touch any ring.\<close>

definition ring_of :: "sid \<Rightarrow> io \<Rightarrow> ring_buffer option" where
  "ring_of s w = map_option s_recvRing (sessions w s)"

lemma upd_ring_fields [simp]:
  "srvState (upd_ring s r w) = srvState w" "jobQueue (upd_ring s r w) = jobQueue w"
  "trace (upd_ring s r w) = trace w" "sysResult (upd_ring s r w) = sysResult w"
  "sessions (upd_ring s r w) s = map_option (\<lambda>x. x\<lparr>s_recvRing := r\<rparr>) (sessions w s)"
  "t \<noteq> s \<Longrightarrow> sessions (upd_ring s r w) t = sessions w t"
  "IsShuttingDown (upd_ring s r w) = IsShuttingDown w"
  "syscall_result (upd_ring s r w) = syscall_result w"
  by (simp_all add: upd_ring_def IsShuttingDown_def syscall_result_def)

lemma upd_ring_twice [simp]: "upd_ring s r (upd_ring s r' w) = upd_ring s r w"
  by (simp add: upd_ring_def option.map_comp comp_def)

lemma upd_ring_commutes [simp]:
  "upd_ring s r (push_job j w) = push_job j (upd_ring s r w)"
  "upd_ring s r (add_call c w) = add_call c (upd_ring s r w)"
  "upd_ring s r (put_session s x w) = put_session s (x\<lparr>s_recvRing := r\<rparr>) w"
  "put_session s x (upd_ring s r w) = put_session s x w"
  by (simp_all add: upd_ring_def push_job_def add_call_def put_session_def)

lemma put_session_norm [simp]:
  "put_session s x (put_session s y w) = put_session s x w"
  "put_session s x (add_call c w) = add_call c (put_session s x w)"
  "put_session s x (push_job j w) = push_job j (put_session s x w)"
  by (simp_all add: push_job_def add_call_def put_session_def)

lemma ring_update_last [simp]:
  "x\<lparr>s_recvRing := r, s_state := st\<rparr> = x\<lparr>s_state := st, s_recvRing := r\<rparr>"
  "x\<lparr>s_recvRing := r, s_pendingIO := n\<rparr> = x\<lparr>s_pendingIO := n, s_recvRing := r\<rparr>"
  "x\<lparr>s_recvRing := r, s_closeIssued := c\<rparr> = x\<lparr>s_closeIssued := c, s_recvRing := r\<rparr>"
  "x\<lparr>s_recvRing := r, s_sock := k\<rparr> = x\<lparr>s_sock := k, s_recvRing := r\<rparr>"
  by simp_all

text \<open>
  The operations between the two ring accesses do not read the ring, so they commute with
  an update of it.
\<close>

definition ring_blind :: "sid \<Rightarrow> (io \<Rightarrow> io option) \<Rightarrow> bool" where
  "ring_blind s f \<longleftrightarrow> (\<forall>r w. f (upd_ring s r w) = map_option (upd_ring s r) (f w))"

lemma ring_blindD: "ring_blind s f \<Longrightarrow> f (upd_ring s r w) = map_option (upd_ring s r) (f w)"
  by (simp add: ring_blind_def)

lemma RequestClose_blind: "ring_blind s (RequestClose s)"
proof (unfold ring_blind_def, intro allI)
  fix r w
  show "RequestClose s (upd_ring s r w) = map_option (upd_ring s r) (RequestClose s w)"
  proof (cases "sessions w s")
    case None
    then show ?thesis by (simp add: RequestClose_def)
  next
    case (Some x)
    then show ?thesis
      by (cases "s_closeIssued x"; cases "s_sock x") (simp_all add: RequestClose_def Close_def job_defs)
  qed
qed

lemma PostSend_blind: "ring_blind s (PostSend s data len)"
proof (unfold ring_blind_def, intro allI)
  fix r w
  show "PostSend s data len (upd_ring s r w) = map_option (upd_ring s r) (PostSend s data len w)"
  proof (cases "sessions w s")
    case None
    then show ?thesis by (simp add: PostSend_def)
  next
    case (Some x)
    show ?thesis
    proof (cases "s_state x = Closed \<or> data = None \<or> len \<le> 0 \<or> len > uint MAX_PACKET_SIZE")
      case True
      with Some show ?thesis by (auto simp: PostSend_def)
    next
      case False
      then obtain d where d: "data = Some d" by auto
      have rc: "RequestClose s (put_session s (y\<lparr>s_recvRing := r\<rparr>) v)
          = map_option (upd_ring s r) (RequestClose s (put_session s y v))" for y v
        using ring_blindD [OF RequestClose_blind, of s r "put_session s y v"] by simp
      show ?thesis
      proof (cases "read_bytes d (nat len)")
        case None
        with Some False d show ?thesis by (simp add: PostSend_def)
      next
        case (Some b)
        with \<open>sessions w s = Some x\<close> False d show ?thesis
          using rc [of "x\<lparr>s_pendingIO := s_pendingIO x\<rparr>" "add_call (WSASend s b) (put_session s (x\<lparr>s_pendingIO := s_pendingIO x + 1\<rparr>) w)"]
          by (cases "syscall_result w") (simp_all add: PostSend_def Let_def)
      qed
    qed
  qed
qed


lemma ring_blind_if: "ring_blind s f \<Longrightarrow> ring_blind s g \<Longrightarrow> ring_blind s (\<lambda>w. if b then f w else g w)"
  by (simp add: ring_blind_def)

lemma ring_blind_bind: "ring_blind s f \<Longrightarrow> ring_blind s g \<Longrightarrow> ring_blind s (\<lambda>w. f w \<bind> g)"
proof (unfold ring_blind_def, intro allI)
  fix r w
  assume "\<forall>r w. f (upd_ring s r w) = map_option (upd_ring s r) (f w)"
    and "\<forall>r w. g (upd_ring s r w) = map_option (upd_ring s r) (g w)"
  then show "f (upd_ring s r w) \<bind> g = map_option (upd_ring s r) (f w \<bind> g)"
    by (cases "f w") simp_all
qed

lemma SendPacket_blind: "ring_blind s (SendPacket s pid data n)"
proof (unfold ring_blind_def, intro allI)
  fix r w
  show "SendPacket s pid data n (upd_ring s r w) = map_option (upd_ring s r) (SendPacket s pid data n w)"
  proof (cases "sessions w s")
    case None
    then show ?thesis by (simp add: SendPacket_def)
  next
    case (Some x)
    let ?rd = "if n > 0 then read_bytes (the data) (unat n) else Some []"
    from Some show ?thesis
      by (cases ?rd) (simp_all add: SendPacket_def Let_def ring_blindD [OF PostSend_blind])
  qed
qed

lemma EnqueuePacketJob_blind: "ring_blind s (EnqueuePacketJob t p)"
proof (unfold ring_blind_def, intro allI)
  fix r w
  let ?rd = "if body_size (header p) > 0 then read_bytes (body p) (nat (body_size (header p))) else Some []"
  show "EnqueuePacketJob t p (upd_ring s r w) = map_option (upd_ring s r) (EnqueuePacketJob t p w)"
    by (cases ?rd) (simp_all add: EnqueuePacketJob_def Let_def)
qed

lemma ProcessPacket_blind: "ring_blind s (ProcessPacket s p)"
proof (unfold ring_blind_def, intro allI)
  fix r w
  have kick: "ring_blind s (\<lambda>w. SendPacket s (pkt PKT_SC_KICK) None 0 w \<bind> RequestClose s)"
    by (intro ring_blind_bind SendPacket_blind RequestClose_blind)
  show "ProcessPacket s p (upd_ring s r w) = map_option (upd_ring s r) (ProcessPacket s p w)"
    using ring_blindD [OF kick, of r w] ring_blindD [OF EnqueuePacketJob_blind [where t = s and p = p], of s r w]
    by (cases "sessions w s") (simp_all add: ProcessPacket_def del: pkt.simps)
qed

lemma upd_ring_same: "ring_of s w = Some r \<Longrightarrow> upd_ring s r w = w"
  by (auto simp: upd_ring_def ring_of_def fun_upd_idem)

lemma ring_blind_keeps:
  assumes "ring_blind s f" and "ring_of s w = Some r" and "f w = Some w'"
  shows "map_option (\<lambda>x. x\<lparr>s_recvRing := r\<rparr>) (sessions w' s) = sessions w' s"
proof -
  have "Some w' = map_option (upd_ring s r) (Some w')"
    using ring_blindD [OF assms(1), of r w] assms(2,3) by (simp add: upd_ring_same)
  then have "upd_ring s r w' = w'" by simp
  then show ?thesis by (metis upd_ring_fields(5))
qed

lemma ring_of_upd: "ring_of s (upd_ring s r w) = map_option (\<lambda>_. r) (sessions w s)"
  by (simp add: ring_of_def option.map_comp comp_def)

section \<open>Termination\<close>

text \<open>A continuing iteration has skipped a whole packet.\<close>

definition stored_bytes :: "sid \<Rightarrow> io \<Rightarrow> nat" where
  "stored_bytes s w = (case ring_of s w of None \<Rightarrow> 0 | Some r \<Rightarrow> unat (storedBytes r))"

lemma size_of_body: "size_of_int (body_size h) = ucast (h_size h) - 4"
  by (simp add: body_size_eq size_of_int_def)

lemma skip_packet_stored:
  assumes "ucast (h_size h) \<ge> HEADER_SIZE" and "rb_Has r (ucast (h_size h))"
  shows "unat (storedBytes (rb_Skip (rb_Skip r HEADER_SIZE) (size_of_int (body_size h)))) < unat (storedBytes r)"
proof -
  have "storedBytes (rb_Skip (rb_Skip r HEADER_SIZE) (size_of_int (body_size h))) = storedBytes r - ucast (h_size h)"
    by (simp add: rb_Skip_def size_of_body HEADER_SIZE_def)
  moreover have "unat (storedBytes r - ucast (h_size h)) = unat (storedBytes r) - unat (h_size h)"
    using assms(2) by (simp add: rb_Has_def unat_sub)
  moreover have "4 \<le> unat (h_size h)" "unat (h_size h) \<le> unat (storedBytes r)"
    using assms by (simp_all add: rb_Has_def word_le_nat_alt HEADER_SIZE_def)
  ultimately show ?thesis by simp
qed

lemma recv_iter_Continue:
  assumes "recv_iter s w = Some (Continue, w')"
  shows "stored_bytes s w' < stored_bytes s w"
proof -
  from assms obtain x where x: "sessions w s = Some x" by (auto simp: recv_iter_def bind_eq_Some_conv)
  let ?r = "s_recvRing x"
  from assms x obtain hb where g: "ucast (h_size (header_of hb)) \<ge> HEADER_SIZE" "rb_Has ?r (ucast (h_size (header_of hb)))"
    and "\<exists>bd w2 x2. ProcessPacket s \<lparr>header = header_of hb, body = bd\<rparr> (upd_ring s (rb_Skip ?r HEADER_SIZE) w) = Some w2 \<and>
      sessions w2 s = Some x2 \<and>
      w' = upd_ring s (rb_Skip (s_recvRing x2) (size_of_int (body_size (header_of hb)))) w2"
    by (auto simp: recv_iter_def bind_eq_Some_conv Let_def not_less split: if_splits)
  then obtain bd w2 x2 where
    pp: "ProcessPacket s \<lparr>header = header_of hb, body = bd\<rparr> (upd_ring s (rb_Skip ?r HEADER_SIZE) w) = Some w2"
    and x2: "sessions w2 s = Some x2"
    and w': "w' = upd_ring s (rb_Skip (s_recvRing x2) (size_of_int (body_size (header_of hb)))) w2"
    by blast
  have "ring_of s (upd_ring s (rb_Skip ?r HEADER_SIZE) w) = Some (rb_Skip ?r HEADER_SIZE)"
    using x by (simp add: ring_of_upd)
  from ring_blind_keeps [OF ProcessPacket_blind this pp] x2
  have "s_recvRing x2 = rb_Skip ?r HEADER_SIZE" by (metis option.inject option.simps(9) session.select_convs(9) session.surjective session.update_convs(9))
  then show ?thesis
    using skip_packet_stored [OF g] x x2 by (simp add: stored_bytes_def ring_of_def w')
qed

text \<open>The loop: the flag tells whether its body returned from the handler.\<close>

function recv_loop :: "sid \<Rightarrow> io \<Rightarrow> (bool \<times> io) option" where
  "recv_loop s w =
     (case recv_iter s w of
        None \<Rightarrow> None
      | Some (Continue, w') \<Rightarrow> recv_loop s w'
      | Some (Break, w') \<Rightarrow> Some (False, w')
      | Some (Return, w') \<Rightarrow> Some (True, w'))"
  by pat_completeness auto
termination
  by (relation "measure (\<lambda>(s, w). stored_bytes s w)") (auto dest: recv_iter_Continue)

declare recv_loop.simps [simp del]

definition OnRecvComplete :: "sid \<Rightarrow> u32 \<Rightarrow> bool \<Rightarrow> io \<Rightarrow> io option" where
  "OnRecvComplete s n success w = do {
     x \<leftarrow> sessions w s;
     let w1 = put_session s (x\<lparr>s_recvPosted := False, s_pendingIO := s_pendingIO x - 1\<rparr>) w;
     if \<not> success \<or> n = 0 then RequestClose s w1
     else if s_state x \<noteq> Connected then Some w1
     else do {
       (ok, r) \<leftarrow> rb_Write (s_recvRing x) (s_recvBuf x) (sint n);
       let w2 = upd_ring s r w1;
       if \<not> ok then RequestClose s w2
       else do {
         (returned, w3) \<leftarrow> recv_loop s w2;
         if returned then Some w3 else PostRecv s w3
       }
     }
   }"

end
