(* ===== verification/Framing_Facts.thy ===== *)
theory Framing_Facts
  imports Framing
begin

text \<open>
  The framing specification and the receive path's theorems: the pure stream cutter
  \<open>frames\<close>, its laws (chunk independence, round trip, bounded remainder), the refinement of
  the ring-buffer loop to it, and the totality of the receive handler. The property
  theorems of the receive path are at the end.
\<close>

section \<open>Cutting a stream into packets\<close>

text \<open>
  Packets in order, the bytes kept for later, and whether an invalid length was met
  (docs/protocol-v1.md, section 1: the five stream rules).
\<close>

function frames :: "bytes \<Rightarrow> Packet list \<times> bytes \<times> bool" where
  "frames bs =
     (if length bs < 4 then ([], bs, False)
      else let h = header_of bs; n = unat (h_size h) in
        if n < 4 \<or> 4096 < n then ([], bs, True)
        else if length bs < n then ([], bs, False)
        else (case frames (drop n bs) of
          (ps, rest, bad) \<Rightarrow> (\<lparr>header = h, body = take (n - 4) (drop 4 bs)\<rparr> # ps, rest, bad)))"
  by pat_completeness auto
termination
  by (relation "measure length") auto

declare frames.simps [simp del]

definition encode_packet :: "Packet \<Rightarrow> bytes" where
  "encode_packet p = header_bytes (header p) @ body p"

definition packet_ok :: "Packet \<Rightarrow> bool" where
  "packet_ok p \<longleftrightarrow> IsValid p \<and> length (body p) = unat (h_size (header p)) - 4"

lemma packet_okD:
  assumes "packet_ok p"
  shows "4 \<le> unat (h_size (header p))" "unat (h_size (header p)) \<le> 4096"
    and "length (body p) = unat (h_size (header p)) - 4"
  using assms by (simp_all add: packet_ok_def IsValid_iff)

lemma length_encode_packet: "packet_ok p \<Longrightarrow> length (encode_packet p) = unat (h_size (header p))"
  using packet_okD [of p] by (simp add: encode_packet_def)

lemma packet_eta [simp]: "\<lparr>header = header p, body = body p\<rparr> = p"
  by simp

lemma frames_wait: "length bs < 4 \<Longrightarrow> frames bs = ([], bs, False)"
  by (simp add: frames.simps)

lemma frames_encode_append:
  assumes "packet_ok p"
  shows "frames (encode_packet p @ bs) = (case frames bs of (ps, rest, bad) \<Rightarrow> (p # ps, rest, bad))"
proof -
  note ok = packet_okD [OF assms]
  have h: "header_of (encode_packet p @ bs) = header p"
    by (simp add: encode_packet_def header_of_bytes)
  have len: "length (encode_packet p) = unat (h_size (header p))" by (rule length_encode_packet [OF assms])
  have "take (unat (h_size (header p)) - 4) (drop 4 (encode_packet p @ bs)) = body p"
    using ok by (simp add: encode_packet_def)
  then show ?thesis
    using ok len by (subst frames.simps) (simp add: h Let_def not_less)
qed

lemma frames_encode_all:
  "list_all packet_ok ps \<Longrightarrow>
    frames (concat (map encode_packet ps) @ bs) = (case frames bs of (qs, rest, bad) \<Rightarrow> (ps @ qs, rest, bad))"
  by (induction ps) (auto simp: frames_encode_append split: prod.splits)

text \<open>What \<open>frames\<close> returns is well formed, and nothing is lost or invented.\<close>

lemma frames_sound:
  "frames bs = (ps, rest, bad) \<Longrightarrow> list_all packet_ok ps \<and> bs = concat (map encode_packet ps) @ rest \<and>
    (\<not> bad \<longrightarrow> length rest < 4096)"
proof (induction bs arbitrary: ps rest bad rule: frames.induct)
  case (1 bs)
  let ?h = "header_of bs" and ?n = "unat (h_size (header_of bs))"
  consider "length bs < 4 \<or> ?n < 4 \<or> 4096 < ?n \<or> length bs < ?n"
    | "\<not> length bs < 4" "\<not> (?n < 4 \<or> 4096 < ?n)" "\<not> length bs < ?n" by blast
  then show ?case
  proof cases
    case 1
    with "1.prems" show ?thesis by (subst (asm) frames.simps) (auto simp: Let_def split: if_splits)
  next
    case 2
    obtain qs rest' bad' where fr: "frames (drop ?n bs) = (qs, rest', bad')" by (metis prod.exhaust)
    let ?p = "\<lparr>header = ?h, body = take (?n - 4) (drop 4 bs)\<rparr>"
    from "1.prems" 2 fr have r: "ps = ?p # qs" "rest = rest'" "bad = bad'"
      by (subst (asm) frames.simps, simp add: Let_def)+
    have p: "packet_ok ?p"
      using 2 by (simp add: packet_ok_def IsValid_iff)
    have "encode_packet ?p = take 4 bs @ take (?n - 4) (drop 4 bs)"
      using 2 header_bytes_of [of "take 4 bs"] by (simp add: encode_packet_def)
    also have "\<dots> = take ?n bs"
      using 2 by (metis add_diff_inverse_nat le_add1 take_add not_less)
    finally have e: "encode_packet ?p @ drop ?n bs = bs" by simp
    from "1.IH" [OF 2(1) refl refl 2(2,3) fr] e p r show ?thesis by simp
  qed
qed

text \<open>
  Chunk independence: cutting a prefix first, then the kept bytes with the rest of the
  stream behind them, gives the same packets as cutting it at once.
\<close>

lemma frames_append:
  assumes "frames xs = (ps, rest, False)"
  shows "frames (xs @ ys) = (case frames (rest @ ys) of (qs, r, bad) \<Rightarrow> (ps @ qs, r, bad))"
proof -
  from frames_sound [OF assms] have "list_all packet_ok ps" "xs = concat (map encode_packet ps) @ rest"
    by simp_all
  then show ?thesis by (simp add: frames_encode_all)
qed

lemma frames_rest_idle: "frames xs = (ps, rest, bad) \<Longrightarrow> frames rest = ([], rest, bad)"
proof (induction xs arbitrary: ps rest bad rule: frames.induct)
  case (1 bs)
  let ?n = "unat (h_size (header_of bs))"
  consider "length bs < 4 \<or> ?n < 4 \<or> 4096 < ?n \<or> length bs < ?n"
    | "\<not> length bs < 4" "\<not> (?n < 4 \<or> 4096 < ?n)" "\<not> length bs < ?n" by blast
  then show ?case
  proof cases
    case 1
    then have "fst (snd (frames bs)) = bs" "fst (frames bs) = []"
      by (auto simp: frames.simps [of bs] Let_def)
    with "1.prems" show ?thesis by (cases "frames bs") auto
  next
    case 2
    obtain qs rest' bad' where fr: "frames (drop ?n bs) = (qs, rest', bad')" by (metis prod.exhaust)
    from "1.prems" 2 fr have r: "rest = rest'" "bad = bad'"
      by (subst (asm) frames.simps, simp add: Let_def)+
    from "1.IH" [OF 2(1) refl refl 2(2,3) fr] r show ?thesis by simp
  qed
qed

section \<open>One iteration refines one cut\<close>

lemma upd_ring_total: "sessions w s = Some x \<Longrightarrow> session_ok x \<Longrightarrow> rb_ok r \<Longrightarrow>
    \<exists>y. sessions (upd_ring s r w) s = Some y \<and> session_ok y"
  by (simp add: session_ok_def)

lemma recv_iter_wait:
  assumes x: "sessions w s = Some x" and len: "length (rb_contents (s_recvRing x)) < 4"
  shows "recv_iter s w = Some (Break, w)"
  using assms by (simp add: recv_iter_def rb_Has_iff HEADER_SIZE_def)

lemma recv_iter_header:
  assumes x: "sessions w s = Some x" and ok: "session_ok x" and len: "4 \<le> length (rb_contents (s_recvRing x))"
  shows "rb_Peek (s_recvRing x) (replicate 4 0) 4 = Some (True, take 4 (rb_contents (s_recvRing x)))"
    and "rb_Has (s_recvRing x) HEADER_SIZE"
  using ring.peek_exact [of "s_recvRing x" 4 "replicate 4 0"] ok len
  by (simp_all add: session_ok_def rb_Has_iff HEADER_SIZE_def)

lemma header_size_test:
  "(ucast (h_size h) < HEADER_SIZE \<or> h_size h > MAX_PACKET_SIZE) \<longleftrightarrow> unat (h_size h) < 4 \<or> 4096 < unat (h_size h)"
  by (simp add: HEADER_SIZE_def MAX_PACKET_SIZE_def word_less_nat_alt)

lemma recv_iter_bad:
  assumes x: "sessions w s = Some x" and ok: "session_ok x" and len: "4 \<le> length (rb_contents (s_recvRing x))"
    and bad: "unat (h_size (header_of (rb_contents (s_recvRing x)))) < 4 \<or>
      4096 < unat (h_size (header_of (rb_contents (s_recvRing x))))"
  shows "recv_iter s w = map_option (Pair Return) (RequestClose s w)"
  using recv_iter_header [OF x ok len] x bad
  by (cases "RequestClose s w") (simp_all add: recv_iter_def header_size_test Let_def)

lemma recv_iter_short:
  assumes x: "sessions w s = Some x" and ok: "session_ok x" and len: "4 \<le> length (rb_contents (s_recvRing x))"
    and h: "h = header_of (rb_contents (s_recvRing x))"
    and g: "4 \<le> unat (h_size h)" "unat (h_size h) \<le> 4096" "length (rb_contents (s_recvRing x)) < unat (h_size h)"
  shows "recv_iter s w = Some (Break, w)"
proof -
  have "\<not> rb_Has (s_recvRing x) (ucast (h_size h))" using g by (simp add: rb_Has_iff)
  then show ?thesis
    using recv_iter_header [OF x ok len] x g
    by (simp add: recv_iter_def header_size_test Let_def flip: h)
qed

lemma recv_iter_packet:
  assumes x: "sessions w s = Some x" and ok: "session_ok x" and len: "4 \<le> length (rb_contents (s_recvRing x))"
    and h: "h = header_of (rb_contents (s_recvRing x))" and n: "n = unat (h_size h)"
    and g: "4 \<le> n" "n \<le> 4096" "n \<le> length (rb_contents (s_recvRing x))"
  shows "\<exists>r' w2. rb_ok r' \<and> rb_contents r' = drop n (rb_contents (s_recvRing x)) \<and>
    ProcessPacket s \<lparr>header = h, body = take (n - 4) (drop 4 (rb_contents (s_recvRing x)))\<rparr> w = Some w2 \<and>
    io_frame w w2 \<and> recv_iter s w = Some (Continue, upd_ring s r' w2)"
proof -
  let ?r = "s_recvRing x" and ?b = "size_of_int (body_size h)"
  let ?p = "\<lparr>header = h, body = take (n - 4) (drop 4 (rb_contents ?r))\<rparr>"
  have has: "rb_Has ?r (ucast (h_size h))" using g n by (simp add: rb_Has_iff)
  have bs: "body_size h = int (n - 4)"
    using g n by (simp add: body_size_eq of_nat_diff)
  then have ub: "unat ?b = n - 4"
    using unat_size_of_int [of "int (n - 4)"] g by simp
  have rok: "rb_ok ?r" using ok by (simp add: session_ok_def)
  have tr: "rb_Peek (rb_Skip ?r HEADER_SIZE) (replicate (n - 4) 0) (int (n - 4)) = Some (True, body ?p)"
    "rb_ok (rb_Skip (rb_Skip ?r HEADER_SIZE) ?b)"
    "rb_contents (rb_Skip (rb_Skip ?r HEADER_SIZE) ?b) = drop n (rb_contents ?r)"
    using ring.take_record [OF rok, of HEADER_SIZE ?b "replicate (n - 4) 0"] g ub
    by (simp_all add: HEADER_SIZE_def)
  have pk: "(if body_size h > 0 then rb_Peek (rb_Skip ?r HEADER_SIZE) (replicate (nat (body_size h)) 0) (body_size h)
      else Some (True, [])) = Some (True, body ?p)"
    using tr(1) by (auto simp: bs simp del: of_nat_diff)
  have len_p: "length (body ?p) = unat (h_size (header ?p)) - 4" using g n by simp
  obtain w2 where w2: "ProcessPacket s ?p w = Some w2" "io_frame w w2"
    using ProcessPacket_frame [OF x ok len_p] by blast
  have pp: "ProcessPacket s ?p (upd_ring s (rb_Skip ?r HEADER_SIZE) w) = Some (upd_ring s (rb_Skip ?r HEADER_SIZE) w2)"
    using w2(1) by (simp add: ring_blindD [OF ProcessPacket_blind])
  obtain x2 where x2: "sessions w2 s = Some x2" using io_frameD(4) [OF w2(2) x] by blast
  have "recv_iter s w = Some (Continue, upd_ring s (rb_Skip (rb_Skip ?r HEADER_SIZE) ?b) w2)"
    using recv_iter_header [OF x ok len] x g n has pk pp x2
    by (simp add: recv_iter_def header_size_test Let_def flip: h)
  with w2 tr show ?thesis by blast
qed

section \<open>The loop refines the cutter\<close>

lemma RequestClose_upd:
  "RequestClose s (upd_ring s r w) = map_option (upd_ring s r) (RequestClose s w)"
  by (rule ring_blindD [OF RequestClose_blind])

lemma for_each_blind:
  "(\<And>x. ring_blind s (f x)) \<Longrightarrow> for_each f xs (upd_ring s r w) = map_option (upd_ring s r) (for_each f xs w)"
proof (induction xs arbitrary: w)
  case Nil
  then show ?case by simp
next
  case (Cons a xs)
  then show ?case by (cases "f a w") (simp_all add: ring_blindD)
qed

lemma ProcessPacket_all_frame:
  assumes "sessions w s = Some x" and "session_ok x" and "list_all packet_ok ps"
  shows "\<exists>w'. for_each (ProcessPacket s) ps w = Some w' \<and> io_frame w w'"
proof -
  let ?P = "\<lambda>w'. io_frame w w' \<and> (\<exists>y. sessions w' s = Some y \<and> session_ok y)"
  have step: "\<exists>v. ProcessPacket s p u = Some v \<and> ?P v" if p: "p \<in> set ps" and u: "?P u" for p u
  proof -
    obtain y where y: "sessions u s = Some y" "session_ok y" using u by blast
    have "length (body p) = unat (h_size (header p)) - 4"
      using assms(3) p by (simp add: list_all_iff packet_ok_def)
    then obtain v where v: "ProcessPacket s p u = Some v" "io_frame u v"
      using ProcessPacket_frame [OF y] by blast
    moreover obtain z where "sessions v s = Some z" "session_ok z"
      using io_frameD(4) [OF v(2) y(1)] y(2) by (auto simp: session_frame_def)
    ultimately show ?thesis using u by (blast intro: io_frame_trans)
  qed
  have "?P w" using assms by blast
  then have "\<exists>w'. for_each (ProcessPacket s) ps w = Some w' \<and> ?P w'"
    by (rule for_each_total) (rule step)
  then show ?thesis by blast
qed

text \<open>
  Every buffered packet is processed, in order, and the incomplete rest stays buffered; an
  invalid length closes the session. Nothing else happens, and nothing is undefined.
\<close>

lemma recv_loop_refines_frames:
  assumes "sessions w s = Some x" and "session_ok x"
    and "frames (rb_contents (s_recvRing x)) = (ps, rest, bad)"
  shows "\<exists>w1 r. for_each (ProcessPacket s) ps w = Some w1 \<and> rb_ok r \<and> rb_contents r = rest \<and>
    recv_loop s w = (if bad then map_option (Pair True) (RequestClose s (upd_ring s r w1))
      else Some (False, upd_ring s r w1))"
  using assms
proof (induction s w arbitrary: x ps rest bad rule: recv_loop.induct)
  case (1 s w)
  let ?bs = "rb_contents (s_recvRing x)" and ?n = "unat (h_size (header_of (rb_contents (s_recvRing x))))"
  note x = "1.prems"(1) and ok = "1.prems"(2) and fr = "1.prems"(3)
  have rok: "rb_ok (s_recvRing x)" using ok by (simp add: session_ok_def)
  have same: "upd_ring s (s_recvRing x) w = w" using x by (simp add: upd_ring_same ring_of_def)
  consider "length ?bs < 4" | "4 \<le> length ?bs" "?n < 4 \<or> 4096 < ?n"
    | "4 \<le> length ?bs" "4 \<le> ?n" "?n \<le> 4096" "length ?bs < ?n"
    | "4 \<le> length ?bs" "4 \<le> ?n" "?n \<le> 4096" "?n \<le> length ?bs" by linarith
  then show ?case
  proof cases
    case 1
    with fr have "ps = []" "rest = ?bs" "\<not> bad" by (simp_all add: frames.simps [of ?bs])
    with recv_iter_wait [OF x 1] rok same show ?thesis
      by (intro exI [of _ w] exI [of _ "s_recvRing x"]) (simp add: recv_loop.simps [of s w])
  next
    case 2
    with fr have "ps = []" "rest = ?bs" "bad" by (simp_all add: frames.simps [of ?bs] Let_def split: if_splits)
    with recv_iter_bad [OF x ok 2] rok same show ?thesis
      by (intro exI [of _ w] exI [of _ "s_recvRing x"])
        (cases "RequestClose s w", simp_all add: recv_loop.simps [of s w])
  next
    case 3
    with fr have "ps = []" "rest = ?bs" "\<not> bad" by (simp_all add: frames.simps [of ?bs] Let_def split: if_splits)
    with recv_iter_short [OF x ok 3(1) refl 3(2-4)] rok same show ?thesis
      by (intro exI [of _ w] exI [of _ "s_recvRing x"]) (simp add: recv_loop.simps [of s w])
  next
    case 4
    let ?p = "\<lparr>header = header_of ?bs, body = take (?n - 4) (drop 4 ?bs)\<rparr>"
    obtain r' w2 where r': "rb_ok r'" "rb_contents r' = drop ?n ?bs"
      and pp: "ProcessPacket s ?p w = Some w2" and f2: "io_frame w w2"
      and it: "recv_iter s w = Some (Continue, upd_ring s r' w2)"
      using recv_iter_packet [OF x ok 4(1) refl refl 4(2-4)] by blast
    obtain qs rest' bad' where fr': "frames (drop ?n ?bs) = (qs, rest', bad')" by (metis prod.exhaust)
    have res: "ps = ?p # qs" "rest = rest'" "bad = bad'"
      using fr 4 fr' by (simp_all add: frames.simps [of ?bs] Let_def)
    obtain x2 where x2: "sessions w2 s = Some x2" "session_ok x2"
      using io_frameD(4) [OF f2 x] ok by (auto simp: session_frame_def)
    let ?x2 = "x2\<lparr>s_recvRing := r'\<rparr>"
    have "sessions (upd_ring s r' w2) s = Some ?x2" "session_ok ?x2"
      using x2 r' by (simp_all add: session_ok_def)
    moreover have "frames (rb_contents (s_recvRing ?x2)) = (qs, rest, bad)" using r' fr' res by simp
    ultimately obtain w1 r where ih: "for_each (ProcessPacket s) qs (upd_ring s r' w2) = Some w1" "rb_ok r" "rb_contents r = rest"
      "recv_loop s (upd_ring s r' w2) = (if bad then map_option (Pair True) (RequestClose s (upd_ring s r w1))
        else Some (False, upd_ring s r w1))"
      using "1.IH" [OF it refl refl] by blast
    from ih(1) obtain w3 where w3: "for_each (ProcessPacket s) qs w2 = Some w3" "w1 = upd_ring s r' w3"
      by (auto simp: for_each_blind [OF ProcessPacket_blind])
    have "for_each (ProcessPacket s) ps w = Some w3" using pp w3(1) res(1) by simp
    moreover have "recv_loop s w = recv_loop s (upd_ring s r' w2)"
      by (simp add: recv_loop.simps [of s w] it)
    ultimately show ?thesis using ih w3(2) by auto
  qed
qed


section \<open>The receive handler\<close>

text \<open>
  An open session never keeps a whole packet back, so the kept bytes are fewer than the
  largest packet and a receive of one context buffer always fits the ring.
\<close>

definition framed :: "session \<Rightarrow> bool" where
  "framed x \<longleftrightarrow> (s_state x = Connected \<longrightarrow>
     frames (rb_contents (s_recvRing x)) = ([], rb_contents (s_recvRing x), False))"

lemma framed_length: "framed x \<Longrightarrow> s_state x = Connected \<Longrightarrow> length (rb_contents (s_recvRing x)) < 4096"
  using frames_sound [of "rb_contents (s_recvRing x)"] by (auto simp: framed_def)

lemma new_Session_framed: "framed (new_Session sock junk)"
  by (simp add: framed_def new_Session_def frames_wait)

definition recv_entry :: "sid \<Rightarrow> session \<Rightarrow> io \<Rightarrow> io" where
  "recv_entry s x w = put_session s (x\<lparr>s_recvPosted := False, s_pendingIO := s_pendingIO x - 1\<rparr>) w"

lemma sint_small: "unat (n :: u32) \<le> 4096 \<Longrightarrow> sint n = int (unat n)"
proof -
  assume "unat n \<le> 4096"
  then have "int (unat n) \<le> 4096" by linarith
  then have "uint n < 2 ^ 31" by simp
  moreover have "- (2 ^ 31) \<le> uint n" by (rule order_trans [OF _ uint_ge_0]) simp
  ultimately have "sint (word_of_int (uint n) :: u32) = uint n" by (intro sint_of_int_small)
  then show ?thesis by simp
qed

text \<open>The ring always has room for one completion of the receive buffer.\<close>

lemma recv_write_fits:
  fixes n :: u32
  assumes "session_ok x" and "framed x" and "s_state x = Connected" and n: "unat n \<le> BUFFER_SIZE"
  shows "\<exists>r. rb_Write (s_recvRing x) (s_recvBuf x) (sint n) = Some (True, r) \<and> rb_ok r \<and>
    rb_contents r = rb_contents (s_recvRing x) @ take (unat n) (s_recvBuf x)"
proof -
  have "length (rb_contents (s_recvRing x)) + unat n \<le> 8192"
    using framed_length [OF assms(2,3)] n by (simp add: BUFFER_SIZE_def)
  moreover have "rb_ok (s_recvRing x)" "unat n \<le> length (s_recvBuf x)"
    using assms(1) n by (simp_all add: session_ok_def)
  ultimately show ?thesis
    using ring.put_ok [of "s_recvRing x" "unat n" "s_recvBuf x"] sint_small [of n] n
    by (simp add: BUFFER_SIZE_def)
qed

lemma OnRecvComplete_frames:
  assumes x: "sessions w s = Some x" and ok: "session_ok x" and fr: "framed x" and c: "s_state x = Connected"
    and n: "n \<noteq> 0" "unat n \<le> BUFFER_SIZE"
    and ps: "frames (rb_contents (s_recvRing x) @ take (unat n) (s_recvBuf x)) = (ps, rest, bad)"
  shows "\<exists>w1 r. for_each (ProcessPacket s) ps (recv_entry s x w) = Some w1 \<and> io_frame (recv_entry s x w) w1 \<and>
    rb_ok r \<and> rb_contents r = rest \<and>
    OnRecvComplete s n True w = (if bad then RequestClose s (upd_ring s r w1) else PostRecv s (upd_ring s r w1))"
proof -
  let ?w1 = "recv_entry s x w" and ?x1 = "x\<lparr>s_recvPosted := False, s_pendingIO := s_pendingIO x - 1\<rparr>"
  obtain r0 where r0: "rb_Write (s_recvRing x) (s_recvBuf x) (sint n) = Some (True, r0)" "rb_ok r0"
    "rb_contents r0 = rb_contents (s_recvRing x) @ take (unat n) (s_recvBuf x)"
    using recv_write_fits [OF ok fr c n(2)] by blast
  have x1: "sessions ?w1 s = Some ?x1" "session_ok ?x1"
    using ok by (simp_all add: recv_entry_def)
  have x2: "sessions (upd_ring s r0 ?w1) s = Some (?x1\<lparr>s_recvRing := r0\<rparr>)" "session_ok (?x1\<lparr>s_recvRing := r0\<rparr>)"
    using x1 r0(2) by simp_all
  have fr2: "frames (rb_contents (s_recvRing (?x1\<lparr>s_recvRing := r0\<rparr>))) = (ps, rest, bad)"
    using ps r0(3) by simp
  have ok_ps: "list_all packet_ok ps" using frames_sound [OF ps] by blast
  obtain w1 where w1: "for_each (ProcessPacket s) ps ?w1 = Some w1" "io_frame ?w1 w1"
    using ProcessPacket_all_frame [OF x1 ok_ps] by blast
  obtain r where r: "rb_ok r" "rb_contents r = rest"
    "recv_loop s (upd_ring s r0 ?w1) = (if bad then map_option (Pair True) (RequestClose s (upd_ring s r w1))
      else Some (False, upd_ring s r w1))"
    using recv_loop_refines_frames [OF x2 fr2] w1(1) by (auto simp: for_each_blind [OF ProcessPacket_blind])
  have "OnRecvComplete s n True w = (if bad then RequestClose s (upd_ring s r w1) else PostRecv s (upd_ring s r w1))"
    using x c n r0(1) r(3)
    by (cases "RequestClose s (upd_ring s r w1)") (simp_all add: OnRecvComplete_def flip: recv_entry_def)
  with w1 r show ?thesis by blast
qed

text \<open>
  The effect contract of a completion handler of session \<open>s\<close>: like \<open>io_frame\<close>, but the
  session's own ring may change, within the invariant, and its pending counter moves by
  \<open>d\<close> against the operations started.
\<close>

definition io_effect :: "sid \<Rightarrow> i32 \<Rightarrow> io \<Rightarrow> io \<Rightarrow> bool" where
  "io_effect s d w w' \<longleftrightarrow> srvState w' = srvState w \<and> sysResult w' = sysResult w \<and>
     (\<exists>js. jobQueue w' = jobQueue w @ js \<and> close_jobs w w' js) \<and>
     (\<exists>cs. trace w' = trace w @ cs) \<and>
     (\<forall>t. (sessions w t = None) = (sessions w' t = None) \<and> (sessions w t = None \<longrightarrow> started t w' = started t w)) \<and>
     (\<forall>t x x'. sessions w t = Some x \<longrightarrow> sessions w' t = Some x' \<longrightarrow>
        (session_ok x \<and> framed x \<longrightarrow> session_ok x' \<and> framed x') \<and>
        (t \<noteq> s \<longrightarrow> s_recvRing x' = s_recvRing x) \<and>
        s_gameCleanupDone x' = s_gameCleanupDone x \<and> s_destroying x' = s_destroying x \<and>
        (s_state x \<noteq> Connected \<longrightarrow> s_state x' \<noteq> Connected) \<and>
        s_pendingIO x' - of_nat (started t w') = s_pendingIO x - of_nat (started t w) + (if t = s then d else 0))"

lemma session_frame_framed: "session_frame x x' \<Longrightarrow> framed x \<Longrightarrow> framed x'"
  by (auto simp: session_frame_def framed_def)

lemma io_frame_effect:
  assumes "io_frame w w'"
  shows "io_effect s 0 w w'"
proof -
  have "(session_ok x \<and> framed x \<longrightarrow> session_ok x' \<and> framed x') \<and> s_recvRing x' = s_recvRing x \<and>
      s_gameCleanupDone x' = s_gameCleanupDone x \<and> s_destroying x' = s_destroying x \<and>
      (s_state x \<noteq> Connected \<longrightarrow> s_state x' \<noteq> Connected)"
    if "sessions w t = Some x" "sessions w' t = Some x'" for t x x'
  proof -
    have "session_frame x x'" using io_frameD(4) [OF assms that(1)] that(2) by simp
    then show ?thesis using session_frame_framed by (auto simp: session_frame_def)
  qed
  then show ?thesis
    using assms io_frameD(3) [OF assms] by (simp add: io_effect_def) (simp add: io_frame_def)
qed

text \<open>What the contract says of one session that is alive on entry.\<close>

lemma io_effect_session:
  assumes e: "io_effect s d w w'" and x: "sessions w t = Some x"
  shows "\<exists>x'. sessions w' t = Some x' \<and> (session_ok x \<and> framed x \<longrightarrow> session_ok x' \<and> framed x') \<and>
    s_gameCleanupDone x' = s_gameCleanupDone x \<and> s_destroying x' = s_destroying x \<and>
    (s_state x \<noteq> Connected \<longrightarrow> s_state x' \<noteq> Connected) \<and>
    s_pendingIO x' - of_nat (started t w') = s_pendingIO x - of_nat (started t w) + (if t = s then d else 0)"
proof -
  have "(sessions w t = None) = (sessions w' t = None)" using e by (simp add: io_effect_def)
  with x obtain x' where x': "sessions w' t = Some x'" by fastforce
  note r = e [unfolded io_effect_def, THEN conjunct2, THEN conjunct2, THEN conjunct2, THEN conjunct2,
        THEN conjunct2, rule_format, OF x x']
  from r x' show ?thesis by blast
qed

lemma io_effectD:
  assumes "io_effect s d w w'"
  shows "sessions w t = None \<longleftrightarrow> sessions w' t = None"
    and "\<exists>js. jobQueue w' = jobQueue w @ js \<and> close_jobs w w' js"
    and "\<exists>cs. trace w' = trace w @ cs" and "sysResult w' = sysResult w" and "srvState w' = srvState w"
    and "sessions w t = None \<Longrightarrow> started t w' = started t w"
  using assms by (simp_all add: io_effect_def)

lemma io_effect_open: "io_effect s d w w' \<Longrightarrow> is_open t w' \<Longrightarrow> is_open t w"
  unfolding is_open_def by (metis io_effectD(1) io_effect_session not_None_eq option.inject)

text \<open>No completion handler and nothing of the game thread moves a session's state back.\<close>

lemma io_effect_forward:
  assumes "io_effect s d w w'" and "sessions w t = Some x" and "session_ok x" and "framed x"
  shows "\<exists>x'. sessions w' t = Some x' \<and> s_state x \<le> s_state x'"
proof -
  obtain x' where x': "sessions w' t = Some x'" "session_ok x'" "s_state x \<noteq> Connected \<longrightarrow> s_state x' \<noteq> Connected"
    using io_effect_session [OF assms(1,2)] assms(3,4) by blast
  then have "s_state x = Connected \<or> s_state x' = Closed" by (auto simp: session_ok_def split: if_splits)
  then have "s_state x \<le> s_state x'" by (elim disjE) simp_all
  with x'(1) show ?thesis by blast
qed

lemma io_effect_trans:
  assumes a: "io_effect s d u v" and b: "io_effect s e v w"
  shows "io_effect s (d + e) u w"
proof -
  obtain j1 j2 where jq: "jobQueue v = jobQueue u @ j1" "close_jobs u v j1"
    "jobQueue w = jobQueue v @ j2" "close_jobs v w j2"
    using io_effectD(2) [OF a] io_effectD(2) [OF b] by blast
  have "close_jobs u w (j1 @ j2)"
    using close_jobs_trans [OF jq(2,4)] io_effect_open [OF a] io_effect_open [OF b] by blast
  then have j: "\<exists>js. jobQueue w = jobQueue u @ js \<and> close_jobs u w js" using jq(1,3) by auto
  obtain c1 c2 where c: "trace v = trace u @ c1" "trace w = trace v @ c2"
    using io_effectD(3) [OF a] io_effectD(3) [OF b] by blast
  have "(session_ok x \<and> framed x \<longrightarrow> session_ok z \<and> framed z) \<and> (t \<noteq> s \<longrightarrow> s_recvRing z = s_recvRing x) \<and>
      s_gameCleanupDone z = s_gameCleanupDone x \<and> s_destroying z = s_destroying x \<and>
      (s_state x \<noteq> Connected \<longrightarrow> s_state z \<noteq> Connected) \<and>
      s_pendingIO z - of_nat (started t w) = s_pendingIO x - of_nat (started t u) + (if t = s then d + e else 0)"
    if x: "sessions u t = Some x" and z: "sessions w t = Some z" for t x z
  proof -
    have "(sessions u t = None) = (sessions v t = None)" using a by (simp add: io_effect_def)
    with x obtain y where y: "sessions v t = Some y" by fastforce
    note xy = a [unfolded io_effect_def, THEN conjunct2, THEN conjunct2, THEN conjunct2, THEN conjunct2,
        THEN conjunct2, rule_format, OF x y]
    note yz = b [unfolded io_effect_def, THEN conjunct2, THEN conjunct2, THEN conjunct2, THEN conjunct2,
        THEN conjunct2, rule_format, OF y z]
    from xy yz show ?thesis by auto
  qed
  moreover have "(sessions u t = None) = (sessions w t = None)" for t
    using io_effectD(1) [OF a, of t] io_effectD(1) [OF b, of t] by simp
  moreover have "started t w = started t u" if "sessions u t = None" for t
    using that io_effectD(6) [OF a, of t] io_effectD(6) [OF b, of t] io_effectD(1) [OF a, of t] by simp
  moreover have "srvState w = srvState u" "sysResult w = sysResult u"
    using io_effectD(4,5) [OF a] io_effectD(4,5) [OF b] by simp_all
  ultimately show ?thesis using j c unfolding io_effect_def by simp
qed

text \<open>The handler is total: no completion the operating system can report is undefined.\<close>

lemma recv_entry_effect:
  "sessions w s = Some x \<Longrightarrow> io_effect s (- 1) w (recv_entry s x w)"
  by (auto simp: io_effect_def recv_entry_def framed_def is_open_same simp del: is_open_simps(1) intro!: close_jobs_Nil)

lemma upd_ring_effect:
  assumes "\<And>x. sessions w s = Some x \<Longrightarrow> session_ok x \<Longrightarrow> framed x \<Longrightarrow> session_ok (x\<lparr>s_recvRing := r\<rparr>) \<and> framed (x\<lparr>s_recvRing := r\<rparr>)"
  shows "io_effect s 0 w (upd_ring s r w)"
proof -
  have "started t (upd_ring s r w) = started t w" for t by (rule started_cong) simp_all
  moreover have "is_open t (upd_ring s r w) = is_open t w" for t by (auto simp: is_open_def upd_ring_def)
  ultimately show ?thesis
    using assms by (simp add: io_effect_def close_jobs_Nil) (auto simp: upd_ring_def)
qed

lemma OnRecvComplete_total:
  assumes x: "sessions w s = Some x" and ok: "session_ok x" and fr: "framed x" and n: "unat n \<le> BUFFER_SIZE"
  shows "\<exists>w'. OnRecvComplete s n success w = Some w' \<and> io_effect s (- 1) w w'"
proof -
  let ?w1 = "recv_entry s x w" and ?x1 = "x\<lparr>s_recvPosted := False, s_pendingIO := s_pendingIO x - 1\<rparr>"
  have x1: "sessions ?w1 s = Some ?x1" "session_ok ?x1"
    using ok by (simp_all add: recv_entry_def)
  note e1 = recv_entry_effect [OF x]
  have after: "io_frame ?w1 w' \<Longrightarrow> io_effect s (- 1) w w'" for w'
    using io_effect_trans [OF e1 io_frame_effect] by simp
  consider "\<not> success \<or> n = 0" | "success" "n \<noteq> 0" "s_state x \<noteq> Connected"
    | "success" "n \<noteq> 0" "s_state x = Connected" by blast
  then show ?thesis
  proof cases
    case 1
    obtain w' where "RequestClose s ?w1 = Some w'" "io_frame ?w1 w'"
      using RequestClose_frame [OF x1] by blast
    with 1 x after show ?thesis by (auto simp: OnRecvComplete_def Let_def recv_entry_def)
  next
    case 2
    with x e1 show ?thesis by (auto simp: OnRecvComplete_def Let_def recv_entry_def)
  next
    case 3
    obtain ps rest bad where ps: "frames (rb_contents (s_recvRing x) @ take (unat n) (s_recvBuf x)) = (ps, rest, bad)"
      by (metis prod.exhaust)
    obtain w1 r where w1: "io_frame ?w1 w1" and r: "rb_ok r" "rb_contents r = rest"
      and eq: "OnRecvComplete s n True w = (if bad then RequestClose s (upd_ring s r w1) else PostRecv s (upd_ring s r w1))"
      using OnRecvComplete_frames [OF x ok fr 3(3,2) n ps] by blast
    obtain y where y: "sessions w1 s = Some y" "session_ok y"
      using io_frameD(4) [OF w1 x1(1)] x1(2) by (auto simp: session_frame_def)
    show ?thesis
    proof (cases bad)
      case True
      obtain w2 where w2: "RequestClose s w1 = Some w2" "io_frame w1 w2"
        using RequestClose_frame [OF y] by blast
      have "io_effect s 0 w2 (upd_ring s r w2)"
        using RequestClose_closes [OF y w2(1)] r(1) by (intro upd_ring_effect) (auto simp: framed_def)
      from io_effect_trans [OF after [OF io_frame_trans [OF w1 w2(2)]] this] eq True w2(1) 3 show ?thesis
        by (simp add: RequestClose_upd)
    next
      case False
      have "frames (rb_contents r) = ([], rb_contents r, False)"
        using frames_rest_idle [OF ps] r(2) False by simp
      then have e: "io_effect s 0 w1 (upd_ring s r w1)"
        using r(1) by (intro upd_ring_effect) (auto simp: framed_def)
      have "sessions (upd_ring s r w1) s = Some (y\<lparr>s_recvRing := r\<rparr>)" "session_ok (y\<lparr>s_recvRing := r\<rparr>)"
        using y r(1) by simp_all
      then obtain w2 where w2: "PostRecv s (upd_ring s r w1) = Some w2" "io_frame (upd_ring s r w1) w2"
        using PostRecv_frame by blast
      from io_effect_trans [OF io_effect_trans [OF after [OF w1] e] io_frame_effect [OF w2(2)]] eq False w2(1) 3
      show ?thesis by simp
    qed
  qed
qed


section \<open>Delivering a stream\<close>

text \<open>
  The environment's half of a receive: the kernel writes a chunk into the context buffer
  and reports its length to a worker.
\<close>

definition deliver :: "sid \<Rightarrow> bytes \<Rightarrow> io \<Rightarrow> io option" where
  "deliver s bs w = do {
     x \<leftarrow> sessions w s;
     let w1 = put_session s (x\<lparr>s_recvBuf := bs @ drop (length bs) (s_recvBuf x)\<rparr>) w;
     OnRecvComplete s (of_nat (length bs)) True w1
   }"

definition packet_job :: "sid \<Rightarrow> Packet \<Rightarrow> GameJob" where
  "packet_job s p = PacketJob s (header p) (body p)"

definition push_jobs :: "GameJob list \<Rightarrow> io \<Rightarrow> io" where
  "push_jobs js w = w\<lparr>jobQueue := jobQueue w @ js\<rparr>"

lemma push_jobs_fields [simp]:
  "sessions (push_jobs js w) = sessions w" "srvState (push_jobs js w) = srvState w"
  "jobQueue (push_jobs js w) = jobQueue w @ js" "trace (push_jobs js w) = trace w"
  "sysResult (push_jobs js w) = sysResult w"
  "push_jobs [] w = w" "push_jobs js (push_job j w) = push_jobs (j # js) w"
  by (simp_all add: push_jobs_def push_job_def Push_def)

text \<open>While the session is open and the server runs, known packets are queued in order.\<close>

lemma ProcessPacket_all_queued:
  assumes "sessions w s = Some x" and "s_state x = Connected" and "\<not> IsShuttingDown w"
    and "list_all (\<lambda>p. packet_ok p \<and> IsKnownPacketId (h_id (header p))) ps"
  shows "for_each (ProcessPacket s) ps w = Some (push_jobs (map (packet_job s) ps) w)"
  using assms
proof (induction ps arbitrary: w)
  case Nil
  then show ?case by simp
next
  case (Cons p ps)
  then have "ProcessPacket s p w = Some (push_job (packet_job s p) w)"
    by (simp add: packet_job_def packet_ok_def ProcessPacket_queued)
  moreover have "\<not> IsShuttingDown (push_job (packet_job s p) w)"
    using Cons.prems(3) by (simp add: IsShuttingDown_def)
  ultimately show ?case using Cons by simp
qed

text \<open>One chunk: its packets are queued, the rest is kept, the next receive is posted.\<close>

definition open_session :: "sid \<Rightarrow> bytes \<Rightarrow> io \<Rightarrow> bool" where
  "open_session s kept w \<longleftrightarrow> (\<exists>x. sessions w s = Some x \<and> session_ok x \<and> s_state x = Connected \<and>
     rb_contents (s_recvRing x) = kept \<and> frames kept = ([], kept, False)) \<and>
     \<not> IsShuttingDown w \<and> (\<forall>i. sysResult w i = IoStarted)"

lemma deliver_chunk:
  assumes o: "open_session s kept w" and bs: "bs \<noteq> []" "length bs \<le> BUFFER_SIZE"
    and fr: "frames (kept @ bs) = (ps, rest, False)"
    and known: "list_all (\<lambda>p. IsKnownPacketId (h_id (header p))) ps"
  shows "\<exists>w'. deliver s bs w = Some w' \<and> open_session s rest w' \<and>
    jobQueue w' = jobQueue w @ map (packet_job s) ps \<and> (\<forall>t. t \<noteq> s \<longrightarrow> sessions w' t = sessions w t) \<and>
    map_option s_pendingIO (sessions w' s) = map_option s_pendingIO (sessions w s)"
proof -
  obtain x where x: "sessions w s = Some x" "session_ok x" "s_state x = Connected"
    "rb_contents (s_recvRing x) = kept" "frames kept = ([], kept, False)"
    using o by (auto simp: open_session_def)
  let ?x = "x\<lparr>s_recvBuf := bs @ drop (length bs) (s_recvBuf x)\<rparr>"
  let ?w = "put_session s ?x w" and ?n = "of_nat (length bs) :: u32"
  have buf: "length (s_recvBuf x) = BUFFER_SIZE" using x(2) by (simp add: session_ok_def)
  have n: "unat ?n = length bs" using bs(2) by (simp add: unsigned_of_nat take_bit_nat_eq_self BUFFER_SIZE_def)
  then have n0: "?n \<noteq> 0" using bs(1) by (metis length_0_conv unsigned_0)
  have ok: "session_ok ?x" using x(2) buf bs(2) by simp
  have fx: "framed ?x" using x by (simp add: framed_def)
  have "frames (rb_contents (s_recvRing ?x) @ take (unat ?n) (s_recvBuf ?x)) = (ps, rest, False)"
    using fr x(4) n by simp
  then obtain w1 r where w1: "for_each (ProcessPacket s) ps (recv_entry s ?x ?w) = Some w1"
    and r: "rb_ok r" "rb_contents r = rest"
    and rc: "OnRecvComplete s ?n True ?w = PostRecv s (upd_ring s r w1)"
    using OnRecvComplete_frames [of ?w s ?x ?n ps rest False] ok fx x(3) n n0 bs(2) by auto
  have ps_ok: "list_all (\<lambda>p. packet_ok p \<and> IsKnownPacketId (h_id (header p))) ps"
    using frames_sound [OF fr] known by (simp add: list_all_iff)
  let ?y = "?x\<lparr>s_recvPosted := False, s_pendingIO := s_pendingIO x - 1\<rparr>"
  have w1': "w1 = push_jobs (map (packet_job s) ps) (recv_entry s ?x ?w)"
    using ProcessPacket_all_queued [of "recv_entry s ?x ?w" s ?y ps] w1 x(3) o ps_ok
    by (simp add: recv_entry_def open_session_def IsShuttingDown_def)
  let ?z = "?y\<lparr>s_recvRing := r\<rparr>"
  have z: "sessions (upd_ring s r w1) s = Some ?z" by (simp add: w1' recv_entry_def)
  have "syscall_result (upd_ring s r w1) = IoStarted"
    using o by (simp add: syscall_result_def w1' recv_entry_def open_session_def)
  then have "PostRecv s (upd_ring s r w1) = Some (add_call (WSARecv s)
      (put_session s (?z\<lparr>s_recvPosted := True, s_pendingIO := s_pendingIO x\<rparr>) (upd_ring s r w1)))"
      (is "_ = Some ?w'")
    using PostRecv_posted [OF z] x(3) by simp
  moreover have "open_session s rest ?w'"
    using o ok r x(3) frames_rest_idle [OF fr]
    by (simp add: open_session_def w1' recv_entry_def IsShuttingDown_def)
  moreover have "jobQueue ?w' = jobQueue w @ map (packet_job s) ps"
    by (simp add: w1' recv_entry_def)
  moreover have "\<forall>t. t \<noteq> s \<longrightarrow> sessions ?w' t = sessions w t" by (simp add: w1' recv_entry_def)
  moreover have "map_option s_pendingIO (sessions ?w' s) = map_option s_pendingIO (sessions w s)" using x(1) by simp
  ultimately show ?thesis using rc x(1) by (simp add: deliver_def)
qed

lemma deliver_stream:
  assumes "open_session s kept w" and "frames (kept @ concat chunks) = (ps, rest, False)"
    and "list_all (\<lambda>p. IsKnownPacketId (h_id (header p))) ps"
    and "list_all (\<lambda>c. c \<noteq> [] \<and> length c \<le> BUFFER_SIZE) chunks"
  shows "\<exists>w'. for_each (deliver s) chunks w = Some w' \<and> open_session s rest w' \<and>
    jobQueue w' = jobQueue w @ map (packet_job s) ps"
  using assms
proof (induction chunks arbitrary: kept w ps)
  case Nil
  then have "ps = []" "rest = kept" by (auto simp: open_session_def)
  with Nil show ?case by simp
next
  case (Cons c cs)
  obtain qs r bad where fr: "frames (kept @ c) = (qs, r, bad)" by (metis prod.exhaust)
  have bad: "\<not> bad"
  proof
    assume bad
    with frames_sound [OF fr] have kc: "kept @ c = concat (map encode_packet qs) @ r"
      and ok: "list_all packet_ok qs" by simp_all
    have "kept @ concat (c # cs) = (kept @ c) @ concat cs" by simp
    also have "\<dots> = concat (map encode_packet qs) @ (r @ concat cs)" unfolding kc by simp
    finally have e: "kept @ concat (c # cs) = concat (map encode_packet qs) @ (r @ concat cs)" .
    moreover have "frames (r @ concat cs) = ([], r @ concat cs, True)"
    proof -
      have r: "frames r = ([], r, True)" using frames_rest_idle [OF fr] \<open>bad\<close> by simp
      then have len: "4 \<le> length r" "unat (h_size (header_of r)) < 4 \<or> 4096 < unat (h_size (header_of r))"
        by (auto simp: frames.simps [of r] Let_def split: if_splits prod.splits)
      then show ?thesis
        by (simp add: frames.simps [of "r @ concat cs"] header_of_append_long Let_def)
    qed
    ultimately show False
      using Cons.prems(2) unfolding e by (simp add: frames_encode_all [OF ok])
  qed
  with fr have fr: "frames (kept @ c) = (qs, r, False)" by simp
  obtain qs' where qs': "ps = qs @ qs'" "frames (r @ concat cs) = (qs', rest, False)"
    using frames_append [OF fr, of "concat cs"] Cons.prems(2)
    by (cases "frames (r @ concat cs)") auto
  obtain w1 where w1: "deliver s c w = Some w1" "open_session s r w1"
    "jobQueue w1 = jobQueue w @ map (packet_job s) qs"
    using deliver_chunk [OF Cons.prems(1) _ _ fr] Cons.prems(3,4) qs' by auto
  from Cons.IH [OF w1(2) qs'(2)] Cons.prems(3,4) qs'(1) w1 show ?case by auto
qed

end
