(* ===== verification/Wire_Format.thy ===== *)
theory Wire_Format
  imports Packet
begin

text \<open>
  The serializer and the game constants of GameServer.cpp (its anonymous namespace), and the
  bodies of the packets the waiting-room handlers build with them. The decoders are the
  field-by-field layouts of docs/protocol-v1.md, section 4; each round-trip theorem says that
  a client that follows the document reads back what the server meant.
\<close>

section \<open>Writer\<close>

text \<open>The writer's state is its buffer. Each method appends, masking and shifting as the code does.\<close>

definition w_U8 :: "u8 \<Rightarrow> bytes \<Rightarrow> bytes" where
  "w_U8 v buf = buf @ [v]"

definition w_U16 :: "u16 \<Rightarrow> bytes \<Rightarrow> bytes" where
  "w_U16 v buf = (buf @ [ucast (v AND 0xFF)]) @ [ucast ((drop_bit 8 v) AND 0xFF)]"

definition w_U32 :: "u32 \<Rightarrow> bytes \<Rightarrow> bytes" where
  "w_U32 v buf = foldl (\<lambda>b i. b @ [ucast ((drop_bit (8 * i) v) AND 0xFF)]) buf [0, 1, 2, 3]"

definition w_I32 :: "i32 \<Rightarrow> bytes \<Rightarrow> bytes" where
  "w_I32 v buf = w_U32 v buf"

definition w_Str :: "bytes \<Rightarrow> bytes \<Rightarrow> bytes" where
  "w_Str v buf = w_U16 (of_nat (length v)) buf @ v"

definition w_Size :: "bytes \<Rightarrow> u16" where
  "w_Size buf = of_nat (length buf)"

lemma mask_byte: "(ucast ((v :: 'a :: len word) AND 0xFF) :: u8) = ucast v"
proof -
  have m: "(255 :: 'a word) = mask 8" by (simp add: mask_eq_decr_exp)
  show ?thesis unfolding m by (rule bit_word_eqI) (auto simp: bit_simps dest: bit_imp_le_length)
qed

text \<open>Each method appends the little-endian bytes of its value, as the document requires.\<close>

lemma w_U8_append [codec_simps]: "w_U8 v buf = buf @ [v]"
  by (simp add: w_U8_def)

lemma w_U16_append [codec_simps]: "w_U16 v buf = buf @ le16 v"
  by (simp add: w_U16_def le16_def mask_byte)

lemma w_U32_append [codec_simps]: "w_U32 v buf = buf @ le32 v"
  by (simp add: w_U32_def le32_def mask_byte)

lemma w_I32_append [codec_simps]: "w_I32 v buf = buf @ le32 v"
  by (simp add: w_I32_def w_U32_append)

lemma w_Str_append [codec_simps]: "w_Str v buf = buf @ le16 (of_nat (length v)) @ v"
  by (simp add: w_Str_def w_U16_append)

section \<open>The map\<close>

definition TICK_RATE :: u16 where "TICK_RATE = 20"
definition TILE_UNIT :: u16 where "TILE_UNIT = 1000"
definition MAP_WIDTH :: u8 where "MAP_WIDTH = 15"
definition MAP_HEIGHT :: u8 where "MAP_HEIGHT = 13"
definition GAME_ROOM_CAPACITY :: u8 where "GAME_ROOM_CAPACITY = 2"

definition IsWallTile :: "int \<Rightarrow> int \<Rightarrow> bool" where
  "IsWallTile x y =
     (if x = 0 \<or> y = 0 \<or> x = uint MAP_WIDTH - 1 \<or> y = uint MAP_HEIGHT - 1 then True
      else x smod 2 = 0 \<and> y smod 2 = 0)"

definition TileCenter :: "int \<Rightarrow> i32" where
  "TileCenter t = word_of_int (t * uint TILE_UNIT + uint TILE_UNIT div 2)"

text \<open>\<open>GetTickCount64\<close> is the operating system's clock, in milliseconds.\<close>

definition CurrentTick :: "64 word \<Rightarrow> u32" where
  "CurrentTick getTickCount64 = ucast (getTickCount64 div (1000 div ucast TICK_RATE))"

definition spawnTile :: "int list list" where
  "spawnTile = [[1, 1], [13, 11]]"

section \<open>Bodies\<close>

definition error_body :: "u16 \<Rightarrow> u16 \<Rightarrow> bytes" where
  "error_body rejectedId code = w_U16 code (w_U16 rejectedId [])"

definition welcome_body :: "u32 \<Rightarrow> u32 \<Rightarrow> bytes" where
  "welcome_body playerId tick = w_U32 tick (w_U32 playerId (w_U8 0 []))"

text \<open>A member is what the loop reads of a player: id, readiness and name.\<close>

fun write_members :: "(u32 \<times> bool \<times> bytes) list \<Rightarrow> bytes \<Rightarrow> bytes" where
  "write_members [] w = w"
| "write_members ((pid, rdy, nm) # ms) w =
     write_members ms (w_Str nm (w_U8 (if rdy then 1 else 0) (w_U32 pid w)))"

definition room_state_body :: "u16 \<Rightarrow> u8 \<Rightarrow> (u32 \<times> bool \<times> bytes) list \<Rightarrow> bytes" where
  "room_state_body roomId capacity members =
     write_members members (w_U16 (of_nat (length members)) (w_U8 capacity (w_I32 (ucast roomId) [])))"

definition write_tiles :: "bytes \<Rightarrow> bytes" where
  "write_tiles w = foldl (\<lambda>w y. foldl (\<lambda>w x. w_U8 (if IsWallTile x y then 1 else 0) w) w
     [0 .. uint MAP_WIDTH - 1]) w [0 .. uint MAP_HEIGHT - 1]"

fun write_spawns :: "nat \<Rightarrow> u32 list \<Rightarrow> bytes \<Rightarrow> bytes" where
  "write_spawns i [] w = w"
| "write_spawns i (pid # ids) w =
     (let slot = i mod 2 in
      write_spawns (Suc i) ids
        (w_I32 (TileCenter (spawnTile ! slot ! 1)) (w_I32 (TileCenter (spawnTile ! slot ! 0)) (w_U32 pid w))))"

definition game_start_body :: "u32 \<Rightarrow> u32 list \<Rightarrow> bytes" where
  "game_start_body matchId ids =
     (let w = w_U32 matchId [];
          w = w_U16 TICK_RATE w;
          w = w_U16 TILE_UNIT w;
          w = w_U8 MAP_WIDTH w;
          w = w_U8 MAP_HEIGHT w;
          w = write_tiles w;
          w = w_U16 (of_nat (length ids)) w
      in write_spawns 0 ids w)"

section \<open>Layouts of the protocol document\<close>

text \<open>Readers for the document's field types: the value and what follows, or failure.\<close>

definition get_u8 :: "bytes \<Rightarrow> (u8 \<times> bytes) option" where
  "get_u8 bs = (case bs of [] \<Rightarrow> None | b # r \<Rightarrow> Some (b, r))"

definition get_u16 :: "bytes \<Rightarrow> (u16 \<times> bytes) option" where
  "get_u16 bs = (if length bs < 2 then None else Some (of_le16 bs, drop 2 bs))"

definition get_u32 :: "bytes \<Rightarrow> (u32 \<times> bytes) option" where
  "get_u32 bs = (if length bs < 4 then None else Some (of_le32 bs, drop 4 bs))"

definition get_str :: "bytes \<Rightarrow> (bytes \<times> bytes) option" where
  "get_str bs = do {
     (n, r) \<leftarrow> get_u16 bs;
     if length r < unat n then None else Some (take (unat n) r, drop (unat n) r)
   }"

fun get_many :: "(bytes \<Rightarrow> ('a \<times> bytes) option) \<Rightarrow> nat \<Rightarrow> bytes \<Rightarrow> ('a list \<times> bytes) option" where
  "get_many g 0 bs = Some ([], bs)"
| "get_many g (Suc n) bs = do {
     (x, r) \<leftarrow> g bs;
     (xs, r') \<leftarrow> get_many g n r;
     Some (x # xs, r')
   }"

definition get_member :: "bytes \<Rightarrow> ((u32 \<times> bool \<times> bytes) \<times> bytes) option" where
  "get_member bs = do {
     (pid, r) \<leftarrow> get_u32 bs;
     (rdy, r) \<leftarrow> get_u8 r;
     (nm, r) \<leftarrow> get_str r;
     Some ((pid, rdy \<noteq> 0, nm), r)
   }"

definition parse_room_state :: "bytes \<Rightarrow> (i32 \<times> u8 \<times> (u32 \<times> bool \<times> bytes) list) option" where
  "parse_room_state bs = do {
     (roomId, r) \<leftarrow> get_u32 bs;
     (capacity, r) \<leftarrow> get_u8 r;
     (count, r) \<leftarrow> get_u16 r;
     (ms, r) \<leftarrow> get_many get_member (unat count) r;
     if r = [] then Some (roomId, capacity, ms) else None
   }"

record game_start =
  g_matchId :: u32
  g_tickRate :: u16
  g_tileUnit :: u16
  g_width :: u8
  g_height :: u8
  g_tiles :: bytes
  g_spawns :: "(u32 \<times> i32 \<times> i32) list"

definition get_spawn :: "bytes \<Rightarrow> ((u32 \<times> i32 \<times> i32) \<times> bytes) option" where
  "get_spawn bs = do {
     (pid, r) \<leftarrow> get_u32 bs;
     (x, r) \<leftarrow> get_u32 r;
     (y, r) \<leftarrow> get_u32 r;
     Some ((pid, x, y), r)
   }"

definition parse_game_start :: "bytes \<Rightarrow> game_start option" where
  "parse_game_start bs = do {
     (m, r) \<leftarrow> get_u32 bs;
     (tick, r) \<leftarrow> get_u16 r;
     (unit, r) \<leftarrow> get_u16 r;
     (wd, r) \<leftarrow> get_u8 r;
     (ht, r) \<leftarrow> get_u8 r;
     (tiles, r) \<leftarrow> get_many get_u8 (unat wd * unat ht) r;
     (count, r) \<leftarrow> get_u16 r;
     (sp, r) \<leftarrow> get_many get_spawn (unat count) r;
     if r = [] then Some \<lparr>g_matchId = m, g_tickRate = tick, g_tileUnit = unit, g_width = wd,
       g_height = ht, g_tiles = tiles, g_spawns = sp\<rparr> else None
   }"

section \<open>Round trips\<close>

lemma get_u8_Cons [simp]: "get_u8 (b # r) = Some (b, r)"
  by (simp add: get_u8_def)

lemma get_u16_le16 [simp]: "get_u16 (le16 v @ r) = Some (v, r)"
  by (simp add: get_u16_def of_le16_append)

lemma get_u32_le32 [simp]: "get_u32 (le32 v @ r) = Some (v, r)"
  by (simp add: get_u32_def of_le32_append)

lemma get_str_append [simp]:
  "length s < 65536 \<Longrightarrow> get_str (le16 (of_nat (length s)) @ s @ r) = Some (s, r)"
  by (simp add: get_str_def unsigned_of_nat take_bit_nat_eq_self)

lemma write_members_append:
  "write_members ms w = w @ concat (map (\<lambda>(pid, rdy, nm).
     le32 pid @ [if rdy then 1 else 0] @ le16 (of_nat (length nm)) @ nm) ms)"
  by (induction ms w rule: write_members.induct) (simp_all add: codec_simps)

lemma get_members:
  assumes "\<And>m. m \<in> set ms \<Longrightarrow> length (snd (snd m)) < 65536"
  shows "get_many get_member (length ms) (concat (map (\<lambda>(pid, rdy, nm).
     le32 pid @ [if rdy then 1 else 0] @ le16 (of_nat (length nm)) @ nm) ms) @ r) = Some (ms, r)"
  using assms
proof (induction ms)
  case Nil
  then show ?case by simp
next
  case (Cons m ms)
  obtain pid rdy nm where m: "m = (pid, rdy, nm)" by (cases m) auto
  have "length nm < 65536" using Cons.prems [of m] m by simp
  with Cons show ?case by (simp add: m get_member_def)
qed

lemma room_state_decodes:
  assumes "length ms < 65536" and "\<And>m. m \<in> set ms \<Longrightarrow> length (snd (snd m)) < 65536"
  shows "parse_room_state (room_state_body roomId cap ms) = Some (ucast roomId, cap, ms)"
proof -
  have c: "unat (of_nat (length ms) :: u16) = length ms"
    using assms(1) by (simp add: unsigned_of_nat take_bit_nat_eq_self)
  show ?thesis
    using get_members [of ms "[]", OF assms(2)]
    by (simp add: parse_room_state_def room_state_body_def write_members_append codec_simps c)
qed


section \<open>The start packet\<close>

text \<open>The tiles in row-major order, as a list.\<close>

definition map_tiles :: "u8 list" where
  "map_tiles = concat (map (\<lambda>y. map (\<lambda>x. if IsWallTile x y then 1 else 0) [0 .. 14]) [0 .. 12])"

lemma foldl_w_U8: "foldl (\<lambda>w x. w_U8 (f x) w) w xs = w @ map f xs"
  by (induction xs arbitrary: w) (simp_all add: w_U8_def)

lemma foldl_append_concat: "foldl (\<lambda>w y. w @ g y) w ys = w @ concat (map g ys)"
  by (induction ys arbitrary: w) simp_all

lemma write_tiles_append [codec_simps]: "write_tiles w = w @ map_tiles"
  by (simp add: write_tiles_def map_tiles_def foldl_w_U8 foldl_append_concat MAP_WIDTH_def MAP_HEIGHT_def)

text \<open>The drawing of docs/protocol-v1.md, section 5.\<close>

definition map_drawing :: "string list" where
  "map_drawing =
    [''###############'',
     ''#.............#'',
     ''#.#.#.#.#.#.#.#'',
     ''#.............#'',
     ''#.#.#.#.#.#.#.#'',
     ''#.............#'',
     ''#.#.#.#.#.#.#.#'',
     ''#.............#'',
     ''#.#.#.#.#.#.#.#'',
     ''#.............#'',
     ''#.#.#.#.#.#.#.#'',
     ''#.............#'',
     ''###############'']"

lemma map_tiles_drawing: "map_tiles = map (\<lambda>c. if c = CHR ''#'' then 1 else 0) (concat map_drawing)"
  by code_simp

lemma length_map_tiles [simp]: "length map_tiles = 195"
  by (simp add: map_tiles_drawing map_drawing_def)

lemma get_many_u8: "get_many get_u8 (length xs) (xs @ r) = Some (xs, r)"
  by (induction xs) simp_all

text \<open>The spawn of the \<open>i\<close>-th member: the two tiles alternate.\<close>

definition spawn_xy :: "nat \<Rightarrow> i32 \<times> i32" where
  "spawn_xy i = (if i mod 2 = 0 then (1500, 1500) else (13500, 11500))"

definition spawns_from :: "nat \<Rightarrow> u32 list \<Rightarrow> (u32 \<times> i32 \<times> i32) list" where
  "spawns_from i ids = map (\<lambda>(j, pid). (pid, spawn_xy (i + j))) (enumerate 0 ids)"

lemma spawns_from_Cons: "spawns_from i (pid # ids) = (pid, spawn_xy i) # spawns_from (Suc i) ids"
proof -
  have "enumerate (Suc 0) ids = map (\<lambda>(j, p). (Suc j, p)) (enumerate 0 ids)"
    by (rule nth_equalityI) (simp_all add: nth_enumerate_eq)
  then show ?thesis by (simp add: spawns_from_def comp_def case_prod_unfold)
qed

lemma TileCenter_values:
  "TileCenter 1 = 1500" "TileCenter 13 = 13500" "TileCenter 11 = 11500"
  by (simp_all add: TileCenter_def TILE_UNIT_def)

lemma write_spawns_append:
  "write_spawns i ids w = w @ concat (map (\<lambda>(pid, x, y). le32 pid @ le32 x @ le32 y) (spawns_from i ids))"
proof (induction i ids w rule: write_spawns.induct)
  case (1 i w)
  then show ?case by (simp add: spawns_from_def)
next
  case (2 i pid ids w)
  have "i mod 2 = 0 \<or> i mod 2 = 1" by presburger
  then show ?case
    using 2 [OF refl]
    by (elim disjE) (simp_all add: spawns_from_Cons codec_simps spawnTile_def spawn_xy_def TileCenter_values)
qed

lemma get_spawns: "get_many get_spawn (length sp) (concat (map (\<lambda>(pid, x, y). le32 pid @ le32 x @ le32 y) sp) @ r) = Some (sp, r)"
  by (induction sp) (auto simp: get_spawn_def)

lemma game_start_decodes:
  assumes "length ids < 65536"
  shows "parse_game_start (game_start_body matchId ids) =
    Some \<lparr>g_matchId = matchId, g_tickRate = TICK_RATE, g_tileUnit = TILE_UNIT, g_width = MAP_WIDTH,
      g_height = MAP_HEIGHT, g_tiles = map_tiles, g_spawns = spawns_from 0 ids\<rparr>"
proof -
  have c: "unat (of_nat (length ids) :: u16) = length (spawns_from 0 ids)"
    using assms by (simp add: unsigned_of_nat take_bit_nat_eq_self spawns_from_def)
  have t: "unat MAP_WIDTH * unat MAP_HEIGHT = length map_tiles"
    by (simp add: MAP_WIDTH_def MAP_HEIGHT_def)
  show ?thesis
    using get_spawns [of "spawns_from 0 ids" "[]"]
    by (simp add: parse_game_start_def game_start_body_def Let_def codec_simps write_spawns_append c t get_many_u8
        del: length_map_tiles)
qed

lemma length_spawns_from [simp]: "length (spawns_from i ids) = length ids"
  by (simp add: spawns_from_def)

lemma length_game_start_body:
  "length (game_start_body matchId ids) = 207 + 12 * length ids"
proof -
  have "length (concat (map (\<lambda>(pid, x, y). le32 pid @ le32 x @ le32 y) sp)) = 12 * length sp"
    for sp :: "(u32 \<times> i32 \<times> i32) list"
    by (induction sp) auto
  then show ?thesis
    by (simp add: game_start_body_def Let_def codec_simps write_spawns_append)
qed

end
