(* ===== verification/Transport_Properties.thy ===== *)
theory Transport_Properties
  imports Framing_Facts Wire_Format
begin

text \<open>
  What the receive ring, the sessions and the framing loop promise, each at a concrete input
  too. \<open>demo\<close> states are a server with one session.
\<close>

section \<open>Concrete states\<close>

definition demo_session :: session where
  "demo_session = new_Session 7 (replicate 8192 0)"

definition demo_io :: io where
  "demo_io = \<lparr>sessions = [3 \<mapsto> demo_session], srvState = Running, jobQueue = [], trace = [], sysResult = (\<lambda>_. IoStarted)\<rparr>"

lemma demo_session_ok [simp]: "session_ok demo_session" "framed demo_session" "rb_ok (s_recvRing demo_session)"
  by (simp_all add: demo_session_def new_Session_ok new_Session_framed) (simp add: new_Session_def new_ring_ok)

lemma demo_session_fields [simp]: "s_state demo_session = Connected" "rb_contents (s_recvRing demo_session) = []"
  "s_sock demo_session = Some 7" "s_gameCleanupDone demo_session = False" "s_recvPosted demo_session = False"
  "s_pendingIO demo_session = 0" "s_destroying demo_session = False" "s_closeIssued demo_session = False"
  by (simp_all add: demo_session_def new_Session_def)

lemma demo_io_fields [simp]: "sessions demo_io 3 = Some demo_session" "srvState demo_io = Running" "jobQueue demo_io = []"
  "trace demo_io = []" "sysResult demo_io i = IoStarted" "IsShuttingDown demo_io = False" "sessions demo_io = [3 \<mapsto> demo_session]"
  by (simp_all add: demo_io_def IsShuttingDown_def)

lemma demo_open: "open_session 3 [] demo_io"
  by (simp add: open_session_def frames_wait)

section \<open>The ring\<close>

text \<open>Writing to a well-formed receive ring appends exactly the given bytes when they fit the
  8192-byte array, across the wrap-around as well, and is refused without any effect when they do
  not fit; it never leaves the array.\<close>

lemma ring_write_appends_or_refuses:
  assumes "rb_ok r" and "n \<le> length src" and "n < 2 ^ 32"
  shows "\<exists>ok r'. rb_Write r src (int n) = Some (ok, r') \<and> rb_ok r' \<and>
    (ok \<longleftrightarrow> length (rb_contents r) + n \<le> 8192) \<and>
    rb_contents r' = rb_contents r @ (if ok then take n src else []) \<and> (\<not> ok \<longrightarrow> r' = r)"
proof (cases "length (rb_contents r) + n \<le> 8192")
  case True
  then show ?thesis using ring.put_ok [OF assms(1) True assms(2)] by (auto simp del: length_rb_contents)
next
  case False
  then show ?thesis using ring.put_full [OF assms(1) _ assms(3), of src] assms(1)
    by (intro exI [of _ False] exI [of _ r]) simp
qed

text \<open>Reading from a well-formed ring returns the oldest bytes in order and removes exactly
  them; when fewer bytes are stored than asked for, nothing is copied and nothing is removed.\<close>

lemma ring_read_takes_oldest:
  assumes "rb_ok r" and "n \<le> length dst" and "n < 2 ^ 32"
  shows "\<exists>ok d r'. rb_Read r dst (int n) = Some (ok, d, r') \<and> rb_ok r' \<and>
    (ok \<longleftrightarrow> n \<le> length (rb_contents r)) \<and>
    (if ok then d = take n (rb_contents r) @ drop n dst \<and> rb_contents r' = drop n (rb_contents r)
     else d = dst \<and> r' = r)"
proof (cases "n \<le> length (rb_contents r)")
  case True
  have u: "unat (size_of_int (int n)) = n" using assms(3) by (simp add: unat_size_of_int)
  show ?thesis
    using rb_Read_ok [OF assms(1) True assms(2)] ring.skip_ok [OF assms(1), of "size_of_int (int n)"] True u by auto
next
  case False
  then have "rb_Peek r dst (int n) = Some (False, dst)" using rb_Peek_short assms(3) by simp
  then show ?thesis using False assms(1)
    by (intro exI [of _ False] exI [of _ dst] exI [of _ r]) (simp add: rb_Read_def)
qed

text \<open>C35: The receive ring of an open session never overflows: whatever a receive completion of
  at most 4096 bytes brings fits behind the fewer than 4096 bytes the framing loop leaves, so
  the close-on-overflow branch of \<open>OnRecvComplete\<close> is never taken.\<close>

theorem recv_ring_never_overflows:
  fixes n :: u32
  assumes "session_ok x" and "framed x" and "s_state x = Connected" and "unat n \<le> BUFFER_SIZE"
  shows "\<exists>r. rb_Write (s_recvRing x) (s_recvBuf x) (sint n) = Some (True, r) \<and> rb_ok r \<and>
    rb_contents r = rb_contents (s_recvRing x) @ take (unat n) (s_recvBuf x) \<and> length (rb_contents r) < 8192"
proof -
  have "length (rb_contents (s_recvRing x)) < 4096" using framed_length [OF assms(2,3)] .
  then show ?thesis
    using recv_write_fits [OF assms] assms(4) by (auto simp: BUFFER_SIZE_def simp del: length_rb_contents)
qed

theorem recv_ring_never_overflows_witness:
  "\<exists>r. rb_Write (s_recvRing demo_session) (s_recvBuf demo_session) (sint (4096 :: u32)) = Some (True, r) \<and>
    length (rb_contents r) < 8192"
  using recv_ring_never_overflows [of demo_session 4096] by (auto simp: BUFFER_SIZE_def)

section \<open>Framing\<close>

text \<open>C1: The receive handler is the stream specification: on an open session it cuts the
  buffered bytes followed by the new ones into packets as \<open>frames\<close> does, hands each packet to
  \<open>ProcessPacket\<close> in order, keeps exactly the unfinished rest in the ring, and then closes the
  session if an invalid length was met and posts the next receive otherwise.\<close>

theorem receive_handler_refines_frames:
  assumes "sessions w s = Some x" and "session_ok x" and "framed x" and "s_state x = Connected"
    and "n \<noteq> 0" and "unat n \<le> BUFFER_SIZE"
    and "frames (rb_contents (s_recvRing x) @ take (unat n) (s_recvBuf x)) = (ps, rest, bad)"
  shows "\<exists>w1 r. for_each (ProcessPacket s) ps
      (put_session s (x\<lparr>s_recvPosted := False, s_pendingIO := s_pendingIO x - 1\<rparr>) w) = Some w1 \<and>
    rb_ok r \<and> rb_contents r = rest \<and>
    OnRecvComplete s n True w = (if bad then RequestClose s (upd_ring s r w1) else PostRecv s (upd_ring s r w1))"
  using OnRecvComplete_frames [OF assms] by (auto simp: recv_entry_def)

theorem receive_handler_refines_frames_witness:
  "\<exists>r. rb_contents r = [0, 0] \<and> OnRecvComplete 3 2 True demo_io =
    PostRecv 3 (upd_ring 3 r (put_session 3 (demo_session\<lparr>s_recvPosted := False, s_pendingIO := - 1\<rparr>) demo_io))"
proof -
  have "take 2 (s_recvBuf demo_session) = [0, 0]"
    by (simp add: demo_session_def new_Session_def BUFFER_SIZE_def numeral_2_eq_2)
  then have "frames (rb_contents (s_recvRing demo_session) @ take (unat (2 :: u32)) (s_recvBuf demo_session)) = ([], [0, 0], False)"
    by (simp add: frames_wait)
  from receive_handler_refines_frames [OF _ _ _ _ _ _ this, of demo_io 3] show ?thesis
    by (auto simp: BUFFER_SIZE_def)
qed

text \<open>C2: Packets survive any segmentation of the stream: if a client's packets, valid and with
  known ids, arrive concatenated and cut into arbitrary receive completions of 1 to 4096 bytes,
  then exactly these packets are queued for the game thread, in order, each with its full body,
  and the session stays open with an empty ring.\<close>

theorem any_segmentation_delivers_the_packets:
  assumes "open_session s [] w"
    and "list_all (\<lambda>p. packet_ok p \<and> IsKnownPacketId (h_id (header p))) ps"
    and "concat chunks = concat (map encode_packet ps)"
    and "list_all (\<lambda>c. c \<noteq> [] \<and> length c \<le> BUFFER_SIZE) chunks"
  shows "\<exists>w'. for_each (deliver s) chunks w = Some w' \<and> open_session s [] w' \<and>
    jobQueue w' = jobQueue w @ map (\<lambda>p. PacketJob s (header p) (body p)) ps"
proof -
  have ok: "list_all packet_ok ps" "list_all (\<lambda>p. IsKnownPacketId (h_id (header p))) ps"
    using assms(2) by (auto simp: list_all_iff)
  have "frames ([] @ concat chunks) = (ps, [], False)"
    using frames_encode_all [OF ok(1), of "[]"] assms(3) by (simp add: frames_wait)
  from deliver_stream [OF assms(1) this ok(2) assms(4)] show ?thesis
    by (simp add: packet_job_def [abs_def])
qed

definition demo_hello :: Packet where
  "demo_hello = \<lparr>header = \<lparr>h_size = 6, h_id = 10\<rparr>, body = [1, 0]\<rparr>"

theorem any_segmentation_delivers_the_packets_witness:
  "\<exists>w'. for_each (deliver 3) [[6], [0, 10, 0, 1], [0]] demo_io = Some w' \<and>
    jobQueue w' = [PacketJob 3 \<lparr>h_size = 6, h_id = 10\<rparr> [1, 0]]"
proof -
  have "encode_packet demo_hello = [6, 0, 10, 0, 1, 0]"
    by (simp add: encode_packet_def demo_hello_def header_bytes_def le16_def)
  moreover have "packet_ok demo_hello" "IsKnownPacketId (h_id (header demo_hello))"
    by (simp_all add: packet_ok_def IsValid_iff demo_hello_def IsKnownPacketId_def)
  ultimately show ?thesis
    using any_segmentation_delivers_the_packets [OF demo_open, of "[demo_hello]" "[[6], [0, 10, 0, 1], [0]]"]
    by (auto simp: BUFFER_SIZE_def demo_hello_def)
qed

text \<open>The receive completion handler is memory safe and keeps the books: for any outcome and
  any transferred count up to the posted 4096 bytes it returns, keeps every session well formed,
  appends only valid packet jobs and disconnect jobs, and lowers the session's pending-I/O counter
  by exactly one against the operations it starts.\<close>

lemma receive_completion_safe:
  assumes "sessions w s = Some x" and "session_ok x" and "framed x" and "unat n \<le> BUFFER_SIZE"
  shows "\<exists>w'. OnRecvComplete s n success w = Some w' \<and>
    (\<forall>t. sessions w' t = None \<longleftrightarrow> sessions w t = None) \<and>
    (\<exists>js. jobQueue w' = jobQueue w @ js \<and> list_all session_job js) \<and>
    (\<exists>x'. sessions w' s = Some x' \<and> session_ok x' \<and> framed x' \<and>
       s_pendingIO x' = s_pendingIO x - 1 + (of_nat (started s w') - of_nat (started s w)))"
proof -
  obtain w' where w': "OnRecvComplete s n success w = Some w'" and e: "io_effect s (- 1) w w'"
    using OnRecvComplete_total [OF assms] by blast
  have dom: "\<forall>t. (sessions w t = None) = (sessions w' t = None)" using e by (simp add: io_effect_def)
  have "sessions w' s \<noteq> None" using assms(1) dom by (metis option.distinct(1))
  then obtain x' where x': "sessions w' s = Some x'" by blast
  have "session_ok x \<and> framed x \<longrightarrow> session_ok x' \<and> framed x'"
    "s_pendingIO x' - of_nat (started s w') = s_pendingIO x - of_nat (started s w) - 1"
    using e assms(1) x' unfolding io_effect_def by auto
  moreover have "\<exists>js. jobQueue w' = jobQueue w @ js \<and> list_all session_job js"
    using e by (auto simp: io_effect_def dest: close_jobsD)
  ultimately show ?thesis using w' dom x' assms(2,3) by (auto simp: algebra_simps)
qed

section \<open>Sessions\<close>

text \<open>C16: Closing a session is idempotent and leaves exactly one trace: the first request on an open
  session closes its socket once and queues one disconnect job, further requests do nothing, and
  afterwards the session is \<open>Closed\<close> without a socket.\<close>

theorem close_happens_once:
  assumes "sessions w s = Some x" and "session_ok x"
  shows "\<exists>w' x'. RequestClose s w = Some w' \<and> RequestClose s w' = Some w' \<and>
    sessions w' s = Some x' \<and> s_state x' = Closed \<and> s_sock x' = None \<and>
    jobQueue w' = jobQueue w @ (if s_state x = Connected then [DisconnectJob s] else []) \<and>
    trace w' = trace w @ (if s_state x = Connected then [CloseSocket (the (s_sock x))] else [])"
proof (cases "s_state x = Connected")
  case True
  from RequestClose_open [OF assms True] obtain k where k: "s_sock x = Some k" "RequestClose s w =
    Some (push_job (DisconnectJob s) (add_call (CloseSocket k) (put_session s (closed_session x) w)))" by blast
  let ?w = "push_job (DisconnectJob s) (add_call (CloseSocket k) (put_session s (closed_session x) w))"
  have "RequestClose s ?w = Some ?w"
    by (rule RequestClose_closed [of _ _ "closed_session x"]) (simp_all add: closed_session_def)
  then show ?thesis using k True by (intro exI [of _ ?w] exI [of _ "closed_session x"]) (simp add: closed_session_def)
next
  case False
  then have "s_state x = Closed \<and> s_sock x = None" using assms(2) by (auto simp: session_ok_def split: if_splits)
  then show ?thesis using RequestClose_closed [OF assms(1) False] assms(1) False by auto
qed

theorem close_happens_once_witness:
  "\<exists>w'. RequestClose 3 demo_io = Some w' \<and> jobQueue w' = [DisconnectJob 3] \<and> trace w' = [CloseSocket 7]"
  using close_happens_once [of demo_io 3 demo_session] by auto

text \<open>C32: A packet the server sends is one well-formed frame: when sending is allowed and the call is
  accepted, exactly one send call goes out, whose bytes the stream rules cut back into a single
  packet with the given id and body, and one more operation is pending.\<close>

theorem sent_packet_is_one_frame:
  assumes "send_allowed s pid w" and "syscall_result w = IoStarted" and "length d \<le> 4092"
  shows "\<exists>w' b x x'. SendPacket s pid (Some d) (of_nat (length d)) w = Some w' \<and>
    trace w' = trace w @ [WSASend s b] \<and> jobQueue w' = jobQueue w \<and>
    frames b = ([\<lparr>header = \<lparr>h_size = of_nat (4 + length d), h_id = pid\<rparr>, body = d\<rparr>], [], False) \<and>
    sessions w s = Some x \<and> sessions w' s = Some x' \<and> s_pendingIO x' = s_pendingIO x + 1"
proof -
  let ?p = "\<lparr>header = \<lparr>h_size = of_nat (4 + length d), h_id = pid\<rparr>, body = d\<rparr>"
  have "unat (of_nat (4 + length d) :: u16) = 4 + length d"
    using assms(3) by (simp only: unsigned_of_nat) (simp add: take_bit_nat_eq_self)
  then have "packet_ok ?p" using assms(3) by (simp add: packet_ok_def IsValid_iff del: of_nat_add)
  then have "frames (packet_bytes pid d) = ([?p], [], False)"
    using frames_encode_append [of ?p "[]"] by (simp add: packet_bytes_def encode_packet_def frames_wait del: of_nat_add)
  with SendPacket_sent [OF assms(1,2,3) refl] show ?thesis by auto
qed

theorem sent_packet_is_one_frame_witness:
  "\<exists>w' b. SendPacket 3 30 (Some [1, 2]) 2 demo_io = Some w' \<and> trace w' = [WSASend 3 b] \<and>
    frames b = ([\<lparr>header = \<lparr>h_size = 6, h_id = 30\<rparr>, body = [1, 2]\<rparr>], [], False)"
  using sent_packet_is_one_frame [of 3 30 demo_io "[1, 2]"] by (auto simp: send_allowed_def syscall_result_def)

text \<open>Nothing is sent in the cases the code refuses: on a session that is not open or while the
  server shuts down, unless it is the shutdown notice; for a body over 4092 bytes; and for a
  positive size without data.\<close>

lemma refused_send_has_no_effect:
  assumes "sessions w s = Some x"
    and "pid \<noteq> pkt PKT_SC_SHUTDOWN \<and> (s_state x \<noteq> Connected \<or> IsShuttingDown w) \<or> 4092 < unat n \<or> (n \<noteq> 0 \<and> data = None)"
  shows "SendPacket s pid data n w = Some w"
proof (cases "4092 < unat n \<or> pid \<noteq> pkt PKT_SC_SHUTDOWN \<and> (s_state x \<noteq> Connected \<or> IsShuttingDown w)")
  case True
  then show ?thesis using SendPacket_too_big [OF assms(1)] SendPacket_refused [OF assms(1)] by blast
next
  case False
  with assms(2) have "n > 0" "data = None" by (auto simp: word_gt_0)
  then show ?thesis using assms(1) by (simp add: SendPacket_def Let_def)
qed

text \<open>C31: At most one receive is outstanding: on an open session without one, \<open>PostRecv\<close> starts one
  receive and counts it, and a second call changes nothing until the completion; when the call
  fails, the count is taken back and the session is closed with one disconnect job.\<close>

theorem one_receive_outstanding:
  assumes "sessions w s = Some x" and "session_ok x" and "s_state x = Connected" and "\<not> s_recvPosted x"
  shows "\<exists>w' x'. PostRecv s w = Some w' \<and> PostRecv s w' = Some w' \<and> sessions w' s = Some x' \<and>
    (case syscall_result w of
       IoStarted \<Rightarrow> trace w' = trace w @ [WSARecv s] \<and> jobQueue w' = jobQueue w \<and>
         s_recvPosted x' \<and> s_pendingIO x' = s_pendingIO x + 1 \<and> s_state x' = Connected
     | IoFailed \<Rightarrow> trace w' = trace w @ [WSARecv s, CloseSocket (the (s_sock x))] \<and>
         jobQueue w' = jobQueue w @ [DisconnectJob s] \<and>
         \<not> s_recvPosted x' \<and> s_pendingIO x' = s_pendingIO x \<and> s_state x' = Closed)"
proof (cases "syscall_result w")
  case IoStarted
  from PostRecv_posted [OF assms(1,3,4) IoStarted] IoStarted assms(3) show ?thesis
    by (simp add: PostRecv_def)
next
  case IoFailed
  let ?x = "x\<lparr>s_recvPosted := False, s_pendingIO := s_pendingIO x\<rparr>"
  let ?w = "put_session s ?x (add_call (WSARecv s) w)"
  have ok: "sessions ?w s = Some ?x" "session_ok ?x" "s_state ?x = Connected"
    using assms(2,3) by (auto simp: session_ok_def split: if_splits)
  from RequestClose_open [OF ok] obtain k where k: "s_sock x = Some k" "RequestClose s ?w =
    Some (push_job (DisconnectJob s) (add_call (CloseSocket k) (put_session s (closed_session ?x) ?w)))" by auto
  have "PostRecv s w = RequestClose s ?w"
    using IoFailed assms by (simp add: PostRecv_def Let_def put_session_def add_call_def)
  then show ?thesis
    using k IoFailed by (simp add: closed_session_def PostRecv_def)
qed

theorem one_receive_outstanding_witness:
  "\<exists>w'. PostRecv 3 demo_io = Some w' \<and> PostRecv 3 w' = Some w' \<and> trace w' = [WSARecv 3]"
  using one_receive_outstanding [of demo_io 3 demo_session] by (auto simp: syscall_result_def)

text \<open>C33: A malformed packet costs the connection: on an open session of a running server, for a packet
  with an invalid size or an unknown id the KICK packet is sent and the socket closed, and the
  disconnect job is queued, once, and nothing else; this is so whether the operating system accepts
  the send or fails it, in which case the failed send has closed the session already.\<close>

theorem bad_packet_kicks:
  assumes "sessions w s = Some x" and "session_ok x" and "s_state x = Connected" and "\<not> IsShuttingDown w"
    and "\<not> IsValid p \<or> \<not> IsKnownPacketId (h_id (header p))"
  shows "\<exists>w' x'. ProcessPacket s p w = Some w' \<and>
    trace w' = trace w @ [WSASend s (header_bytes \<lparr>h_size = 4, h_id = 1001\<rparr>), CloseSocket (the (s_sock x))] \<and>
    jobQueue w' = jobQueue w @ [DisconnectJob s] \<and> sessions w' s = Some x' \<and> s_state x' = Closed"
proof -
  have "send_allowed s (pkt PKT_SC_KICK) w" using assms(1,3,4) by (simp add: send_allowed_def)
  from send_then_close [OF assms(1-3) this] obtain w1 w2 x' k where "s_sock x = Some k"
    "SendPacket s (pkt PKT_SC_KICK) None 0 w = Some w1" "RequestClose s w1 = Some w2"
    "trace w2 = trace w @ [WSASend s (packet_bytes (pkt PKT_SC_KICK) []), CloseSocket k]"
    "jobQueue w2 = jobQueue w @ [DisconnectJob s]" "sessions w2 s = Some x'" "s_state x' = Closed"
    by (elim exE conjE) (rule that)
  moreover have "packet_bytes 1001 [] = header_bytes \<lparr>h_size = 4, h_id = 1001\<rparr>" by (simp add: packet_bytes_def)
  moreover have "ProcessPacket s p w = do { w1 \<leftarrow> SendPacket s (pkt PKT_SC_KICK) None 0 w; RequestClose s w1 }"
    by (rule ProcessPacket_kick [OF assms(1) _ assms(4,5)]) (simp add: assms(3))
  ultimately show ?thesis by simp
qed

theorem bad_packet_kicks_witness:
  "\<exists>w'. ProcessPacket 3 \<lparr>header = \<lparr>h_size = 4, h_id = 77\<rparr>, body = []\<rparr> (demo_io\<lparr>sysResult := (\<lambda>_. IoFailed)\<rparr>) = Some w' \<and>
    jobQueue w' = [DisconnectJob 3]"
  using bad_packet_kicks [of "demo_io\<lparr>sysResult := (\<lambda>_. IoFailed)\<rparr>" 3 demo_session "\<lparr>header = \<lparr>h_size = 4, h_id = 77\<rparr>, body = []\<rparr>"]
  by (auto simp: IsShuttingDown_def IsKnownPacketId_def)

text \<open>C34: The kick does not stop the packets behind it: the test in \<open>ProcessPacket\<close> is for \<open>Closing\<close>
  only, and \<open>RequestClose\<close> leaves the session \<open>Closed\<close>, so a valid packet of a closed session is
  still queued, after the session's disconnect job.\<close>

theorem closed_session_still_queues_packets:
  assumes "sessions w s = Some x" and "session_ok x" and "s_state x = Connected" and "\<not> IsShuttingDown w"
    and "packet_ok p" and "IsKnownPacketId (h_id (header p))"
  shows "\<exists>w1 w2. RequestClose s w = Some w1 \<and> ProcessPacket s p w1 = Some w2 \<and>
    jobQueue w2 = jobQueue w @ [DisconnectJob s, PacketJob s (header p) (body p)]"
proof -
  from RequestClose_open [OF assms(1-3)] obtain k where k: "RequestClose s w =
    Some (push_job (DisconnectJob s) (add_call (CloseSocket k) (put_session s (closed_session x) w)))" (is "_ = Some ?w1") by blast
  have "ProcessPacket s p ?w1 = Some (push_job (PacketJob s (header p) (body p)) ?w1)"
    using assms(4-6) by (intro ProcessPacket_queued [of _ _ "closed_session x"])
      (auto simp: closed_session_def packet_ok_def IsShuttingDown_def)
  with k show ?thesis by simp
qed

theorem closed_session_still_queues_packets_witness:
  "\<exists>w1 w2. RequestClose 3 demo_io = Some w1 \<and> ProcessPacket 3 demo_hello w1 = Some w2 \<and>
    jobQueue w2 = [DisconnectJob 3, PacketJob 3 \<lparr>h_size = 6, h_id = 10\<rparr> [1, 0]]"
  using closed_session_still_queues_packets [of demo_io 3 demo_session demo_hello]
  by (auto simp: demo_hello_def packet_ok_def IsValid_iff IsKnownPacketId_def)

section \<open>The queue\<close>

fun pop_all :: "nat \<Rightarrow> GameJobQueue \<Rightarrow> GameJob list \<times> GameJobQueue" where
  "pop_all 0 q = ([], q)"
| "pop_all (Suc n) q = (case Pop q of None \<Rightarrow> ([], q) | Some (j, q') \<Rightarrow> map_prod (Cons j) id (pop_all n q'))"

lemma pop_all_pop_n: "pop_all n q = jobs.pop_n n q"
  by (induction n arbitrary: q) (auto split: option.splits prod.splits)

lemma foldl_Push: "foldl Push q js = jobs.push_all q js"
  by (induction js arbitrary: q) simp_all

text \<open>The job queue is first in, first out: after any jobs were pushed onto an empty queue, popping
  as many returns exactly these jobs in the order of their pushes and leaves the queue empty, where
  the next pop reports that there is none.\<close>

lemma job_queue_first_in_first_out:
  "pop_all (length js) (foldl Push [] js) = (js, []) \<and> Pop (snd (pop_all (length js) (foldl Push [] js))) = None"
proof -
  have "jobs.push_all [] js = js" using jobs.pending_push_all [of "[]" js] by simp
  moreover have "snd (jobs.pop_n (length js) js) = []" using jobs.pop_n_pending [of "length js" js] by simp
  ultimately show ?thesis
    using jobs.first_in_first_out [of "[]" js] by (simp add: pop_all_pop_n foldl_Push prod_eq_iff)
qed

section \<open>Wire formats\<close>

text \<open>C36: A client that reads SC_ROOM_STATE by the layout of docs/protocol-v1.md gets back the room's
  number, its capacity and the members in order, each with id, readiness and name, whatever the
  names contain.\<close>

theorem room_state_round_trip:
  assumes "length ms < 65536" and "\<forall>m \<in> set ms. length (snd (snd m)) < 65536"
  shows "parse_room_state (room_state_body roomId cap ms) = Some (ucast roomId, cap, ms)"
  using room_state_decodes assms by blast

theorem room_state_round_trip_witness:
  "parse_room_state (room_state_body 100 2 [(1, True, [65]), (2, False, [])]) = Some (100, 2, [(1, True, [65]), (2, False, [])])"
  using room_state_round_trip [of "[(1, True, [65]), (2, False, [])]" 100 2] by simp

text \<open>C37: A client that reads SC_GAME_START by the layout of docs/protocol-v1.md gets the match number,
  the tick rate 20, the tile unit 1000, the 15 by 13 map exactly as the document draws it, and each
  player's spawn: the members in order, alternating between the centres of tile (1,1) and (13,11),
  in thousandths; a match of two is 231 bytes.\<close>

theorem game_start_round_trip:
  assumes "length ids < 65536"
  shows "\<exists>g. parse_game_start (game_start_body matchId ids) = Some g \<and> g_matchId g = matchId \<and>
    g_tickRate g = 20 \<and> g_tileUnit g = 1000 \<and> g_width g = 15 \<and> g_height g = 13 \<and>
    g_tiles g = map (\<lambda>c. if c = CHR ''#'' then 1 else 0) (concat map_drawing) \<and>
    map fst (g_spawns g) = ids \<and>
    (\<forall>i < length ids. snd (g_spawns g ! i) = (if even i then (1500, 1500) else (13500, 11500))) \<and>
    length (game_start_body matchId ids) = 207 + 12 * length ids"
proof -
  have "map fst (spawns_from 0 ids) = ids"
    by (rule nth_equalityI) (simp_all add: spawns_from_def nth_enumerate_eq case_prod_unfold)
  moreover have "\<forall>i < length ids. snd (spawns_from 0 ids ! i) = (if even i then (1500, 1500) else (13500, 11500))"
    by (simp add: spawns_from_def nth_enumerate_eq spawn_xy_def even_iff_mod_2_eq_zero)
  ultimately show ?thesis
    using game_start_decodes [OF assms, of matchId] length_game_start_body [of matchId ids]
    by (simp add: TICK_RATE_def TILE_UNIT_def MAP_WIDTH_def MAP_HEIGHT_def map_tiles_drawing)
qed

theorem game_start_round_trip_witness:
  "\<exists>g. parse_game_start (game_start_body 1 [4, 9]) = Some g \<and> map fst (g_spawns g) = [4, 9] \<and>
    length (game_start_body 1 [4, 9]) = 231"
  using game_start_round_trip [of "[4, 9]" 1] by auto

end
