(* ===== verification/Room.thy ===== *)
theory Room
  imports Session_Facts Wire_Format
begin

text \<open>
  Player.h, Player.cpp, Room.h and Room.cpp, over the state of the game thread.

  The game thread owns the players and the rooms. Players are heap objects: \<open>pheap a\<close> is the
  object at address \<open>a\<close>, \<open>None\<close> when nothing lives there, and reading it there is undefined
  behaviour. Rooms live in \<open>rooms\<close>, which owns them through \<open>unique_ptr\<close> and never erases an
  entry, so a \<open>Room*\<close> that points to a live room is its key. A \<open>Player*\<close> in a room's vector is
  never null: \<open>Join\<close> rejects null, so the null tests on vector elements have no branch here.
  The state of the network side is the field \<open>net\<close>: a send changes only that.
\<close>

section \<open>Objects\<close>

datatype PlayerState = PNone | LoggedIn | InRoom | InGame | PClosing

type_synonym paddr = nat
type_synonym room_key = i32

record player =
  p_session :: sid
  p_room :: "room_key option"
  p_name :: bytes
  p_state :: PlayerState
  p_id :: u32
  p_ready :: bool

record room =
  r_id :: u16
  r_players :: "paddr list"
  r_capacity :: u8
  r_started :: bool

datatype fsm_handler = FSM_Login | FSM_EnterRoom | FSM_Chat | FSM_Hello | FSM_JoinRoom | FSM_Ready

type_synonym fsm_table = "PlayerState \<Rightarrow> u16 \<Rightarrow> fsm_handler option"

record game =
  players :: "sid \<Rightarrow> paddr option"
  pheap :: "paddr \<Rightarrow> player option"
  rooms :: "room_key \<Rightarrow> room option"
  nextPlayerId :: u32
  nextGameRoomId :: i32
  nextMatchId :: u32
  running :: bool
  g_FSM :: fsm_table

record world =
  net :: io
  gs :: game

text \<open>\<open>new Player(s)\<close>, and \<open>Room(id)\<close>.\<close>

definition new_Player :: "sid \<Rightarrow> player" where
  "new_Player s = \<lparr>p_session = s, p_room = None, p_name = [], p_state = PNone, p_id = 0, p_ready = False\<rparr>"

definition new_Room :: "u16 \<Rightarrow> room" where
  "new_Room i = \<lparr>r_id = i, r_players = [], r_capacity = 0, r_started = False\<rparr>"

definition IsLoggedIn :: "player \<Rightarrow> bool" where
  "IsLoggedIn p \<longleftrightarrow> p_name p \<noteq> []"

definition IsFull :: "room \<Rightarrow> bool" where
  "IsFull r \<longleftrightarrow> r_capacity r \<noteq> 0 \<and> unat (r_capacity r) \<le> length (r_players r)"

section \<open>Access\<close>

definition put_player :: "paddr \<Rightarrow> player \<Rightarrow> game \<Rightarrow> game" where
  "put_player a p g = g\<lparr>pheap := (pheap g)(a \<mapsto> p)\<rparr>"

definition put_room :: "room_key \<Rightarrow> room \<Rightarrow> game \<Rightarrow> game" where
  "put_room k r g = g\<lparr>rooms := (rooms g)(k \<mapsto> r)\<rparr>"

definition set_player :: "paddr \<Rightarrow> (player \<Rightarrow> player) \<Rightarrow> game \<Rightarrow> game option" where
  "set_player a f g = do { p \<leftarrow> pheap g a; Some (put_player a (f p) g) }"

text \<open>Running a network operation and a game operation on their half of the world.\<close>

definition on_net :: "(io \<Rightarrow> io option) \<Rightarrow> world \<Rightarrow> world option" where
  "on_net f w = do { n \<leftarrow> f (net w); Some (w\<lparr>net := n\<rparr>) }"

definition on_game :: "(game \<Rightarrow> game option) \<Rightarrow> world \<Rightarrow> world option" where
  "on_game f w = do { g \<leftarrow> f (gs w); Some (w\<lparr>gs := g\<rparr>) }"

section \<open>Room membership\<close>

definition Room_Join :: "room_key \<Rightarrow> paddr \<Rightarrow> game \<Rightarrow> game option" where
  "Room_Join k a g = do {
     r \<leftarrow> rooms g k;
     if a \<in> set (r_players r) then Some g
     else set_player a (\<lambda>p. p\<lparr>p_room := Some k\<rparr>) (put_room k (r\<lparr>r_players := r_players r @ [a]\<rparr>) g)
   }"

text \<open>The loop erases the first element that is the player, and returns.\<close>

definition Room_Leave :: "room_key \<Rightarrow> paddr \<Rightarrow> game \<Rightarrow> game option" where
  "Room_Leave k a g = do {
     r \<leftarrow> rooms g k;
     if a \<in> set (r_players r)
     then set_player a (\<lambda>p. p\<lparr>p_room := None\<rparr>) (put_room k (r\<lparr>r_players := remove1 a (r_players r)\<rparr>) g)
     else Some g
   }"

section \<open>Chat\<close>

text \<open>
  \<open>Player::SendChat\<close> fills a body of the announced size by \<open>memcpy\<close> at a moving offset.
\<close>

definition chat_body :: "u32 \<Rightarrow> bytes \<Rightarrow> bytes \<Rightarrow> bytes option" where
  "chat_body senderId senderName msg = do {
     let bodySize = 4 + 2 + length senderName + 2 + length msg;
     let nameLen = (of_nat (length senderName) :: u16);
     let msgLen = (of_nat (length msg) :: u16);
     let b0 = replicate bodySize 0;
     b1 \<leftarrow> memcpy b0 0 (le32 senderId) 0 4;
     b2 \<leftarrow> memcpy b1 4 (le16 nameLen) 0 2;
     b3 \<leftarrow> (if nameLen > 0 then memcpy b2 6 senderName 0 (ucast nameLen) else Some b2);
     let offset = (if nameLen > 0 then 6 + uint nameLen else 6);
     b4 \<leftarrow> memcpy b3 offset (le16 msgLen) 0 2;
     (if msgLen > 0 then memcpy b4 (offset + 2) msg 0 (ucast msgLen) else Some b4)
   }"

definition Player_SendChat :: "paddr \<Rightarrow> u32 \<Rightarrow> bytes \<Rightarrow> bytes \<Rightarrow> world \<Rightarrow> world option" where
  "Player_SendChat a senderId senderName msg w = do {
     p \<leftarrow> pheap (gs w) a;
     let bodySize = 4 + 2 + length senderName + 2 + length msg;
     if bodySize + 4 > unat MAX_PACKET_SIZE then Some w
     else do {
       b \<leftarrow> chat_body senderId senderName msg;
       on_net (SendPacket (p_session p) (pkt PKT_SC_CHAT) (Some b) (of_nat (length b))) w
     }
   }"

text \<open>
  The message is clipped to what fits one packet; the targets are a copy of the vector and
  the sender is skipped.
\<close>

definition Room_BroadcastChat :: "room_key \<Rightarrow> paddr \<Rightarrow> bytes \<Rightarrow> world \<Rightarrow> world option" where
  "Room_BroadcastChat k sender msg w = do {
     sp \<leftarrow> pheap (gs w) sender;
     if p_room sp = None then Some w
     else let headerSize = 4; overhead = 4 + 2 + length (p_name sp) + 2 in
       if headerSize + overhead \<ge> unat MAX_PACKET_SIZE then Some w
       else do {
         let maxMsgLen = unat MAX_PACKET_SIZE - headerSize - overhead;
         let clipped = (if length msg > maxMsgLen then take maxMsgLen msg else msg);
         r \<leftarrow> rooms (gs w) k;
         for_each (\<lambda>target w. if target = sender then Some w
                     else Player_SendChat target (p_id sp) (p_name sp) clipped w) (r_players r) w
       }
   }"

end
