(* ===== verification/Room_Facts.thy ===== *)
theory Room_Facts
  imports Room Framing_Facts
begin

text \<open>
  The well-formedness of the game thread's state and what joining, leaving and sending do to
  it. \<open>game_wf\<close> ties the three views of a player together: the session map, the heap and the
  rooms' vectors; it is what makes every raw pointer of the game thread valid. \<open>quiet\<close> is the
  contract of an operation that only sends. The locale \<open>membership\<close> is the contract of a
  room's vector.
\<close>

section \<open>The vector of a room\<close>

locale membership =
  fixes mem :: "'r \<Rightarrow> 'a list" and enter :: "'a \<Rightarrow> 'r \<Rightarrow> 'r" and leave :: "'a \<Rightarrow> 'r \<Rightarrow> 'r"
  assumes mem_enter: "a \<notin> set (mem r) \<Longrightarrow> mem (enter a r) = mem r @ [a]"
    and mem_enter_again: "a \<in> set (mem r) \<Longrightarrow> mem (enter a r) = mem r"
    and mem_leave: "mem (leave a r) = remove1 a (mem r)"
begin

lemma enter_distinct: "distinct (mem r) \<Longrightarrow> distinct (mem (enter a r)) \<and> set (mem (enter a r)) = insert a (set (mem r))"
  by (cases "a \<in> set (mem r)") (auto simp: mem_enter mem_enter_again)

lemma leave_distinct: "distinct (mem r) \<Longrightarrow> distinct (mem (leave a r)) \<and> set (mem (leave a r)) = set (mem r) - {a}"
  by (simp add: mem_leave set_remove1_eq)

lemma enter_leave: "a \<notin> set (mem r) \<Longrightarrow> mem (leave a (enter a r)) = mem r"
  by (simp add: mem_leave mem_enter remove1_append)

lemma leave_enter_moves_last:
  "distinct (mem r) \<Longrightarrow> a \<in> set (mem r) \<Longrightarrow> mem (enter a (leave a r)) = remove1 a (mem r) @ [a]"
  by (subst mem_enter) (auto simp: mem_leave set_remove1_eq)

end

definition room_enter :: "paddr \<Rightarrow> room \<Rightarrow> room" where
  "room_enter a r = (if a \<in> set (r_players r) then r else r\<lparr>r_players := r_players r @ [a]\<rparr>)"

definition room_leave :: "paddr \<Rightarrow> room \<Rightarrow> room" where
  "room_leave a r = r\<lparr>r_players := remove1 a (r_players r)\<rparr>"

interpretation seats: membership r_players room_enter room_leave
  by unfold_locales (auto simp: room_enter_def room_leave_def)

section \<open>Well-formed game state\<close>

definition game_wf :: "game \<Rightarrow> bool" where
  "game_wf g \<longleftrightarrow>
     (\<forall>s a. players g s = Some a \<longrightarrow> (\<exists>p. pheap g a = Some p \<and> p_session p = s)) \<and>
     (\<forall>a p. pheap g a = Some p \<longrightarrow> players g (p_session p) = Some a) \<and>
     (\<forall>k r a. rooms g k = Some r \<longrightarrow> a \<in> set (r_players r) \<longrightarrow> (\<exists>p. pheap g a = Some p \<and> p_room p = Some k)) \<and>
     (\<forall>a p k. pheap g a = Some p \<longrightarrow> p_room p = Some k \<longrightarrow> (\<exists>r. rooms g k = Some r \<and> a \<in> set (r_players r))) \<and>
     (\<forall>k r. rooms g k = Some r \<longrightarrow> distinct (r_players r))"

lemma game_wfD:
  assumes "game_wf g"
  shows "players g s = Some a \<Longrightarrow> \<exists>p. pheap g a = Some p \<and> p_session p = s"
    and "pheap g a = Some p \<Longrightarrow> players g (p_session p) = Some a"
    and "rooms g k = Some r \<Longrightarrow> a \<in> set (r_players r) \<Longrightarrow> \<exists>p. pheap g a = Some p \<and> p_room p = Some k"
    and "pheap g a = Some p \<Longrightarrow> p_room p = Some k \<Longrightarrow> \<exists>r. rooms g k = Some r \<and> a \<in> set (r_players r)"
    and "rooms g k = Some r \<Longrightarrow> distinct (r_players r)"
  using assms by (simp_all add: game_wf_def)

lemma game_wfI:
  assumes "\<And>s a. players g s = Some a \<Longrightarrow> \<exists>p. pheap g a = Some p \<and> p_session p = s"
    and "\<And>a p. pheap g a = Some p \<Longrightarrow> players g (p_session p) = Some a"
    and "\<And>k r a. rooms g k = Some r \<Longrightarrow> a \<in> set (r_players r) \<Longrightarrow> \<exists>p. pheap g a = Some p \<and> p_room p = Some k"
    and "\<And>a p k. pheap g a = Some p \<Longrightarrow> p_room p = Some k \<Longrightarrow> \<exists>r. rooms g k = Some r \<and> a \<in> set (r_players r)"
    and "\<And>k r. rooms g k = Some r \<Longrightarrow> distinct (r_players r)"
  shows "game_wf g"
  using assms unfolding game_wf_def by blast

lemma put_fields [simp]:
  "players (put_player a p g) = players g" "pheap (put_player a p g) = (pheap g)(a \<mapsto> p)"
  "rooms (put_player a p g) = rooms g" "nextPlayerId (put_player a p g) = nextPlayerId g"
  "nextGameRoomId (put_player a p g) = nextGameRoomId g" "nextMatchId (put_player a p g) = nextMatchId g"
  "running (put_player a p g) = running g" "g_FSM (put_player a p g) = g_FSM g"
  "players (put_room k r g) = players g" "pheap (put_room k r g) = pheap g"
  "rooms (put_room k r g) = (rooms g)(k \<mapsto> r)" "nextPlayerId (put_room k r g) = nextPlayerId g"
  "nextGameRoomId (put_room k r g) = nextGameRoomId g" "nextMatchId (put_room k r g) = nextMatchId g"
  "running (put_room k r g) = running g" "g_FSM (put_room k r g) = g_FSM g"
  by (simp_all add: put_player_def put_room_def)

lemma set_player_Some [simp]: "pheap g a = Some p \<Longrightarrow> set_player a f g = Some (put_player a (f p) g)"
  by (simp add: set_player_def)

text \<open>Changing a player's own fields, but for its session and room, keeps the state well formed.\<close>

lemma wf_put_player:
  assumes wf: "game_wf g" and p: "pheap g a = Some p" "p_session p' = p_session p" "p_room p' = p_room p"
  shows "game_wf (put_player a p' g)"
proof (rule game_wfI)
  fix s b assume "players (put_player a p' g) s = Some b"
  with game_wfD(1) [OF wf, of s b] p show "\<exists>q. pheap (put_player a p' g) b = Some q \<and> p_session q = s"
    by (cases "b = a") auto
next
  fix b q assume "pheap (put_player a p' g) b = Some q"
  with game_wfD(2) [OF wf, of b] game_wfD(2) [OF wf p(1)] p show "players (put_player a p' g) (p_session q) = Some b"
    by (cases "b = a") auto
next
  fix k r b assume "rooms (put_player a p' g) k = Some r" "b \<in> set (r_players r)"
  with game_wfD(3) [OF wf, of k r b] p show "\<exists>q. pheap (put_player a p' g) b = Some q \<and> p_room q = Some k"
    by (cases "b = a") auto
next
  fix b q k assume "pheap (put_player a p' g) b = Some q" "p_room q = Some k"
  with game_wfD(4) [OF wf, of b _ k] p show "\<exists>r. rooms (put_player a p' g) k = Some r \<and> b \<in> set (r_players r)"
    by (cases "b = a") auto
qed (use game_wfD(5) [OF wf] in auto)

text \<open>Replacing a room whose new vector has the same members, or a new empty room.\<close>

lemma wf_put_room:
  assumes wf: "game_wf g" and r: "r_players r' = (case rooms g k of None \<Rightarrow> [] | Some r \<Rightarrow> r_players r)"
  shows "game_wf (put_room k r' g)"
proof (rule game_wfI)
  fix l q a assume "rooms (put_room k r' g) l = Some q" "a \<in> set (r_players q)"
  with r game_wfD(3) [OF wf, of l _ a] show "\<exists>p. pheap (put_room k r' g) a = Some p \<and> p_room p = Some l"
    by (cases "l = k") (auto split: option.splits)
next
  fix a p l assume "pheap (put_room k r' g) a = Some p" "p_room p = Some l"
  with r game_wfD(4) [OF wf, of a p l] show "\<exists>q. rooms (put_room k r' g) l = Some q \<and> a \<in> set (r_players q)"
    by (cases "l = k") (auto split: option.splits)
next
  fix l q assume "rooms (put_room k r' g) l = Some q"
  with r game_wfD(5) [OF wf, of l] show "distinct (r_players q)"
    by (cases "l = k") (auto split: option.splits)
qed (use game_wfD(1,2) [OF wf] in auto)

lemma wf_cong:
  assumes "game_wf g" and "players g' = players g" and "pheap g' = pheap g" and "rooms g' = rooms g"
  shows "game_wf g'"
  using assms by (simp add: game_wf_def)

text \<open>A room's members are live and are in no other room.\<close>

lemma wf_member_room:
  "game_wf g \<Longrightarrow> rooms g k = Some r \<Longrightarrow> a \<in> set (r_players r) \<Longrightarrow> rooms g k' = Some r' \<Longrightarrow>
    a \<in> set (r_players r') \<Longrightarrow> k' = k"
  by (metis game_wfD(3) option.inject)

section \<open>Leave and join\<close>

lemma Room_Leave_member:
  assumes wf: "game_wf g" and p: "pheap g a = Some p" and k: "p_room p = Some k"
  shows "\<exists>r. rooms g k = Some r \<and> a \<in> set (r_players r) \<and>
    Room_Leave k a g = Some (put_player a (p\<lparr>p_room := None\<rparr>) (put_room k (room_leave a r) g)) \<and>
    game_wf (put_player a (p\<lparr>p_room := None\<rparr>) (put_room k (room_leave a r) g))"
proof -
  obtain r where r: "rooms g k = Some r" "a \<in> set (r_players r)"
    using game_wfD(4) [OF wf p k] by blast
  have d: "distinct (r_players r)" using game_wfD(5) [OF wf r(1)] .
  have "game_wf (put_player a (p\<lparr>p_room := None\<rparr>) (put_room k (room_leave a r) g))" (is "game_wf ?g")
  proof (rule game_wfI)
    fix s b assume "players ?g s = Some b"
    with game_wfD(1) [OF wf, of s b] p show "\<exists>q. pheap ?g b = Some q \<and> p_session q = s"
      by (cases "b = a") auto
  next
    fix b q assume "pheap ?g b = Some q"
    with game_wfD(2) [OF wf, of b] game_wfD(2) [OF wf p] show "players ?g (p_session q) = Some b"
      by (cases "b = a") auto
  next
    fix l q b assume q: "rooms ?g l = Some q" "b \<in> set (r_players q)"
    then have ne: "b \<noteq> a"
      using seats.leave_distinct [OF d, of a] wf_member_room [OF wf r, of l q]
      by (cases "l = k") auto
    from q obtain q' where "rooms g l = Some q'" "b \<in> set (r_players q')"
      using r(1) seats.leave_distinct [OF d, of a] by (cases "l = k") auto
    with game_wfD(3) [OF wf, of l q' b] ne show "\<exists>p. pheap ?g b = Some p \<and> p_room p = Some l" by simp
  next
    fix b q l assume "pheap ?g b = Some q" "p_room q = Some l"
    then have ne: "b \<noteq> a" and q: "pheap g b = Some q" "p_room q = Some l" by (auto split: if_splits)
    from game_wfD(4) [OF wf q] obtain r0 where r0: "rooms g l = Some r0" "b \<in> set (r_players r0)" by blast
    with ne r(1) seats.leave_distinct [OF d, of a]
    show "\<exists>r. rooms ?g l = Some r \<and> b \<in> set (r_players r)"
      by (cases "l = k") simp_all
  next
    fix l q assume "rooms ?g l = Some q"
    with game_wfD(5) [OF wf, of l q] seats.leave_distinct [OF d, of a] show "distinct (r_players q)"
      by (cases "l = k") auto
  qed
  moreover have "Room_Leave k a g = Some (put_player a (p\<lparr>p_room := None\<rparr>) (put_room k (room_leave a r) g))"
    using r p by (simp add: Room_Leave_def room_leave_def)
  ultimately show ?thesis using r by blast
qed

lemma Room_Join_outsider:
  assumes wf: "game_wf g" and p: "pheap g a = Some p" and k: "p_room p = None" and r: "rooms g k = Some r"
  shows "a \<notin> set (r_players r) \<and>
    Room_Join k a g = Some (put_player a (p\<lparr>p_room := Some k\<rparr>) (put_room k (room_enter a r) g)) \<and>
    game_wf (put_player a (p\<lparr>p_room := Some k\<rparr>) (put_room k (room_enter a r) g))"
proof -
  have out: "\<And>k' r'. rooms g k' = Some r' \<Longrightarrow> a \<notin> set (r_players r')"
    using game_wfD(3) [OF wf] p k by force
  have d: "distinct (r_players r)" using game_wfD(5) [OF wf r] .
  have "game_wf (put_player a (p\<lparr>p_room := Some k\<rparr>) (put_room k (room_enter a r) g))" (is "game_wf ?g")
  proof (rule game_wfI)
    fix s b assume "players ?g s = Some b"
    with game_wfD(1) [OF wf, of s b] p show "\<exists>q. pheap ?g b = Some q \<and> p_session q = s"
      by (cases "b = a") auto
  next
    fix b q assume "pheap ?g b = Some q"
    with game_wfD(2) [OF wf, of b] game_wfD(2) [OF wf p] show "players ?g (p_session q) = Some b"
      by (cases "b = a") auto
  next
    fix l q b assume q: "rooms ?g l = Some q" "b \<in> set (r_players q)"
    with game_wfD(3) [OF wf, of l] r seats.enter_distinct [OF d, of a] out [of l]
    show "\<exists>p. pheap ?g b = Some p \<and> p_room p = Some l"
      by (cases "l = k"; cases "b = a") auto
  next
    fix b q l assume "pheap ?g b = Some q" "p_room q = Some l"
    with game_wfD(4) [OF wf, of b q l] r seats.enter_distinct [OF d, of a]
    show "\<exists>r. rooms ?g l = Some r \<and> b \<in> set (r_players r)"
      by (cases "b = a"; cases "l = k") auto
  next
    fix l q assume "rooms ?g l = Some q"
    with game_wfD(5) [OF wf, of l q] seats.enter_distinct [OF d, of a] show "distinct (r_players q)"
      by (cases "l = k") auto
  qed
  moreover have "Room_Join k a g = Some (put_player a (p\<lparr>p_room := Some k\<rparr>) (put_room k (room_enter a r) g))"
    using r p out [OF r] by (simp add: Room_Join_def room_enter_def)
  ultimately show ?thesis using out [OF r] by blast
qed

end
