(* ===== verification/Game_Server.thy ===== *)
theory Game_Server
  imports Room
begin

text \<open>
  GameServer.cpp on the game thread: the handlers of the seven packets, the waiting room, the
  connect and disconnect events. Each handler is a function on the world; its guards are the
  code's, in the code's order, and \<open>None\<close> is a use of a dangling pointer or a read past a
  body. Output to the log is left out.

  What the standard library and the operating system choose is an argument: \<open>e_tick\<close> is
  \<open>GetTickCount64\<close>, \<open>e_order\<close> the order in which the hash map of rooms is traversed, and
  \<open>e_addr\<close> the address \<open>new Player\<close> returns.
\<close>

record env =
  e_tick :: "64 word"
  e_order :: "room_key list"
  e_addr :: paddr

section \<open>Errors and text\<close>

definition SendError :: "sid \<Rightarrow> PACKET_ID \<Rightarrow> PROTOCOL_ERROR \<Rightarrow> world \<Rightarrow> world option" where
  "SendError s rejected code w =
     (let b = error_body (pkt rejected) (err_code code)
      in on_net (SendPacket s (pkt PKT_SC_ERROR) (Some b) (w_Size b)) w)"

definition close_session :: "sid \<Rightarrow> world \<Rightarrow> world option" where
  "close_session s w = on_net (RequestClose s) w"

section \<open>Rooms of the server\<close>

text \<open>\<open>GetPlayer\<close>: null when the session has no player.\<close>

definition GetPlayer :: "sid \<Rightarrow> game \<Rightarrow> paddr option" where
  "GetPlayer s g = players g s"

definition FindRoom :: "room_key \<Rightarrow> game \<Rightarrow> room_key option" where
  "FindRoom k g = (case rooms g k of None \<Rightarrow> None | Some r \<Rightarrow> Some k)"

text \<open>The constructor takes a \<open>uint16_t\<close>: the room's own number is the key, truncated.\<close>

definition GetOrCreateRoom :: "room_key \<Rightarrow> game \<Rightarrow> room_key \<times> game" where
  "GetOrCreateRoom k g =
     (case FindRoom k g of Some r \<Rightarrow> (r, g) | None \<Rightarrow> (k, put_room k (new_Room (ucast k)) g))"

definition LeaveRoom :: "paddr \<Rightarrow> game \<Rightarrow> game option" where
  "LeaveRoom a g = do {
     p \<leftarrow> pheap g a;
     (case p_room p of None \<Rightarrow> Some g | Some k \<Rightarrow> Room_Leave k a g)
   }"

definition EnterRoom :: "paddr \<Rightarrow> room_key \<Rightarrow> game \<Rightarrow> game option" where
  "EnterRoom a k g = do {
     p \<leftarrow> pheap g a;
     g1 \<leftarrow> (case p_room p of None \<Rightarrow> Some g | Some old \<Rightarrow> Room_Leave old a g);
     let (k', g2) = GetOrCreateRoom k g1;
     Room_Join k' a g2
   }"

text \<open>
  What \<open>AcquireGameRoom\<close> returns; \<open>None\<close> is the overflow of its signed counter. When \<open>rooms.emplace(id, ...)\<close> finds the key taken, the new
  room is destroyed with its \<open>unique_ptr\<close>, and the raw pointer saved before dangles.
\<close>

datatype room_ref = NullRoom | RoomAt room_key | DanglingRoom

definition new_game_room :: "room_key \<Rightarrow> room" where
  "new_game_room k = (new_Room (ucast k))\<lparr>r_capacity := GAME_ROOM_CAPACITY\<rparr>"

definition emplace_game_room :: "room_key \<Rightarrow> game \<Rightarrow> room_ref \<times> game" where
  "emplace_game_room k g =
     (case rooms g k of None \<Rightarrow> (RoomAt k, put_room k (new_game_room k) g) | Some r \<Rightarrow> (DanglingRoom, g))"

text \<open>The largest \<open>int32_t\<close>: \<open>nextGameRoomId++\<close> is undefined there.\<close>

definition INT32_MAX :: i32 where
  "INT32_MAX = 2147483647"

text \<open>A game room that has not started and has a seat left.\<close>

definition joinable :: "game \<Rightarrow> room_key \<Rightarrow> bool" where
  "joinable g k = (case rooms g k of None \<Rightarrow> False
     | Some r \<Rightarrow> r_capacity r \<noteq> 0 \<and> \<not> r_started r \<and> \<not> IsFull r)"

definition AcquireGameRoom :: "room_key list \<Rightarrow> i32 \<Rightarrow> game \<Rightarrow> (room_ref \<times> game) option" where
  "AcquireGameRoom order requested g =
     (if requested = 0 then
        (case find (joinable g) order of
           Some k \<Rightarrow> Some (RoomAt k, g)
         | None \<Rightarrow>
             if nextGameRoomId g = INT32_MAX then None
             else Some (emplace_game_room (nextGameRoomId g) (g\<lparr>nextGameRoomId := nextGameRoomId g + 1\<rparr>)))
      else
        (case rooms g requested of
           None \<Rightarrow> Some (emplace_game_room requested g)
         | Some r \<Rightarrow>
             if r_capacity r = 0 then
               (if length (r_players r) > 0 then Some (NullRoom, g)
                else Some (RoomAt requested, put_room requested (r\<lparr>r_capacity := GAME_ROOM_CAPACITY\<rparr>) g))
             else Some (RoomAt requested, g)))"

section \<open>Room state\<close>

definition member_info :: "game \<Rightarrow> paddr \<Rightarrow> (u32 \<times> bool \<times> bytes) option" where
  "member_info g a = do { p \<leftarrow> pheap g a; Some (p_id p, p_ready p, p_name p) }"

fun members_of :: "game \<Rightarrow> paddr list \<Rightarrow> (u32 \<times> bool \<times> bytes) list option" where
  "members_of g [] = Some []"
| "members_of g (a # as) = do { m \<leftarrow> member_info g a; ms \<leftarrow> members_of g as; Some (m # ms) }"

definition SendRoomState :: "sid \<Rightarrow> room_key \<Rightarrow> world \<Rightarrow> world option" where
  "SendRoomState s k w = do {
     r \<leftarrow> rooms (gs w) k;
     ms \<leftarrow> members_of (gs w) (r_players r);
     let b = room_state_body (r_id r) (r_capacity r) ms;
     on_net (SendPacket s (pkt PKT_SC_ROOM_STATE) (Some b) (w_Size b)) w
   }"

definition BroadcastRoomState :: "room_key \<Rightarrow> world \<Rightarrow> world option" where
  "BroadcastRoomState k w = do {
     r \<leftarrow> rooms (gs w) k;
     for_each (\<lambda>a w. do { p \<leftarrow> pheap (gs w) a; SendRoomState (p_session p) k w }) (r_players r) w
   }"

section \<open>Starting a match\<close>

text \<open>The readiness loop stops at the first member that is not ready.\<close>

fun all_ready :: "game \<Rightarrow> paddr list \<Rightarrow> bool option" where
  "all_ready g [] = Some True"
| "all_ready g (a # as) = do { p \<leftarrow> pheap g a; if \<not> p_ready p then Some False else all_ready g as }"

definition start_member :: "bytes \<Rightarrow> paddr \<Rightarrow> world \<Rightarrow> world option" where
  "start_member b a w = do {
     w1 \<leftarrow> on_game (set_player a (\<lambda>p. p\<lparr>p_state := InGame\<rparr>)) w;
     p \<leftarrow> pheap (gs w1) a;
     on_net (SendPacket (p_session p) (pkt PKT_SC_GAME_START) (Some b) (w_Size b)) w1
   }"

definition TryStartGame :: "room_key \<Rightarrow> world \<Rightarrow> world option" where
  "TryStartGame k w = do {
     r \<leftarrow> rooms (gs w) k;
     if r_started r then Some w
     else if r_capacity r = 0 then Some w
     else if length (r_players r) \<noteq> unat (r_capacity r) then Some w
     else do {
       rdy \<leftarrow> all_ready (gs w) (r_players r);
       if \<not> rdy then Some w
       else do {
         let matchId = nextMatchId (gs w);
         ms \<leftarrow> members_of (gs w) (r_players r);
         let b = game_start_body matchId (map fst ms);
         let g1 = (gs w)\<lparr>nextMatchId := matchId + 1\<rparr>;
         let w1 = w\<lparr>gs := put_room k (r\<lparr>r_started := True\<rparr>) g1\<rparr>;
         for_each (start_member b) (r_players r) w1
       }
     }
   }"

section \<open>Packet handlers\<close>

definition HandleLogin :: "sid \<Rightarrow> Packet \<Rightarrow> world \<Rightarrow> world option" where
  "HandleLogin s p w =
     (let bodySize = body_size (header p) in
      if bodySize \<le> 0 then Some w
      else do {
        nm \<leftarrow> read_bytes (body p) (nat bodySize);
        (case GetPlayer s (gs w) of
           None \<Rightarrow> Some w
         | Some a \<Rightarrow> on_game (set_player a (\<lambda>q. q\<lparr>p_name := nm\<rparr>)) w)
      })"

definition HandleEnterRoom :: "sid \<Rightarrow> Packet \<Rightarrow> world \<Rightarrow> world option" where
  "HandleEnterRoom s p w =
     (case GetPlayer s (gs w) of
        None \<Rightarrow> Some w
      | Some a \<Rightarrow> do {
          q \<leftarrow> pheap (gs w) a;
          if \<not> IsLoggedIn q then Some w
          else if (ucast (h_size (header p)) :: size_t) < HEADER_SIZE + 4 then Some w
          else do {
            b \<leftarrow> read_bytes (body p) 4;
            on_game (EnterRoom a (of_le32 b)) w
          }
        })"

definition HandleChat :: "paddr \<Rightarrow> Packet \<Rightarrow> world \<Rightarrow> world option" where
  "HandleChat a p w = do {
     q \<leftarrow> pheap (gs w) a;
     if \<not> IsLoggedIn q then Some w
     else (case p_room q of
         None \<Rightarrow> Some w
       | Some k \<Rightarrow>
           let bodySize = body_size (header p) in
           if bodySize \<le> 0 then Some w
           else do {
             msg \<leftarrow> read_bytes (body p) (nat bodySize);
             Room_BroadcastChat k a msg w
           })
   }"

definition HandleHello :: "env \<Rightarrow> sid \<Rightarrow> Packet \<Rightarrow> world \<Rightarrow> world option" where
  "HandleHello e s p w =
     (case GetPlayer s (gs w) of
        None \<Rightarrow> Some w
      | Some a \<Rightarrow>
          if body_size (header p) \<noteq> 2 then do {
            w1 \<leftarrow> SendError s PKT_CS_HELLO ERR_BAD_FORMAT w;
            close_session s w1
          }
          else do {
            b \<leftarrow> read_bytes (body p) 2;
            let version = of_le16 b;
            if version \<noteq> PROTOCOL_VERSION then do {
              w1 \<leftarrow> SendError s PKT_CS_HELLO ERR_VERSION_MISMATCH w;
              close_session s w1
            }
            else do {
              w1 \<leftarrow> on_game (set_player a (\<lambda>q. if p_name q = []
                     then q\<lparr>p_name := ascii ''Player '' @ dec_string (unat (p_id q))\<rparr> else q)) w;
              q \<leftarrow> pheap (gs w1) a;
              let wb = welcome_body (p_id q) (CurrentTick (e_tick e));
              w2 \<leftarrow> on_net (SendPacket s (pkt PKT_SC_WELCOME) (Some wb) (w_Size wb)) w1;
              on_game (set_player a (\<lambda>q. q\<lparr>p_state := LoggedIn\<rparr>)) w2
            }
          })"

text \<open>The part of the join that follows the tests: leave the old room, reset, join, announce.\<close>

definition seat_player :: "paddr \<Rightarrow> room_key \<Rightarrow> world \<Rightarrow> world option" where
  "seat_player a k w = do {
     w1 \<leftarrow> on_game (LeaveRoom a) w;
     w2 \<leftarrow> on_game (set_player a (\<lambda>q. q\<lparr>p_ready := False\<rparr>)) w1;
     w3 \<leftarrow> on_game (Room_Join k a) w2;
     w4 \<leftarrow> on_game (set_player a (\<lambda>q. q\<lparr>p_state := InRoom\<rparr>)) w3;
     BroadcastRoomState k w4
   }"

definition HandleJoinRoom :: "env \<Rightarrow> sid \<Rightarrow> Packet \<Rightarrow> world \<Rightarrow> world option" where
  "HandleJoinRoom e s p w =
     (case GetPlayer s (gs w) of
        None \<Rightarrow> Some w
      | Some a \<Rightarrow>
          if body_size (header p) \<noteq> 4 then SendError s PKT_CS_JOIN_ROOM ERR_BAD_FORMAT w
          else do {
            b \<leftarrow> read_bytes (body p) 4;
            let requested = of_le32 b;
            if sint requested < 0 then SendError s PKT_CS_JOIN_ROOM ERR_NO_SUCH_ROOM w
            else do {
              (ref, g1) \<leftarrow> AcquireGameRoom (e_order e) requested (gs w);
              let w1 = w\<lparr>gs := g1\<rparr>;
              (case ref of
                 NullRoom \<Rightarrow> SendError s PKT_CS_JOIN_ROOM ERR_NO_SUCH_ROOM w1
               | DanglingRoom \<Rightarrow> None
               | RoomAt k \<Rightarrow> do {
                   r \<leftarrow> rooms g1 k;
                   if r_started r then SendError s PKT_CS_JOIN_ROOM ERR_MATCH_ENDED w1
                   else if IsFull r then SendError s PKT_CS_JOIN_ROOM ERR_ROOM_FULL w1
                   else seat_player a k w1
                 })
            }
          })"

definition HandleReady :: "sid \<Rightarrow> Packet \<Rightarrow> world \<Rightarrow> world option" where
  "HandleReady s p w =
     (case GetPlayer s (gs w) of
        None \<Rightarrow> Some w
      | Some a \<Rightarrow> do {
          q \<leftarrow> pheap (gs w) a;
          (case p_room q of
             None \<Rightarrow> SendError s PKT_CS_READY ERR_NOT_ALLOWED w
           | Some k \<Rightarrow> do {
               r \<leftarrow> rooms (gs w) k;
               if r_started r then SendError s PKT_CS_READY ERR_MATCH_ENDED w
               else if body_size (header p) \<noteq> 1 then SendError s PKT_CS_READY ERR_BAD_FORMAT w
               else do {
                 b \<leftarrow> read_bytes (body p) 1;
                 w1 \<leftarrow> on_game (set_player a (\<lambda>q. q\<lparr>p_ready := (hd b \<noteq> 0)\<rparr>)) w;
                 w2 \<leftarrow> BroadcastRoomState k w1;
                 TryStartGame k w2
               }
             })
        })"

section \<open>Connect and disconnect\<close>

definition OnSessionConnected :: "env \<Rightarrow> sid \<Rightarrow> game \<Rightarrow> game" where
  "OnSessionConnected e s g =
     (let p = (new_Player s)\<lparr>p_id := nextPlayerId g\<rparr>;
          g1 = g\<lparr>pheap := (pheap g)(e_addr e \<mapsto> p), nextPlayerId := nextPlayerId g + 1\<rparr>
      in (case players g1 s of None \<Rightarrow> g1\<lparr>players := (players g1)(s \<mapsto> e_addr e)\<rparr> | Some b \<Rightarrow> g1))"

text \<open>The room is remembered before the player leaves it; the player is erased and deleted.\<close>

definition remove_player :: "sid \<Rightarrow> paddr \<Rightarrow> world \<Rightarrow> world option" where
  "remove_player s a w = do {
     p \<leftarrow> pheap (gs w) a;
     let rm = p_room p;
     g1 \<leftarrow> LeaveRoom a (gs w);
     let w1 = w\<lparr>gs := g1\<lparr>players := (players g1)(s := None), pheap := (pheap g1)(a := None)\<rparr>\<rparr>;
     (case rm of
        None \<Rightarrow> Some w1
      | Some k \<Rightarrow> do {
          r \<leftarrow> rooms (gs w1) k;
          if r_capacity r \<noteq> 0 then BroadcastRoomState k w1 else Some w1
        })
   }"

definition Game_OnSessionDisconnected :: "sid \<Rightarrow> world \<Rightarrow> world option" where
  "Game_OnSessionDisconnected s w = do {
     w1 \<leftarrow> (case players (gs w) s of None \<Rightarrow> Some w | Some a \<Rightarrow> remove_player s a w);
     w2 \<leftarrow> on_net (MarkGameCleanupDone s) w1;
     on_net (\<lambda>n. Some (add_call (PostStatus (Some s)) n)) w2
   }"

end
