(* ===== verification/Game_Loop.thy ===== *)
theory Game_Loop
  imports Game_Server
begin

text \<open>
  FSM.cpp and the game thread: the dispatch table, \<open>OnPacket\<close>, the switch over job types, the
  loop of \<open>GameThreadLoop\<close> and the server's initial state. The loop polls for ever, so it is
  run for a given number of iterations, one environment per iteration.
\<close>

section \<open>The dispatch table\<close>

definition MAX_PACKET_ID :: u16 where
  "MAX_PACKET_ID = pkt PKT_SC_KICK"

definition empty_FSM :: fsm_table where
  "empty_FSM = (\<lambda>st pid. None)"

definition set_entry :: "PlayerState \<Rightarrow> PACKET_ID \<Rightarrow> fsm_handler \<Rightarrow> fsm_table \<Rightarrow> fsm_table" where
  "set_entry st i h t = t(st := (t st)(pkt i := Some h))"

definition InitFSM :: "fsm_table \<Rightarrow> fsm_table" where
  "InitFSM t =
     (let t = set_entry PNone PKT_CS_LOGIN FSM_Login t;
          t = set_entry LoggedIn PKT_CS_ENTER_ROOM FSM_EnterRoom t;
          t = set_entry InRoom PKT_CS_CHAT FSM_Chat t;
          t = set_entry InRoom PKT_CS_ENTER_ROOM FSM_EnterRoom t;
          t = set_entry PNone PKT_CS_HELLO FSM_Hello t;
          t = set_entry LoggedIn PKT_CS_JOIN_ROOM FSM_JoinRoom t;
          t = set_entry InRoom PKT_CS_READY FSM_Ready t
      in t)"

text \<open>
  The array has a row for each state and \<open>MAX_PACKET_ID + 1\<close> columns: reading a column beyond them is
  undefined (\<open>None\<close>). The value read is a handler or a null pointer.
\<close>

definition FSM_at :: "fsm_table \<Rightarrow> PlayerState \<Rightarrow> u16 \<Rightarrow> fsm_handler option option" where
  "FSM_at t st i = (if unat i < unat MAX_PACKET_ID + 1 then Some (t st i) else None)"

definition GetHandler :: "fsm_table \<Rightarrow> PlayerState \<Rightarrow> u16 \<Rightarrow> fsm_handler option option" where
  "GetHandler t st packetId = (if packetId > MAX_PACKET_ID then Some None else FSM_at t st packetId)"

section \<open>Handlers of the table\<close>

definition run_FSM_Login :: "sid \<Rightarrow> paddr \<Rightarrow> Packet \<Rightarrow> world \<Rightarrow> world option" where
  "run_FSM_Login s a p w = do {
     w1 \<leftarrow> HandleLogin s p w;
     on_game (set_player a (\<lambda>q. q\<lparr>p_state := LoggedIn\<rparr>)) w1
   }"

definition run_FSM_EnterRoom :: "sid \<Rightarrow> paddr \<Rightarrow> Packet \<Rightarrow> world \<Rightarrow> world option" where
  "run_FSM_EnterRoom s a p w = do {
     w1 \<leftarrow> HandleEnterRoom s p w;
     q \<leftarrow> pheap (gs w1) a;
     if p_room q \<noteq> None then on_game (set_player a (\<lambda>q. q\<lparr>p_state := InRoom\<rparr>)) w1 else Some w1
   }"

definition run_FSM_Chat :: "sid \<Rightarrow> Packet \<Rightarrow> world \<Rightarrow> world option" where
  "run_FSM_Chat s p w =
     (case players (gs w) s of None \<Rightarrow> Some w | Some a \<Rightarrow> HandleChat a p w)"

fun run_handler :: "fsm_handler \<Rightarrow> env \<Rightarrow> sid \<Rightarrow> paddr \<Rightarrow> Packet \<Rightarrow> world \<Rightarrow> world option" where
  "run_handler FSM_Login e s a p w = run_FSM_Login s a p w"
| "run_handler FSM_EnterRoom e s a p w = run_FSM_EnterRoom s a p w"
| "run_handler FSM_Chat e s a p w = run_FSM_Chat s p w"
| "run_handler FSM_Hello e s a p w = HandleHello e s p w"
| "run_handler FSM_JoinRoom e s a p w = HandleJoinRoom e s p w"
| "run_handler FSM_Ready e s a p w = HandleReady s p w"

definition OnPacket :: "env \<Rightarrow> sid \<Rightarrow> Packet \<Rightarrow> world \<Rightarrow> world option" where
  "OnPacket e s p w =
     (case GetPlayer s (gs w) of
        None \<Rightarrow> Some w
      | Some a \<Rightarrow> do {
          q \<leftarrow> pheap (gs w) a;
          h \<leftarrow> GetHandler (g_FSM (gs w)) (p_state q) (h_id (header p));
          (case h of
             None \<Rightarrow> Some w
           | Some h \<Rightarrow> run_handler h e s a p w)
        })"

section \<open>The loop\<close>

fun run_job :: "env \<Rightarrow> GameJob \<Rightarrow> world \<Rightarrow> world option" where
  "run_job e (PacketJob s h b) w = OnPacket e s \<lparr>header = h, body = b\<rparr> w"
| "run_job e (DisconnectJob s) w = Game_OnSessionDisconnected s w"
| "run_job e (ConnectJob s) w = on_game (\<lambda>g. Some (OnSessionConnected e s g)) w"
| "run_job e ShutdownJob w = on_game (\<lambda>g. Some (g\<lparr>running := False\<rparr>)) w"

text \<open>One iteration: an empty queue only sleeps.\<close>

definition game_iter :: "env \<Rightarrow> world \<Rightarrow> world option" where
  "game_iter e w =
     (case Pop (jobQueue (net w)) of
        None \<Rightarrow> Some w
      | Some (job, q) \<Rightarrow> run_job e job (w\<lparr>net := (net w)\<lparr>jobQueue := q\<rparr>\<rparr>))"

fun GameThreadLoop :: "env list \<Rightarrow> world \<Rightarrow> world option" where
  "GameThreadLoop [] w = Some w"
| "GameThreadLoop (e # es) w =
     (if running (gs w)
      then (case game_iter e w of None \<Rightarrow> None | Some w' \<Rightarrow> GameThreadLoop es w')
      else Some w)"

section \<open>Construction\<close>

text \<open>The constructor makes room 1, the lobby; \<open>Init\<close> fills the table and starts the server.\<close>

definition new_GameServer :: game where
  "new_GameServer = \<lparr>players = Map.empty, pheap = Map.empty, rooms = [1 \<mapsto> new_Room 1],
     nextPlayerId = 1, nextGameRoomId = 100, nextMatchId = 1, running = True, g_FSM = empty_FSM\<rparr>"

definition Init :: "world \<Rightarrow> world" where
  "Init w = w\<lparr>net := (net w)\<lparr>srvState := Running\<rparr>, gs := (gs w)\<lparr>g_FSM := InitFSM (g_FSM (gs w))\<rparr>\<rparr>"

definition boot :: "(nat \<Rightarrow> io_result) \<Rightarrow> world" where
  "boot res = Init \<lparr>net = \<lparr>sessions = Map.empty, srvState = Stopped, jobQueue = [], trace = [], sysResult = res\<rparr>,
     gs = new_GameServer\<rparr>"

section \<open>The table, decided\<close>

definition fsm_entries :: "(PlayerState \<times> PACKET_ID \<times> fsm_handler) list" where
  "fsm_entries =
     [(PNone, PKT_CS_LOGIN, FSM_Login), (PNone, PKT_CS_HELLO, FSM_Hello),
      (LoggedIn, PKT_CS_ENTER_ROOM, FSM_EnterRoom), (LoggedIn, PKT_CS_JOIN_ROOM, FSM_JoinRoom),
      (InRoom, PKT_CS_CHAT, FSM_Chat), (InRoom, PKT_CS_ENTER_ROOM, FSM_EnterRoom),
      (InRoom, PKT_CS_READY, FSM_Ready)]"

text \<open>Every id that \<open>InitFSM\<close> writes is a column of the array, and \<open>GetHandler\<close> reads inside it.\<close>

lemma entry_in_range: "(st, i, h) \<in> set fsm_entries \<Longrightarrow> pkt i \<le> MAX_PACKET_ID"
  by (auto simp: fsm_entries_def MAX_PACKET_ID_def word_le_nat_alt)

lemma GetHandler_eq: "GetHandler t st pid = Some (if pid \<le> MAX_PACKET_ID then t st pid else None)"
  by (auto simp: GetHandler_def FSM_at_def word_le_nat_alt word_less_nat_alt)

lemma InitFSM_iff: "InitFSM empty_FSM st pid = Some h \<longleftrightarrow> (\<exists>i. (st, i, h) \<in> set fsm_entries \<and> pid = pkt i)"
  by (cases st) (auto simp: InitFSM_def set_entry_def empty_FSM_def Let_def fsm_entries_def)

lemma GetHandler_InitFSM: "GetHandler (InitFSM empty_FSM) st pid = Some (InitFSM empty_FSM st pid)"
  using entry_in_range by (cases "InitFSM empty_FSM st pid") (auto simp: GetHandler_eq InitFSM_iff)

lemma GetHandler_iff:
  "GetHandler (InitFSM empty_FSM) st pid = Some (Some h) \<longleftrightarrow> (\<exists>i. (st, i, h) \<in> set fsm_entries \<and> pid = pkt i)"
  by (simp add: GetHandler_InitFSM InitFSM_iff)

end
