(* ===== verification/Broadcast.thy ===== *)
theory Broadcast
  imports Room_Facts Game_Loop
begin

text \<open>
  Sending from the game thread: which calls a send makes, the loops that send one packet to
  the members of a room, and their equivalence to one \<open>send_all\<close> over the members'
  sessions in join order.
\<close>

section \<open>The world's invariant\<close>

text \<open>Every session is in order, and every player's session is alive and not cleaned up.\<close>

definition net_ok :: "world \<Rightarrow> bool" where
  "net_ok w \<longleftrightarrow> (\<forall>s x. sessions (net w) s = Some x \<longrightarrow> session_ok x \<and> framed x) \<and>
     (\<forall>a p. pheap (gs w) a = Some p \<longrightarrow>
        (\<exists>x. sessions (net w) (p_session p) = Some x \<and> \<not> s_gameCleanupDone x))"

definition world_ok :: "world \<Rightarrow> bool" where
  "world_ok w \<longleftrightarrow> game_wf (gs w) \<and> net_ok w"

lemma net_okD:
  assumes "net_ok w"
  shows "sessions (net w) s = Some x \<Longrightarrow> session_ok x"
    and "sessions (net w) s = Some x \<Longrightarrow> framed x"
    and "pheap (gs w) a = Some p \<Longrightarrow> \<exists>x. sessions (net w) (p_session p) = Some x \<and> \<not> s_gameCleanupDone x"
  using assms by (auto simp: net_ok_def)

lemma net_ok_mono:
  assumes ok: "net_ok w" and f: "io_frame (net w) (net w')"
    and h: "\<And>a p'. pheap (gs w') a = Some p' \<Longrightarrow> \<exists>p. pheap (gs w) a = Some p \<and> p_session p' = p_session p"
  shows "net_ok w'"
  unfolding net_ok_def
proof (intro conjI allI impI)
  fix s x' assume x': "sessions (net w') s = Some x'"
  then obtain x where x: "sessions (net w) s = Some x"
    using io_frameD(3) [OF f, of s] by (cases "sessions (net w) s") auto
  then have "session_frame x x'" using io_frameD(4) [OF f x] x' by simp
  with net_okD(1,2) [OF ok x] show "session_ok x'" "framed x'"
    using session_frame_framed by (auto simp: session_frame_def)
next
  fix a p' assume "pheap (gs w') a = Some p'"
  then obtain p where p: "pheap (gs w) a = Some p" "p_session p' = p_session p" using h by blast
  then obtain x where x: "sessions (net w) (p_session p) = Some x" "\<not> s_gameCleanupDone x"
    using net_okD(3) [OF ok] by blast
  with io_frameD(4) [OF f x(1)] p(2) show "\<exists>x. sessions (net w') (p_session p') = Some x \<and> \<not> s_gameCleanupDone x"
    by (auto simp: session_frame_def)
qed

section \<open>Running one half of the world\<close>

lemma on_net_Some [simp]: "on_net f w = Some w' \<longleftrightarrow> (\<exists>n. f (net w) = Some n \<and> w' = w\<lparr>net := n\<rparr>)"
  by (auto simp: on_net_def bind_eq_Some_conv)

lemma on_game_Some [simp]: "on_game f w = Some w' \<longleftrightarrow> (\<exists>g. f (gs w) = Some g \<and> w' = w\<lparr>gs := g\<rparr>)"
  by (auto simp: on_game_def bind_eq_Some_conv)

lemma on_game_set_player [simp]:
  "pheap (gs w) a = Some p \<Longrightarrow> on_game (set_player a f) w = Some (w\<lparr>gs := put_player a (f p) (gs w)\<rparr>)"
  by simp

lemma for_each_on_net: "for_each (\<lambda>x. on_net (f x)) xs w = on_net (for_each f xs) w"
proof (induction xs arbitrary: w)
  case Nil
  then show ?case by (simp add: on_net_def)
next
  case (Cons x xs)
  then show ?case by (cases "f x (net w)") (simp_all add: on_net_def)
qed

section \<open>What a send does\<close>

lemma w_Size_le: "unat (w_Size b) \<le> length b"
  by (simp add: w_Size_def unsigned_of_nat take_bit_nat_less_eq_self)

lemma w_Size_small: "length b < 65536 \<Longrightarrow> unat (w_Size b) = length b"
  by (simp add: w_Size_def unsigned_of_nat take_bit_nat_eq_self)

text \<open>
  Which calls a send makes, whatever the operating system answers: the packet goes out exactly
  when the session may be sent to, and the only other call closes the socket of a send that failed.
\<close>

fun is_send :: "syscall \<Rightarrow> bool" where
  "is_send (WSASend s d) = True"
| "is_send _ = False"

fun is_close :: "syscall \<Rightarrow> bool" where
  "is_close (CloseSocket k) = True"
| "is_close _ = False"

definition sends_exactly :: "syscall list \<Rightarrow> syscall list \<Rightarrow> bool" where
  "sends_exactly cs sends \<longleftrightarrow> filter is_send cs = sends \<and> (\<forall>c \<in> set cs. is_send c \<or> is_close c)"

lemma sends_exactly_Nil [simp]: "sends_exactly [] []"
  by (simp add: sends_exactly_def)

lemma sends_exactlyD:
  assumes "sends_exactly cs sends"
  shows "WSASend t d \<in> set cs \<Longrightarrow> WSASend t d \<in> set sends"
    and "\<forall>c \<in> set cs. (\<exists>t d. c = WSASend t d) \<or> (\<exists>sock. c = CloseSocket sock)"
proof -
  have f: "filter is_send cs = sends" and o: "\<forall>c \<in> set cs. is_send c \<or> is_close c"
    using assms by (simp_all add: sends_exactly_def)
  show "WSASend t d \<in> set cs \<Longrightarrow> WSASend t d \<in> set sends" using f by force
  show "\<forall>c \<in> set cs. (\<exists>t d. c = WSASend t d) \<or> (\<exists>sock. c = CloseSocket sock)"
  proof
    fix c assume "c \<in> set cs"
    with o show "(\<exists>t d. c = WSASend t d) \<or> (\<exists>sock. c = CloseSocket sock)" by (cases c) auto
  qed
qed

lemma sends_exactly_append: "sends_exactly cs a \<Longrightarrow> sends_exactly ds b \<Longrightarrow> sends_exactly (cs @ ds) (a @ b)"
  by (auto simp: sends_exactly_def)

lemma PostSend_outcome:
  assumes x: "sessions w s = Some x" and ok: "session_ok x" and st: "s_state x = Connected" and d: "0 < length d" "length d \<le> 4096"
    and s: "PostSend s (Some d) (int (length d)) w = Some w'"
  shows "(\<exists>cs. trace w' = trace w @ cs \<and> sends_exactly cs [WSASend s d]) \<and> (\<forall>t. t \<noteq> s \<longrightarrow> sessions w' t = sessions w t) \<and>
    srvState w' = srvState w"
proof -
  have n: "\<not> (Some d = None \<or> int (length d) \<le> 0 \<or> int (length d) > uint MAX_PACKET_SIZE)"
    using d by (simp add: MAX_PACKET_SIZE_def)
  show ?thesis
  proof (cases "syscall_result w")
    case IoStarted
    then show ?thesis using s x st n by (auto simp: PostSend_def Let_def sends_exactly_def)
  next
    case IoFailed
    let ?w = "put_session s x (add_call (WSASend s d) (put_session s (x\<lparr>s_pendingIO := s_pendingIO x + 1\<rparr>) w))"
    have rc: "RequestClose s ?w = Some w'"
      using IoFailed s x st n by (simp add: PostSend_def Let_def)
    have x': "sessions ?w s = Some x" by simp
    from RequestClose_open [OF x' ok st] rc show ?thesis by (auto simp: sends_exactly_def)
  qed
qed

lemma SendPacket_outcome:
  assumes x: "sessions w s = Some x" and ok: "session_ok x" and b: "length b \<le> 4092"
    and s: "SendPacket s pid (Some b) (w_Size b) w = Some w'"
  shows "(\<exists>cs. trace w' = trace w @ cs \<and> sends_exactly cs (if send_allowed s pid w then [WSASend s (packet_bytes pid b)] else [])) \<and>
    (\<forall>t. t \<noteq> s \<longrightarrow> sessions w' t = sessions w t) \<and> srvState w' = srvState w"
proof -
  have n: "unat (w_Size b) = length b" "unat (w_Size b) \<le> 4092" using b w_Size_small [of b] by simp_all
  have u: "SendPacket s pid (Some b) (w_Size b) w =
    (if pid \<noteq> pkt PKT_SC_SHUTDOWN \<and> (s_state x \<noteq> Connected \<or> IsShuttingDown w) then Some w
     else PostSend s (Some (packet_bytes pid b)) (int (4 + length b)) w)"
    using SendPacket_unfold [OF x n(2), of b pid] n by simp
  show ?thesis
  proof (cases "send_allowed s pid w")
    case True
    then have "s_state x = Connected" "PostSend s (Some (packet_bytes pid b)) (int (length (packet_bytes pid b))) w = Some w'"
      using u s x by (auto simp: send_allowed_def split: if_splits)
    from PostSend_outcome [OF x ok this(1) _ _ this(2)] b True show ?thesis by simp
  next
    case False
    then have "w' = w"
      using u s x ok by (auto simp: send_allowed_def PostSend_def session_ok_def split: if_splits)
    then show ?thesis using False by simp
  qed
qed

section \<open>One packet to many sessions\<close>

definition send_all :: "sid list \<Rightarrow> u16 \<Rightarrow> bytes \<Rightarrow> io \<Rightarrow> io option" where
  "send_all ss pid b n = for_each (\<lambda>s. SendPacket s pid (Some b) (w_Size b)) ss n"

definition io_live :: "sid list \<Rightarrow> io \<Rightarrow> bool" where
  "io_live ss n \<longleftrightarrow> (\<forall>s \<in> set ss. \<exists>x. sessions n s = Some x \<and> session_ok x)"

lemma io_live_frame: "io_live ss n \<Longrightarrow> io_frame n n' \<Longrightarrow> io_live ss n'"
  unfolding io_live_def by (meson io_frameD(4) session_frame_def)

lemma send_all_frame:
  assumes "io_live ss n"
  shows "\<exists>n'. send_all ss pid b n = Some n' \<and> io_frame n n'"
proof -
  have "\<exists>n'. for_each (\<lambda>s. SendPacket s pid (Some b) (w_Size b)) ss n = Some n' \<and> io_frame n n'"
  proof (rule for_each_total)
    fix s m assume s: "s \<in> set ss" and m: "io_frame n m"
    obtain x where x: "sessions m s = Some x" "session_ok x"
      using io_live_frame [OF assms m] s by (auto simp: io_live_def)
    from SendPacket_frame [OF x, of "Some b" b "w_Size b" pid] m
    show "\<exists>m'. SendPacket s pid (Some b) (w_Size b) m = Some m' \<and> io_frame n m'"
      by (auto simp: w_Size_le intro: io_frame_trans)
  qed simp
  then show ?thesis by (simp add: send_all_def)
qed

text \<open>
  Whatever the system answers, the packet goes to exactly those sessions of the list that may be
  sent to, in order: a send that fails closes its own session only.
\<close>

lemma send_all_exact:
  assumes "io_live ss n" and "distinct ss" and "length b \<le> 4092"
  shows "\<exists>n' cs. send_all ss pid b n = Some n' \<and> trace n' = trace n @ cs \<and>
    sends_exactly cs (map (\<lambda>s. WSASend s (packet_bytes pid b)) (filter (\<lambda>s. send_allowed s pid n) ss))"
  using assms
proof (induction ss arbitrary: n)
  case Nil
  then show ?case by (simp add: send_all_def)
next
  case (Cons s ss)
  obtain x where x: "sessions n s = Some x" "session_ok x" using Cons.prems(1) by (auto simp: io_live_def)
  obtain n1 where n1: "SendPacket s pid (Some b) (w_Size b) n = Some n1" "io_frame n n1"
    using SendPacket_frame [OF x, of "Some b" b "w_Size b" pid] by (auto simp: w_Size_le)
  from SendPacket_outcome [OF x Cons.prems(3) n1(1)] obtain c1 where c1: "trace n1 = trace n @ c1"
    "sends_exactly c1 (if send_allowed s pid n then [WSASend s (packet_bytes pid b)] else [])"
    and same: "\<forall>t. t \<noteq> s \<longrightarrow> sessions n1 t = sessions n t" "srvState n1 = srvState n" by blast
  have "send_allowed t pid n1 = send_allowed t pid n" if "t \<in> set ss" for t
  proof -
    have "t \<noteq> s" using that Cons.prems(2) by auto
    with same IsShuttingDown_cong [OF same(2)] show ?thesis by (simp add: send_allowed_def cong: option.case_cong)
  qed
  then have f: "filter (\<lambda>t. send_allowed t pid n1) ss = filter (\<lambda>t. send_allowed t pid n) ss" by (intro filter_cong) simp_all
  have "io_live ss n1" using Cons.prems(1) n1(2) io_live_frame by (auto simp: io_live_def)
  from Cons.IH [OF this _ Cons.prems(3)] Cons.prems(2) obtain n' cs where
    "send_all ss pid b n1 = Some n'" "trace n' = trace n1 @ cs"
    "sends_exactly cs (map (\<lambda>s. WSASend s (packet_bytes pid b)) (filter (\<lambda>s. send_allowed s pid n) ss))" by (auto simp: f)
  moreover from sends_exactly_append [OF c1(2) this(3)] have "sends_exactly (c1 @ cs) (map (\<lambda>s. WSASend s (packet_bytes pid b))
      (filter (\<lambda>s. send_allowed s pid n) (s # ss)))" by (simp split: if_splits)
  ultimately show ?case using c1(1) n1(1) by (auto simp: send_all_def)
qed

text \<open>The same for the sessions of a list of players.\<close>

lemma send_map_exact:
  assumes "io_live (map f as) n" and "distinct (map f as)" and "length b \<le> 4092"
  shows "\<exists>n' cs. send_all (map f as) pid b n = Some n' \<and> trace n' = trace n @ cs \<and>
    sends_exactly cs (map (\<lambda>a. WSASend (f a) (packet_bytes pid b)) (filter (\<lambda>a. send_allowed (f a) pid n) as))"
  using send_all_exact [OF assms, of pid] by (simp add: filter_map comp_def)

text \<open>A body that does not fit a packet is sent to nobody.\<close>

lemma send_all_too_big:
  assumes "io_live ss n" and "4092 < length b" and "length b < 65536"
  shows "send_all ss pid b n = Some n"
  using assms(1)
proof (induction ss)
  case Nil
  then show ?case by (simp add: send_all_def)
next
  case (Cons s ss)
  then obtain x where "sessions n s = Some x" by (auto simp: io_live_def)
  with SendPacket_too_big [of n s x "w_Size b" pid "Some b"] assms(2,3) Cons show ?case
    by (simp add: send_all_def io_live_def w_Size_small)
qed

end
