(* ===== verification/Game_Facts.thy ===== *)
theory Game_Facts
  imports Broadcast
begin

text \<open>
  The handlers of the game thread never touch freed memory. \<open>world_step\<close> is the effect
  contract of a handler: what it does to the sessions is \<open>io_frame\<close>, it neither creates nor
  frees a player, it keeps the game state well formed and never erases a room. Every handler
  returns and meets the contract in every world that satisfies \<open>world_ok\<close>; the one exception
  is the dangling room of \<open>AcquireGameRoom\<close>, which is characterised exactly.
\<close>

section \<open>The effect contract of a handler\<close>

text \<open>What every operation keeps of a room: its number, that it has started, the capacity of a game room.\<close>

definition room_frame :: "room \<Rightarrow> room \<Rightarrow> bool" where
  "room_frame r r' \<longleftrightarrow> r_id r' = r_id r \<and> (r_started r \<longrightarrow> r_started r') \<and>
     (r_capacity r \<noteq> 0 \<longrightarrow> r_capacity r' = r_capacity r)"

definition rooms_frame :: "game \<Rightarrow> game \<Rightarrow> bool" where
  "rooms_frame g g' \<longleftrightarrow> (\<forall>k r. rooms g k = Some r \<longrightarrow> (\<exists>r'. rooms g' k = Some r' \<and> room_frame r r'))"

lemma room_frame_refl [simp]: "room_frame r r"
  by (simp add: room_frame_def)

lemma room_frame_trans: "room_frame r s \<Longrightarrow> room_frame s t \<Longrightarrow> room_frame r t"
  by (simp add: room_frame_def)

lemma room_frame_upd [simp]: "room_frame r (room_enter a r)" "room_frame r (room_leave a r)"
  by (simp_all add: room_frame_def room_enter_def room_leave_def)

lemma rooms_frame_same: "rooms g' = rooms g \<Longrightarrow> rooms_frame g g'"
  by (simp add: rooms_frame_def)

lemma rooms_frame_trans: "rooms_frame f g \<Longrightarrow> rooms_frame g h \<Longrightarrow> rooms_frame f h"
  unfolding rooms_frame_def by (meson room_frame_trans)

lemma rooms_frame_put:
  assumes "rooms g' = (rooms g)(k \<mapsto> r')" and "\<And>r. rooms g k = Some r \<Longrightarrow> room_frame r r'"
  shows "rooms_frame g g'"
  using assms by (auto simp: rooms_frame_def)

lemma rooms_frame_dom: "rooms_frame g g' \<Longrightarrow> dom (rooms g) \<subseteq> dom (rooms g')"
  by (auto simp: rooms_frame_def)

definition world_step :: "world \<Rightarrow> world \<Rightarrow> bool" where
  "world_step w w' \<longleftrightarrow> io_frame (net w) (net w') \<and>
     players (gs w') = players (gs w) \<and>
     (\<forall>a. map_option p_session (pheap (gs w') a) = map_option p_session (pheap (gs w) a)) \<and>
     (\<forall>a. map_option p_id (pheap (gs w') a) = map_option p_id (pheap (gs w) a)) \<and>
     rooms_frame (gs w) (gs w') \<and>
     nextPlayerId (gs w') = nextPlayerId (gs w) \<and>
     running (gs w') = running (gs w) \<and> g_FSM (gs w') = g_FSM (gs w) \<and>
     (game_wf (gs w) \<longrightarrow> game_wf (gs w'))"

lemma world_step_refl [simp, intro]: "world_step w w"
  by (simp add: world_step_def rooms_frame_same)

lemma world_step_trans: "world_step u v \<Longrightarrow> world_step v w \<Longrightarrow> world_step u w"
  unfolding world_step_def by simp (meson io_frame_trans rooms_frame_trans)

lemma world_step_ok:
  assumes "world_step w w'" and "world_ok w"
  shows "world_ok w'"
proof -
  have "\<exists>p. pheap (gs w) a = Some p \<and> p_session p' = p_session p" if "pheap (gs w') a = Some p'" for a p'
  proof -
    have "map_option p_session (pheap (gs w) a) = Some (p_session p')"
      using assms(1) that by (metis world_step_def option.simps(9))
    then show ?thesis by auto
  qed
  with assms show ?thesis by (auto simp: world_ok_def world_step_def intro: net_ok_mono)
qed

text \<open>A handler that returns and meets the contract.\<close>

definition safe_on :: "(world \<Rightarrow> world option) \<Rightarrow> world \<Rightarrow> bool" where
  "safe_on f w \<longleftrightarrow> (\<exists>w'. f w = Some w' \<and> world_step w w')"

lemma safe_onI: "f w = Some w' \<Longrightarrow> world_step w w' \<Longrightarrow> safe_on f w"
  by (auto simp: safe_on_def)

lemma safe_onE:
  assumes "safe_on f w"
  obtains w' where "f w = Some w'" "world_step w w'"
  using assms by (auto simp: safe_on_def)

lemma safe_on_Some [simp, intro]: "safe_on Some w"
  by (simp add: safe_on_def)

lemma safe_on_bind:
  assumes "safe_on f w" and "\<And>w'. f w = Some w' \<Longrightarrow> world_step w w' \<Longrightarrow> safe_on g w'"
  shows "safe_on (\<lambda>w. f w \<bind> g) w"
  using assms unfolding safe_on_def by (metis bind.bind_lunit world_step_trans)

lemma safe_on_cong: "f w = g w \<Longrightarrow> safe_on g w \<Longrightarrow> safe_on f w"
  by (simp add: safe_on_def)

lemma safe_on_for_each:
  assumes ok: "world_ok w" and f: "\<And>x w'. x \<in> set xs \<Longrightarrow> world_step w w' \<Longrightarrow> world_ok w' \<Longrightarrow> safe_on (f x) w'"
  shows "safe_on (for_each f xs) w"
proof -
  have "\<exists>w'. for_each f xs w = Some w' \<and> world_step w w'"
  proof (rule for_each_total)
    fix x w' assume x: "x \<in> set xs" and s: "world_step w w'"
    from f [OF x s world_step_ok [OF s ok]] s
    show "\<exists>w''. f x w' = Some w'' \<and> world_step w w''"
      by (auto elim!: safe_onE intro: world_step_trans)
  qed simp
  then show ?thesis by (auto simp: safe_on_def)
qed

section \<open>Elementary steps\<close>

lemma world_step_net: "io_frame (net w) n \<Longrightarrow> world_step w (w\<lparr>net := n\<rparr>)"
  by (simp add: world_step_def rooms_frame_same)

lemma world_okD:
  assumes "world_ok w"
  shows "game_wf (gs w)" and "net_ok w"
    and "pheap (gs w) a = Some p \<Longrightarrow> \<exists>x. sessions (net w) (p_session p) = Some x \<and> session_ok x \<and> \<not> s_gameCleanupDone x"
    and "players (gs w) s = Some a \<Longrightarrow> \<exists>p. pheap (gs w) a = Some p \<and> p_session p = s"
    and "players (gs w) s = Some a \<Longrightarrow> \<exists>x. sessions (net w) s = Some x \<and> session_ok x"
    and "sessions (net w) s = Some x \<Longrightarrow> session_ok x"
proof -
  show wf: "game_wf (gs w)" and n: "net_ok w" using assms by (simp_all add: world_ok_def)
  show h: "\<And>a p. pheap (gs w) a = Some p \<Longrightarrow> \<exists>x. sessions (net w) (p_session p) = Some x \<and> session_ok x \<and> \<not> s_gameCleanupDone x"
    using net_okD(1,3) [OF n] by blast
  show m: "\<And>s a. players (gs w) s = Some a \<Longrightarrow> \<exists>p. pheap (gs w) a = Some p \<and> p_session p = s"
    using game_wfD(1) [OF wf] by blast
  show "players (gs w) s = Some a \<Longrightarrow> \<exists>x. sessions (net w) s = Some x \<and> session_ok x"
    using m h by blast
  show "sessions (net w) s = Some x \<Longrightarrow> session_ok x" using net_okD(1) [OF n] by blast
qed

lemma SendPacket_safe:
  assumes "sessions (net w) s = Some x" and "session_ok x"
  shows "safe_on (on_net (SendPacket s pid (Some b) (w_Size b))) w"
proof -
  obtain n where "SendPacket s pid (Some b) (w_Size b) (net w) = Some n" "io_frame (net w) n"
    using SendPacket_frame [OF assms, of "Some b" b "w_Size b" pid] by (auto simp: w_Size_le)
  then show ?thesis by (intro safe_onI [of _ _ "w\<lparr>net := n\<rparr>"] world_step_net) auto
qed

lemma SendError_safe:
  assumes "world_ok w" and "players (gs w) s = Some a"
  shows "safe_on (SendError s pid code) w"
  using world_okD(5) [OF assms] SendPacket_safe by (auto simp: SendError_def Let_def safe_on_def)

lemma close_session_safe:
  assumes "world_ok w" and "players (gs w) s = Some a"
  shows "safe_on (close_session s) w"
proof -
  obtain x where x: "sessions (net w) s = Some x" "session_ok x" using world_okD(5) [OF assms] by blast
  obtain n where "RequestClose s (net w) = Some n" "io_frame (net w) n" using RequestClose_frame [OF x] by blast
  then show ?thesis
    by (intro safe_onI [of _ _ "w\<lparr>net := n\<rparr>"] world_step_net) (auto simp: close_session_def)
qed

lemma set_player_safe:
  assumes p: "pheap (gs w) a = Some p" and f: "p_session (f p) = p_session p" "p_room (f p) = p_room p" "p_id (f p) = p_id p"
  shows "safe_on (on_game (set_player a f)) w"
proof (rule safe_onI)
  show "on_game (set_player a f) w = Some (w\<lparr>gs := put_player a (f p) (gs w)\<rparr>)" using p by simp
  show "world_step w (w\<lparr>gs := put_player a (f p) (gs w)\<rparr>)"
    using p f wf_put_player [OF _ p f(1,2)] by (simp add: world_step_def rooms_frame_same)
qed

lemma put_room_step:
  assumes "r_players r' = (case rooms (gs w) k of None \<Rightarrow> [] | Some r \<Rightarrow> r_players r)"
    and "\<And>r. rooms (gs w) k = Some r \<Longrightarrow> room_frame r r'"
  shows "world_step w (w\<lparr>gs := put_room k r' (gs w)\<rparr>)"
  using wf_put_room [of "gs w", OF _ assms(1)] rooms_frame_put [of _ "gs w" k r', OF _ assms(2)]
  by (auto simp: world_step_def)

text \<open>What a step keeps of the players and the sessions.\<close>

lemma world_step_player:
  assumes "world_step w w'" and "pheap (gs w) a = Some p"
  shows "\<exists>p'. pheap (gs w') a = Some p' \<and> p_session p' = p_session p \<and> p_id p' = p_id p"
proof -
  have "map_option p_session (pheap (gs w') a) = Some (p_session p)" "map_option p_id (pheap (gs w') a) = Some (p_id p)"
    using assms by (simp_all add: world_step_def)
  then show ?thesis by auto
qed

lemma world_step_room:
  assumes "world_step w w'" and "rooms (gs w) k = Some r"
  shows "\<exists>r'. rooms (gs w') k = Some r' \<and> room_frame r r'"
proof -
  have "rooms_frame (gs w) (gs w')" using assms(1) by (simp add: world_step_def)
  with assms(2) show ?thesis by (simp add: rooms_frame_def)
qed

lemma world_step_map: "world_step w w' \<Longrightarrow> players (gs w') = players (gs w)"
  by (simp add: world_step_def)

section \<open>Leaving and joining\<close>

lemma LeaveRoom_step:
  assumes ok: "world_ok w" and p: "pheap (gs w) a = Some p"
  shows "\<exists>g p'. LeaveRoom a (gs w) = Some g \<and> pheap g a = Some p' \<and> p_room p' = None \<and>
    p' = p\<lparr>p_room := None\<rparr> \<and> (\<forall>b. b \<noteq> a \<longrightarrow> pheap g b = pheap (gs w) b) \<and>
    dom (rooms g) = dom (rooms (gs w)) \<and>
    world_step w (w\<lparr>gs := g\<rparr>)"
proof (cases "p_room p")
  case None
  then have "p\<lparr>p_room := None\<rparr> = p" by simp
  with None p show ?thesis by (simp add: LeaveRoom_def)
next
  case (Some k)
  from Room_Leave_member [OF world_okD(1) [OF ok] p Some] obtain r where r: "rooms (gs w) k = Some r"
    "Room_Leave k a (gs w) = Some (put_player a (p\<lparr>p_room := None\<rparr>) (put_room k (room_leave a r) (gs w)))"
    "game_wf (put_player a (p\<lparr>p_room := None\<rparr>) (put_room k (room_leave a r) (gs w)))" by blast
  then have "rooms_frame (gs w) (put_player a (p\<lparr>p_room := None\<rparr>) (put_room k (room_leave a r) (gs w)))"
    by (intro rooms_frame_put) auto
  with r show ?thesis using p Some by (auto simp: LeaveRoom_def world_step_def)
qed

lemma Room_Join_step:
  assumes ok: "world_ok w" and p: "pheap (gs w) a = Some p" "p_room p = None" and r: "rooms (gs w) k = Some r"
  shows "Room_Join k a (gs w) = Some (put_player a (p\<lparr>p_room := Some k\<rparr>) (put_room k (room_enter a r) (gs w)))"
    and "world_step w (w\<lparr>gs := put_player a (p\<lparr>p_room := Some k\<rparr>) (put_room k (room_enter a r) (gs w))\<rparr>)"
proof -
  let ?g = "put_player a (p\<lparr>p_room := Some k\<rparr>) (put_room k (room_enter a r) (gs w))"
  note j = Room_Join_outsider [OF world_okD(1) [OF ok] p r]
  from j show "Room_Join k a (gs w) = Some ?g" by blast
  have "rooms_frame (gs w) ?g" using r by (intro rooms_frame_put) auto
  with j p show "world_step w (w\<lparr>gs := ?g\<rparr>)" by (auto simp: world_step_def)
qed

lemma on_game_safe: "f (gs w) = Some g \<Longrightarrow> world_step w (w\<lparr>gs := g\<rparr>) \<Longrightarrow> safe_on (on_game f) w"
  by (rule safe_onI) auto

section \<open>Room state\<close>

definition session_of :: "game \<Rightarrow> paddr \<Rightarrow> sid" where
  "session_of g a = (case pheap g a of None \<Rightarrow> 0 | Some p \<Rightarrow> p_session p)"

definition info_of :: "game \<Rightarrow> paddr \<Rightarrow> u32 \<times> bool \<times> bytes" where
  "info_of g a = (case pheap g a of None \<Rightarrow> (0, False, []) | Some p \<Rightarrow> (p_id p, p_ready p, p_name p))"

lemma members_of_live:
  "(\<And>a. a \<in> set as \<Longrightarrow> pheap g a \<noteq> None) \<Longrightarrow> members_of g as = Some (map (info_of g) as)"
proof (induction as)
  case (Cons a as)
  then obtain p where "pheap g a = Some p" by force
  with Cons show ?case by (simp add: member_info_def info_of_def)
qed simp

lemma room_members_live:
  "game_wf g \<Longrightarrow> rooms g k = Some r \<Longrightarrow> a \<in> set (r_players r) \<Longrightarrow> pheap g a \<noteq> None"
  using game_wfD(3) by fastforce

lemma room_members_io_live:
  assumes ok: "world_ok w" and r: "rooms (gs w) k = Some r"
  shows "io_live (map (session_of (gs w)) (r_players r)) (net w)"
  unfolding io_live_def
proof
  fix s assume "s \<in> set (map (session_of (gs w)) (r_players r))"
  then obtain a where a: "a \<in> set (r_players r)" "s = session_of (gs w) a" by auto
  then obtain p where "pheap (gs w) a = Some p" using game_wfD(3) [OF world_okD(1) [OF ok] r] by blast
  with world_okD(3) [OF ok] a show "\<exists>x. sessions (net w) s = Some x \<and> session_ok x"
    by (auto simp: session_of_def)
qed

lemma member_sessions_distinct:
  assumes wf: "game_wf g" and r: "rooms g k = Some r"
  shows "distinct (map (session_of g) (r_players r))"
  unfolding distinct_map
proof (intro conjI inj_onI)
  fix a b assume "a \<in> set (r_players r)" "b \<in> set (r_players r)" and eq: "session_of g a = session_of g b"
  then obtain x y where "pheap g a = Some x" "pheap g b = Some y" using game_wfD(3) [OF wf r] by blast
  with eq game_wfD(2) [OF wf this(1)] game_wfD(2) [OF wf this(2)] show "a = b" by (simp add: session_of_def)
qed (rule game_wfD(5) [OF wf r])

definition room_state_of :: "game \<Rightarrow> room \<Rightarrow> bytes" where
  "room_state_of g r = room_state_body (r_id r) (r_capacity r) (map (info_of g) (r_players r))"

lemma for_each_cong_inv:
  assumes "P w" and "\<And>x w. x \<in> set xs \<Longrightarrow> P w \<Longrightarrow> f x w = g x w"
    and "\<And>x w w'. x \<in> set xs \<Longrightarrow> P w \<Longrightarrow> g x w = Some w' \<Longrightarrow> P w'"
  shows "for_each f xs w = for_each g xs w"
  using assms
proof (induction xs arbitrary: w)
  case (Cons x xs)
  show ?case
  proof (cases "g x w")
    case None
    with Cons.prems(1) Cons.prems(2) [of x w] show ?thesis by simp
  next
    case (Some w')
    have "P w'" using Cons.prems(3) [of x w w'] Cons.prems(1) Some by simp
    then have "for_each f xs w' = for_each g xs w'"
      by (rule Cons.IH) (use Cons.prems(2,3) in \<open>meson list.set_intros(2)\<close>)+
    with Some Cons.prems(1) Cons.prems(2) [of x w] show ?thesis by simp
  qed
qed simp

lemma for_each_map: "for_each f (map h xs) w = for_each (\<lambda>x. f (h x)) xs w"
  by (induction xs arbitrary: w) (auto split: option.splits)

text \<open>
  Broadcasting the room state is one packet, the same for all, to the members in join order.
\<close>

lemma BroadcastRoomState_send_all:
  assumes wf: "game_wf (gs w)" and r: "rooms (gs w) k = Some r"
  shows "BroadcastRoomState k w = on_net (send_all (map (session_of (gs w)) (r_players r))
    (pkt PKT_SC_ROOM_STATE) (room_state_of (gs w) r)) w"
proof -
  let ?b = "room_state_of (gs w) r"
  let ?f = "\<lambda>a w. do { p \<leftarrow> pheap (gs w) a; SendRoomState (p_session p) k w }"
  let ?g = "\<lambda>a. on_net (SendPacket (session_of (gs w) a) (pkt PKT_SC_ROOM_STATE) (Some ?b) (w_Size ?b))"
  have "for_each ?f (r_players r) w = for_each ?g (r_players r) w"
  proof (rule for_each_cong_inv [where P = "\<lambda>v. gs v = gs w"])
    fix a and v :: world assume a: "a \<in> set (r_players r)" and v: "gs v = gs w"
    obtain p where p: "pheap (gs w) a = Some p" using room_members_live [OF wf r a] by blast
    have "members_of (gs w) (r_players r) = Some (map (info_of (gs w)) (r_players r))"
      using room_members_live [OF wf r] by (intro members_of_live)
    then show "?f a v = ?g a v"
      using p v r by (simp add: SendRoomState_def session_of_def room_state_of_def Let_def)
  qed auto
  also have "\<dots> = on_net (for_each (\<lambda>a. SendPacket (session_of (gs w) a) (pkt PKT_SC_ROOM_STATE) (Some ?b) (w_Size ?b))
      (r_players r)) w"
    by (rule for_each_on_net)
  finally show ?thesis
    using r by (simp add: BroadcastRoomState_def send_all_def for_each_map on_net_def)
qed

lemma BroadcastRoomState_safe:
  assumes ok: "world_ok w" and r: "rooms (gs w) k = Some r"
  shows "safe_on (BroadcastRoomState k) w"
proof -
  obtain n where "send_all (map (session_of (gs w)) (r_players r)) (pkt PKT_SC_ROOM_STATE) (room_state_of (gs w) r) (net w) = Some n"
    "io_frame (net w) n"
    using send_all_frame [OF room_members_io_live [OF ok r]] by blast
  then show ?thesis
    using BroadcastRoomState_send_all [OF world_okD(1) [OF ok] r]
    by (intro safe_onI [of _ _ "w\<lparr>net := n\<rparr>"] world_step_net) auto
qed

end
