(* ===== verification/Chat_Facts.thy ===== *)
theory Chat_Facts
  imports Game_Facts
begin

text \<open>
  Chat: the layout of the packet that \<open>Player::SendChat\<close> fills by hand, the clipping of long
  messages, and who receives a message.
\<close>

section \<open>The layout\<close>

definition chat_layout :: "u32 \<Rightarrow> bytes \<Rightarrow> bytes \<Rightarrow> bytes" where
  "chat_layout i nm msg = le32 i @ le16 (of_nat (length nm)) @ nm @ le16 (of_nat (length msg)) @ msg"

lemma length_chat_layout [simp]: "length (chat_layout i nm msg) = 8 + length nm + length msg"
  by (simp add: chat_layout_def)

text \<open>Copying a whole array at the end of what is written, over the zeros of the vector.\<close>

lemma memcpy_append:
  assumes "length pre = nat d" "0 \<le> d" "unat n = length src" "length src \<le> k"
  shows "memcpy (pre @ replicate k 0) d src 0 n = Some ((pre @ src) @ replicate (k - length src) 0)"
  using assms by (simp add: memcpy_def)

lemma unat_of_nat_small: "n < 65536 \<Longrightarrow> unat (of_nat n :: u16) = n"
  by (simp add: unsigned_of_nat take_bit_nat_eq_self)

lemma unat_of_nat_pos: "n < 65536 \<Longrightarrow> (0 < (of_nat n :: u16)) = (0 < n)"
  by (simp add: word_less_nat_alt unat_of_nat_small)

lemma chat_body_eq:
  assumes "length nm < 65536" and "length msg < 65536"
  shows "chat_body i nm msg = Some (chat_layout i nm msg)"
proof -
  let ?n = "length nm" and ?m = "length msg"
  have s1: "memcpy (replicate (8 + ?n + ?m) 0) 0 (le32 i) 0 4 = Some (le32 i @ replicate (4 + ?n + ?m) 0)"
    using memcpy_append [of "[]" 0 4 "le32 i" "8 + ?n + ?m"] by simp
  have s2: "memcpy (le32 i @ replicate (4 + ?n + ?m) 0) 4 (le16 (of_nat ?n)) 0 2 =
      Some ((le32 i @ le16 (of_nat ?n)) @ replicate (2 + ?n + ?m) 0)"
    using memcpy_append [of "le32 i" 4 2 "le16 (of_nat ?n)" "4 + ?n + ?m"] by simp
  have s3: "memcpy ((le32 i @ le16 (of_nat ?n)) @ replicate (2 + ?n + ?m) 0) 6 nm 0 (ucast (of_nat ?n :: u16)) =
      Some ((le32 i @ le16 (of_nat ?n) @ nm) @ replicate (2 + ?m) 0)"
    using memcpy_append [of "le32 i @ le16 (of_nat ?n)" 6 "ucast (of_nat ?n :: u16)" nm "2 + ?n + ?m"] assms
    by (simp add: unat_of_nat_small)
  have s4: "memcpy ((le32 i @ le16 (of_nat ?n) @ nm) @ replicate (2 + ?m) 0) (6 + int ?n) (le16 (of_nat ?m)) 0 2 =
      Some ((le32 i @ le16 (of_nat ?n) @ nm @ le16 (of_nat ?m)) @ replicate ?m 0)"
    using memcpy_append [of "le32 i @ le16 (of_nat ?n) @ nm" "6 + int ?n" 2 "le16 (of_nat ?m)" "2 + ?m"]
    by (simp add: nat_add_distrib)
  have s5: "memcpy ((le32 i @ le16 (of_nat ?n) @ nm @ le16 (of_nat ?m)) @ replicate ?m 0) (8 + int ?n) msg 0
      (ucast (of_nat ?m :: u16)) = Some (chat_layout i nm msg)"
    using memcpy_append [of "le32 i @ le16 (of_nat ?n) @ nm @ le16 (of_nat ?m)" "8 + int ?n" "ucast (of_nat ?m :: u16)" msg ?m] assms
    by (simp add: nat_add_distrib unat_of_nat_small chat_layout_def)
  have off: "(if 0 < ?n then 6 + uint (of_nat ?n :: u16) else 6) = 6 + int ?n"
    using assms(1) by (simp add: uint_nat unat_of_nat_small del: unsigned_of_nat)
  have s3': "(if 0 < ?n then memcpy ((le32 i @ le16 (of_nat ?n)) @ replicate (2 + ?n + ?m) 0) 6 nm 0 (ucast (of_nat ?n :: u16))
      else Some ((le32 i @ le16 (of_nat ?n)) @ replicate (2 + ?n + ?m) 0)) =
      Some ((le32 i @ le16 (of_nat ?n) @ nm) @ replicate (2 + ?m) 0)"
    unfolding s3 by (cases "nm = []") simp_all
  have s5': "(if 0 < ?m then memcpy ((le32 i @ le16 (of_nat ?n) @ nm @ le16 (of_nat ?m)) @ replicate ?m 0) (6 + int ?n + 2) msg 0
      (ucast (of_nat ?m :: u16)) else Some ((le32 i @ le16 (of_nat ?n) @ nm @ le16 (of_nat ?m)) @ replicate ?m 0)) =
      Some (chat_layout i nm msg)"
  proof -
    have "6 + int ?n + 2 = 8 + int ?n" by simp
    then show ?thesis unfolding \<open>6 + int ?n + 2 = 8 + int ?n\<close> s5
      by (cases "msg = []") (simp_all add: chat_layout_def)
  qed
  have sz: "4 + 2 + ?n + 2 + ?m = 8 + ?n + ?m" by simp
  show ?thesis
    unfolding chat_body_def Let_def sz s1 bind.bind_lunit s2 unat_of_nat_pos [OF assms(1)] unat_of_nat_pos [OF assms(2)]
      off s3' s4 s5' ..
qed

section \<open>The broadcast\<close>

definition max_chat :: "bytes \<Rightarrow> nat" where
  "max_chat nm = 4084 - length nm"

definition chat_targets :: "game \<Rightarrow> room \<Rightarrow> paddr \<Rightarrow> sid list" where
  "chat_targets g r sender = map (session_of g) (filter (\<lambda>a. a \<noteq> sender) (r_players r))"

lemma Player_SendChat_eq:
  assumes "pheap (gs w) a = Some p" and "8 + length nm + length msg \<le> 4092"
  shows "Player_SendChat a i nm msg w =
    on_net (SendPacket (session_of (gs w) a) (pkt PKT_SC_CHAT) (Some (chat_layout i nm msg)) (w_Size (chat_layout i nm msg))) w"
  using assms by (simp add: Player_SendChat_def chat_body_eq MAX_PACKET_SIZE_def session_of_def w_Size_def)

lemma for_each_skip:
  "for_each (\<lambda>x w. if P x then Some w else f x w) xs w = for_each f (filter (\<lambda>x. \<not> P x) xs) w"
  by (induction xs arbitrary: w) (auto split: option.splits)

text \<open>One message is one packet, the same for all, to every other member, in join order.\<close>

lemma BroadcastChat_send_all:
  assumes wf: "game_wf (gs w)" and r: "rooms (gs w) k = Some r"
    and sp: "pheap (gs w) sender = Some sp" "p_room sp \<noteq> None" and nm: "length (p_name sp) < 4084"
  shows "Room_BroadcastChat k sender msg w =
    on_net (send_all (chat_targets (gs w) r sender) (pkt PKT_SC_CHAT)
      (chat_layout (p_id sp) (p_name sp) (take (max_chat (p_name sp)) msg))) w"
proof -
  let ?c = "take (max_chat (p_name sp)) msg"
  let ?b = "chat_layout (p_id sp) (p_name sp) ?c"
  let ?f = "\<lambda>a. Player_SendChat a (p_id sp) (p_name sp) ?c"
  let ?g = "\<lambda>a. on_net (SendPacket (session_of (gs w) a) (pkt PKT_SC_CHAT) (Some ?b) (w_Size ?b))"
  let ?xs = "filter (\<lambda>a. a \<noteq> sender) (r_players r)"
  have len: "8 + length (p_name sp) + length ?c \<le> 4092" using nm by (simp add: max_chat_def)
  have "for_each ?f ?xs w = for_each ?g ?xs w"
  proof (rule for_each_cong_inv [where P = "\<lambda>v. gs v = gs w"])
    fix a and v :: world assume a: "a \<in> set ?xs" and v: "gs v = gs w"
    then obtain p where p: "pheap (gs v) a = Some p" using room_members_live [OF wf r, of a] by auto
    from Player_SendChat_eq [OF p len] v show "?f a v = ?g a v" by simp
  qed auto
  also have "\<dots> = on_net (send_all (chat_targets (gs w) r sender) (pkt PKT_SC_CHAT) ?b) w"
    by (simp add: for_each_on_net send_all_def chat_targets_def for_each_map on_net_def)
  finally have loop: "for_each ?f ?xs w = on_net (send_all (chat_targets (gs w) r sender) (pkt PKT_SC_CHAT) ?b) w" .
  have mx: "unat MAX_PACKET_SIZE = 4096" by (simp add: MAX_PACKET_SIZE_def)
  obtain k0 where k0: "p_room sp = Some k0" using sp(2) by blast
  show ?thesis
    unfolding loop [symmetric] Room_BroadcastChat_def Let_def mx
    using sp(1) k0 r nm by (simp add: for_each_skip max_chat_def)
qed

lemma BroadcastChat_long_name:
  assumes "pheap (gs w) sender = Some sp" "4084 \<le> length (p_name sp)"
  shows "Room_BroadcastChat k sender msg w = Some w"
  using assms by (simp add: Room_BroadcastChat_def MAX_PACKET_SIZE_def Let_def)

lemma io_live_subset: "io_live ss n \<Longrightarrow> set ts \<subseteq> set ss \<Longrightarrow> io_live ts n"
  by (auto simp: io_live_def)

lemma BroadcastChat_safe:
  assumes ok: "world_ok w" and r: "rooms (gs w) k = Some r" and sp: "pheap (gs w) sender = Some sp" "p_room sp \<noteq> None"
  shows "safe_on (Room_BroadcastChat k sender msg) w"
proof (cases "length (p_name sp) < 4084")
  case True
  have "io_live (chat_targets (gs w) r sender) (net w)"
    by (rule io_live_subset [OF room_members_io_live [OF ok r]]) (auto simp: chat_targets_def)
  then obtain n where "send_all (chat_targets (gs w) r sender) (pkt PKT_SC_CHAT)
      (chat_layout (p_id sp) (p_name sp) (take (max_chat (p_name sp)) msg)) (net w) = Some n" "io_frame (net w) n"
    using send_all_frame by blast
  then show ?thesis using BroadcastChat_send_all [OF world_okD(1) [OF ok] r sp True, of msg]
    by (intro safe_onI [of _ _ "w\<lparr>net := n\<rparr>"] world_step_net) auto
next
  case False
  then show ?thesis using BroadcastChat_long_name [OF sp(1), of k msg] by (simp add: safe_on_def)
qed

end
