(* ===== verification/Handler_Facts.thy ===== *)
theory Handler_Facts
  imports Chat_Facts
begin

text \<open>
  The handlers of the packets, branch by branch, and their safety. A packet that reached the
  queue satisfies \<open>packet_ok\<close>: its body has the announced length.
\<close>

section \<open>Bodies of queued packets\<close>

lemma packet_body:
  assumes "packet_ok p"
  shows "body_size (header p) = int (length (body p))"
    and "(ucast (h_size (header p)) :: size_t) < HEADER_SIZE + 4 \<longleftrightarrow> length (body p) < 4"
proof -
  note b = packet_okD [OF assms]
  show "body_size (header p) = int (length (body p))" using b by (simp add: body_size_eq of_nat_diff)
  have "HEADER_SIZE + 4 = 8" by (simp add: HEADER_SIZE_def)
  then have "(ucast (h_size (header p)) :: size_t) < HEADER_SIZE + 4 \<longleftrightarrow> unat (h_size (header p)) < 8"
    by (simp only: word_less_nat_alt) simp
  then show "(ucast (h_size (header p)) :: size_t) < HEADER_SIZE + 4 \<longleftrightarrow> length (body p) < 4" using b by auto
qed

section \<open>Login\<close>

lemma HandleLogin_eq:
  assumes "packet_ok p" and "players (gs w) s = Some a" and "pheap (gs w) a = Some q"
  shows "HandleLogin s p w = Some (if body p = [] then w else w\<lparr>gs := put_player a (q\<lparr>p_name := body p\<rparr>) (gs w)\<rparr>)"
  using assms by (simp add: HandleLogin_def packet_body Let_def GetPlayer_def)

lemma FSM_Login_eq:
  assumes "packet_ok p" and "players (gs w) s = Some a" and "pheap (gs w) a = Some q"
  shows "run_FSM_Login s a p w = Some (w\<lparr>gs := put_player a
    (q\<lparr>p_name := (if body p = [] then p_name q else body p), p_state := LoggedIn\<rparr>) (gs w)\<rparr>)"
  using assms by (simp add: run_FSM_Login_def HandleLogin_eq put_player_def)

lemma FSM_Login_safe:
  assumes "world_ok w" "packet_ok p" "players (gs w) s = Some a"
  shows "safe_on (run_FSM_Login s a p) w"
proof -
  obtain q where q: "pheap (gs w) a = Some q" using world_okD(4) [OF assms(1,3)] by blast
  let ?q = "q\<lparr>p_name := (if body p = [] then p_name q else body p), p_state := LoggedIn\<rparr>"
  have "world_step w (w\<lparr>gs := put_player a ?q (gs w)\<rparr>)"
    using set_player_safe [OF q, of "\<lambda>_. ?q"] q by (auto elim!: safe_onE)
  then show ?thesis using FSM_Login_eq [OF assms(2,3) q] by (rule_tac safe_onI)
qed

section \<open>Entering a chat room\<close>

text \<open>Moving to a room that exists or is created.\<close>

lemma GetOrCreateRoom_step:
  assumes ok: "world_ok w" and g: "GetOrCreateRoom k (gs w) = (k', g)"
  shows "k' = k" and "world_step w (w\<lparr>gs := g\<rparr>)" and "\<exists>r. rooms g k = Some r" and "pheap g = pheap (gs w)"
    and "\<And>r. rooms (gs w) k = Some r \<Longrightarrow> g = gs w"
proof -
  show "k' = k" "\<exists>r. rooms g k = Some r" "pheap g = pheap (gs w)" "\<And>r. rooms (gs w) k = Some r \<Longrightarrow> g = gs w"
    using g by (auto simp: GetOrCreateRoom_def FindRoom_def split: option.splits)
  show "world_step w (w\<lparr>gs := g\<rparr>)"
  proof (cases "rooms (gs w) k")
    case None
    with g have "g = put_room k (new_Room (ucast k)) (gs w)" by (auto simp: GetOrCreateRoom_def FindRoom_def)
    then show ?thesis using put_room_step [of "new_Room (ucast k)" w k] None by (simp add: new_Room_def)
  next
    case (Some r)
    with g have "g = gs w" by (simp add: GetOrCreateRoom_def FindRoom_def)
    then show ?thesis by simp
  qed
qed

lemma EnterRoom_step:
  assumes ok: "world_ok w" and p: "pheap (gs w) a = Some p"
  shows "\<exists>g. EnterRoom a k (gs w) = Some g \<and> pheap g a = Some (p\<lparr>p_room := Some k\<rparr>) \<and>
    (\<forall>b. b \<noteq> a \<longrightarrow> pheap g b = pheap (gs w) b) \<and> (\<exists>r. rooms g k = Some r \<and> last (r_players r) = a) \<and>
    world_step w (w\<lparr>gs := g\<rparr>)"
proof -
  obtain g1 where g1: "LeaveRoom a (gs w) = Some g1" "pheap g1 a = Some (p\<lparr>p_room := None\<rparr>)"
    "\<forall>b. b \<noteq> a \<longrightarrow> pheap g1 b = pheap (gs w) b" "world_step w (w\<lparr>gs := g1\<rparr>)"
    using LeaveRoom_step [OF ok p] by blast
  let ?w1 = "w\<lparr>gs := g1\<rparr>"
  have ok1: "world_ok ?w1" using g1(4) ok by (rule world_step_ok)
  obtain k' g2 where gc: "GetOrCreateRoom k (gs ?w1) = (k', g2)" by (cases "GetOrCreateRoom k (gs ?w1)")
  note c = GetOrCreateRoom_step [OF ok1 gc]
  obtain r where r: "rooms g2 k = Some r" using c(3) by blast
  let ?w2 = "w\<lparr>gs := g2\<rparr>"
  have s2: "world_step ?w1 ?w2" using c(2) by simp
  have ok2: "world_ok ?w2" using world_step_ok [OF s2 ok1] .
  have p2: "pheap (gs ?w2) a = Some (p\<lparr>p_room := None\<rparr>)" using c(4) g1(2) by simp
  have r2: "rooms (gs ?w2) k = Some r" using r by simp
  have "a \<notin> set (r_players r)"
    using game_wfD(3) [OF world_okD(1) [OF ok2] r2] p2 by fastforce
  then have l: "last (r_players (room_enter a r)) = a" by (simp add: room_enter_def)
  let ?g = "put_player a (p\<lparr>p_room := Some k\<rparr>) (put_room k (room_enter a r) g2)"
  have j: "Room_Join k a g2 = Some ?g" "world_step ?w2 (w\<lparr>gs := ?g\<rparr>)"
    using Room_Join_step [OF ok2 p2 _ r2] by simp_all
  have "EnterRoom a k (gs w) = Some ?g"
    using g1(1) gc c(1) j(1) p by (simp add: EnterRoom_def LeaveRoom_def)
  moreover have "world_step w (w\<lparr>gs := ?g\<rparr>)"
    using g1(4) s2 j(2) by (blast intro: world_step_trans)
  ultimately show ?thesis using l g1(3) c(4) by auto
qed

lemma HandleEnterRoom_eq:
  assumes "packet_ok p" and "players (gs w) s = Some a" and "pheap (gs w) a = Some q"
  shows "HandleEnterRoom s p w = (if p_name q = [] \<or> length (body p) < 4 then Some w
    else on_game (EnterRoom a (of_le32 (body p))) w)"
  using assms by (simp add: HandleEnterRoom_def packet_body GetPlayer_def IsLoggedIn_def)

lemma HandleEnterRoom_safe:
  assumes ok: "world_ok w" and p: "packet_ok p" and a: "players (gs w) s = Some a"
  shows "safe_on (HandleEnterRoom s p) w"
proof -
  obtain q where q: "pheap (gs w) a = Some q" using world_okD(4) [OF ok a] by blast
  have "safe_on (on_game (EnterRoom a (of_le32 (body p)))) w"
    using EnterRoom_step [OF ok q] on_game_safe by blast
  then show ?thesis by (auto simp: safe_on_def HandleEnterRoom_eq [OF p a q])
qed

lemma FSM_EnterRoom_safe:
  assumes ok: "world_ok w" and p: "packet_ok p" and a: "players (gs w) s = Some a"
  shows "safe_on (run_FSM_EnterRoom s a p) w"
  unfolding run_FSM_EnterRoom_def
proof (rule safe_on_bind [OF HandleEnterRoom_safe [OF assms]])
  fix w1 assume s1: "world_step w w1"
  obtain q where q: "pheap (gs w1) a = Some q"
    using world_okD(4) [OF ok a] world_step_player [OF s1] by blast
  have "safe_on (on_game (set_player a (\<lambda>q. q\<lparr>p_state := InRoom\<rparr>))) w1"
    by (rule set_player_safe [OF q]) simp_all
  with q show "safe_on (\<lambda>w1. do { q \<leftarrow> pheap (gs w1) a;
      if p_room q \<noteq> None then on_game (set_player a (\<lambda>q. q\<lparr>p_state := InRoom\<rparr>)) w1 else Some w1 }) w1"
    by (auto simp: safe_on_def)
qed

section \<open>Chat\<close>

lemma HandleChat_eq:
  assumes "packet_ok p" and "pheap (gs w) a = Some q"
  shows "HandleChat a p w = (case p_room q of None \<Rightarrow> Some w
    | Some k \<Rightarrow> if p_name q = [] \<or> body p = [] then Some w else Room_BroadcastChat k a (body p) w)"
  using assms by (auto simp: HandleChat_def packet_body IsLoggedIn_def Let_def split: option.splits)

lemma FSM_Chat_safe:
  assumes ok: "world_ok w" and p: "packet_ok p" and a: "players (gs w) s = Some a"
  shows "safe_on (run_FSM_Chat s p) w"
proof -
  obtain q where q: "pheap (gs w) a = Some q" using world_okD(4) [OF ok a] by blast
  show ?thesis
  proof (cases "p_room q")
    case None
    then show ?thesis using a q p by (simp add: safe_on_def run_FSM_Chat_def HandleChat_eq)
  next
    case (Some k)
    obtain r where "rooms (gs w) k = Some r" using game_wfD(4) [OF world_okD(1) [OF ok] q Some] by blast
    from BroadcastChat_safe [OF ok this q] Some have "safe_on (Room_BroadcastChat k a (body p)) w" by simp
    then show ?thesis using a q p Some by (auto simp: safe_on_def run_FSM_Chat_def HandleChat_eq)
  qed
qed

section \<open>Hello\<close>

lemma HandleHello_bad_size:
  assumes "packet_ok p" and "players (gs w) s = Some a" and "length (body p) \<noteq> 2"
  shows "HandleHello e s p w = do { w1 \<leftarrow> SendError s PKT_CS_HELLO ERR_BAD_FORMAT w; close_session s w1 }"
  using assms by (simp add: HandleHello_def packet_body GetPlayer_def)

lemma HandleHello_bad_version:
  assumes "packet_ok p" and "players (gs w) s = Some a" and "length (body p) = 2" "of_le16 (body p) \<noteq> PROTOCOL_VERSION"
  shows "HandleHello e s p w = do { w1 \<leftarrow> SendError s PKT_CS_HELLO ERR_VERSION_MISMATCH w; close_session s w1 }"
  using assms by (simp add: HandleHello_def packet_body GetPlayer_def)

definition hello_name :: "player \<Rightarrow> bytes" where
  "hello_name q = (if p_name q = [] then ascii ''Player '' @ dec_string (unat (p_id q)) else p_name q)"

lemma HandleHello_ok:
  assumes "packet_ok p" and "players (gs w) s = Some a" and "pheap (gs w) a = Some q"
    and "length (body p) = 2" "of_le16 (body p) = PROTOCOL_VERSION"
  shows "HandleHello e s p w = do {
    let wb = welcome_body (p_id q) (CurrentTick (e_tick e));
    n \<leftarrow> SendPacket s (pkt PKT_SC_WELCOME) (Some wb) (w_Size wb) (net w);
    Some (w\<lparr>net := n, gs := put_player a (q\<lparr>p_name := hello_name q, p_state := LoggedIn\<rparr>) (gs w)\<rparr>) }"
  using assms
  by (simp add: HandleHello_def packet_body GetPlayer_def hello_name_def on_net_def on_game_def put_player_def Let_def set_player_def
      cong: if_cong split: option.splits bind_split)

lemma HandleHello_safe:
  assumes ok: "world_ok w" and p: "packet_ok p" and a: "players (gs w) s = Some a"
  shows "safe_on (HandleHello e s p) w"
proof -
  have err: "safe_on (\<lambda>w. do { w1 \<leftarrow> SendError s PKT_CS_HELLO code w; close_session s w1 }) w" for code
  proof (rule safe_on_bind [OF SendError_safe [OF ok a]])
    fix w1 assume s1: "world_step w w1"
    show "safe_on (close_session s) w1"
      using close_session_safe [OF world_step_ok [OF s1 ok]] world_step_map [OF s1] a by simp
  qed
  consider "length (body p) \<noteq> 2" | "length (body p) = 2" "of_le16 (body p) \<noteq> PROTOCOL_VERSION"
    | "length (body p) = 2" "of_le16 (body p) = PROTOCOL_VERSION" by blast
  then show ?thesis
  proof cases
    case 1
    with err show ?thesis by (simp add: safe_on_def HandleHello_bad_size [OF p a])
  next
    case 2
    with err show ?thesis by (simp add: safe_on_def HandleHello_bad_version [OF p a])
  next
    case 3
    obtain q where q: "pheap (gs w) a = Some q" using world_okD(4) [OF ok a] by blast
    let ?wb = "welcome_body (p_id q) (CurrentTick (e_tick e))"
    let ?q = "q\<lparr>p_name := hello_name q, p_state := LoggedIn\<rparr>"
    obtain x where x: "sessions (net w) s = Some x" "session_ok x" using world_okD(5) [OF ok a] by blast
    obtain n where n: "SendPacket s (pkt PKT_SC_WELCOME) (Some ?wb) (w_Size ?wb) (net w) = Some n" "io_frame (net w) n"
      using SendPacket_frame [OF x, of "Some ?wb" ?wb "w_Size ?wb"] by (auto simp: w_Size_le)
    have "world_step (w\<lparr>net := n\<rparr>) (w\<lparr>net := n, gs := put_player a ?q (gs w)\<rparr>)"
      using set_player_safe [of "w\<lparr>net := n\<rparr>" a q "\<lambda>_. ?q"] q by (auto elim!: safe_onE)
    with world_step_net [OF n(2)] have "world_step w (w\<lparr>net := n, gs := put_player a ?q (gs w)\<rparr>)"
      by (blast intro: world_step_trans)
    then show ?thesis using n(1) HandleHello_ok [OF p a q 3, of e] by (auto simp: safe_on_def)
  qed
qed

end
