(* ===== verification/Waiting_Room_Facts.thy ===== *)
theory Waiting_Room_Facts
  imports Handler_Facts
begin

text \<open>
  The waiting room: what \<open>AcquireGameRoom\<close> returns, joining, readiness and the start of a
  match; then every packet, whatever its handler.
\<close>

section \<open>Acquiring a room\<close>

lemma joinable_iff: "joinable g k \<longleftrightarrow>
  (\<exists>r. rooms g k = Some r \<and> r_capacity r \<noteq> 0 \<and> \<not> r_started r \<and> \<not> IsFull r)"
  by (auto simp: joinable_def split: option.splits)

lemma new_game_room_simps [simp]: "r_players (new_game_room k) = []" "r_capacity (new_game_room k) = 2"
  "r_started (new_game_room k) = False" "r_id (new_game_room k) = ucast k" "\<not> IsFull (new_game_room k)"
  by (simp_all add: new_game_room_def new_Room_def GAME_ROOM_CAPACITY_def IsFull_def)

text \<open>An automatic match makes a room whose key is already in use, or the counter of keys overflows.\<close>

definition acquire_collides :: "room_key list \<Rightarrow> i32 \<Rightarrow> game \<Rightarrow> bool" where
  "acquire_collides order requested g \<longleftrightarrow>
     requested = 0 \<and> find (joinable g) order = None \<and>
     (rooms g (nextGameRoomId g) \<noteq> None \<or> nextGameRoomId g = INT32_MAX)"

lemma AcquireGameRoom_collides:
  "acquire_collides order requested g \<longleftrightarrow>
    (case AcquireGameRoom order requested g of None \<Rightarrow> True | Some (ref, g') \<Rightarrow> ref = DanglingRoom)"
  by (auto simp: AcquireGameRoom_def acquire_collides_def emplace_game_room_def split: option.splits)

lemma AcquireGameRoom_room:
  assumes "AcquireGameRoom order requested g = Some (RoomAt k, g')"
  shows "\<exists>r. rooms g' k = Some r \<and> r_capacity r \<noteq> 0"
  using assms
  by (auto simp: AcquireGameRoom_def emplace_game_room_def find_Some_iff joinable_iff GAME_ROOM_CAPACITY_def
      split: option.splits if_splits)

lemma AcquireGameRoom_step:
  assumes "AcquireGameRoom order requested (gs w) = Some (ref, g)"
  shows "world_step w (w\<lparr>gs := g\<rparr>)" and "pheap g = pheap (gs w)" and "players g = players (gs w)"
proof -
  have step: "world_step w (w\<lparr>gs := put_room k r' g0\<rparr>)"
    if "players g0 = players (gs w)" "pheap g0 = pheap (gs w)" "rooms g0 = rooms (gs w)" "nextPlayerId g0 = nextPlayerId (gs w)"
      "running g0 = running (gs w)" "g_FSM g0 = g_FSM (gs w)"
      "r_players r' = (case rooms (gs w) k of None \<Rightarrow> [] | Some r \<Rightarrow> r_players r)"
      "\<And>r. rooms (gs w) k = Some r \<Longrightarrow> room_frame r r'" for g0 k r'
  proof -
    have "world_step w (w\<lparr>gs := g0\<rparr>)"
      using that wf_cong [of "gs w" g0] by (auto simp: world_step_def rooms_frame_same)
    moreover have "world_step (w\<lparr>gs := g0\<rparr>) (w\<lparr>gs := put_room k r' g0\<rparr>)"
      using put_room_step [of r' "w\<lparr>gs := g0\<rparr>" k] that by simp
    ultimately show ?thesis by (rule world_step_trans)
  qed
  have bump: "world_step w (w\<lparr>gs := (gs w)\<lparr>nextGameRoomId := n\<rparr>\<rparr>)" for n
    using wf_cong [of "gs w" "(gs w)\<lparr>nextGameRoomId := n\<rparr>"] by (auto simp: world_step_def rooms_frame_same)
  have new: "world_step w (w\<lparr>gs := put_room k (new_game_room k) g0\<rparr>)"
    if "rooms (gs w) k = None" "g0 = gs w \<or> (\<exists>n. g0 = (gs w)\<lparr>nextGameRoomId := n\<rparr>)" for g0 k
    by (rule step) (use that in auto)
  have turn: "world_step w (w\<lparr>gs := put_room k (r\<lparr>r_capacity := c\<rparr>) (gs w)\<rparr>)"
    if "rooms (gs w) k = Some r" "r_capacity r = 0" for k r c
    by (rule step) (use that in \<open>auto simp: room_frame_def\<close>)
  show "world_step w (w\<lparr>gs := g\<rparr>)"
    using assms new turn bump
    by (auto simp: AcquireGameRoom_def emplace_game_room_def split: option.splits if_splits)
  show "pheap g = pheap (gs w)" "players g = players (gs w)"
    using assms by (auto simp: AcquireGameRoom_def emplace_game_room_def split: option.splits if_splits)
qed

section \<open>Taking a seat\<close>

lemma seat_player_step:
  assumes ok: "world_ok w" and p: "pheap (gs w) a = Some p" and r: "rooms (gs w) k = Some r0"
  shows "\<exists>w4. safe_on (BroadcastRoomState k) w4 \<and> world_step w w4 \<and> seat_player a k w = BroadcastRoomState k w4 \<and>
    net w4 = net w \<and> pheap (gs w4) a = Some (p\<lparr>p_room := Some k, p_ready := False, p_state := InRoom\<rparr>) \<and>
    (\<forall>b. b \<noteq> a \<longrightarrow> pheap (gs w4) b = pheap (gs w) b) \<and>
    (\<exists>g1 r1. LeaveRoom a (gs w) = Some g1 \<and> rooms g1 k = Some r1 \<and> rooms (gs w4) = (rooms g1)(k \<mapsto> room_enter a r1) \<and> a \<notin> set (r_players r1))"
proof -
  obtain g1 where g1: "LeaveRoom a (gs w) = Some g1" "pheap g1 a = Some (p\<lparr>p_room := None\<rparr>)"
    "\<forall>b. b \<noteq> a \<longrightarrow> pheap g1 b = pheap (gs w) b" "world_step w (w\<lparr>gs := g1\<rparr>)" "dom (rooms g1) = dom (rooms (gs w))"
    using LeaveRoom_step [OF ok p] by blast
  then obtain r where r: "rooms g1 k = Some r" using r by blast
  let ?p2 = "p\<lparr>p_room := None, p_ready := False\<rparr>"
  let ?g2 = "put_player a ?p2 g1"
  have s2: "world_step (w\<lparr>gs := g1\<rparr>) (w\<lparr>gs := ?g2\<rparr>)"
    using set_player_safe [of "w\<lparr>gs := g1\<rparr>" a "p\<lparr>p_room := None\<rparr>" "\<lambda>q. q\<lparr>p_ready := False\<rparr>"] g1(2)
    by (auto elim!: safe_onE)
  have st2: "world_step w (w\<lparr>gs := ?g2\<rparr>)" using g1(4) s2 by (rule world_step_trans)
  have ok2: "world_ok (w\<lparr>gs := ?g2\<rparr>)" using world_step_ok [OF st2 ok] .
  let ?p3 = "?p2\<lparr>p_room := Some k\<rparr>"
  let ?g3 = "put_player a ?p3 (put_room k (room_enter a r) ?g2)"
  have j: "Room_Join k a ?g2 = Some ?g3" "world_step (w\<lparr>gs := ?g2\<rparr>) (w\<lparr>gs := ?g3\<rparr>)"
    using Room_Join_step [OF ok2, of a ?p2 k r] r by simp_all
  have out: "a \<notin> set (r_players r)"
    using Room_Join_outsider [OF world_okD(1) [OF ok2], of a ?p2 k r] r by simp
  have st3: "world_step w (w\<lparr>gs := ?g3\<rparr>)" using st2 j(2) by (rule world_step_trans)
  let ?g4 = "put_player a (?p3\<lparr>p_state := InRoom\<rparr>) ?g3"
  let ?w4 = "w\<lparr>gs := ?g4\<rparr>"
  have "world_step (w\<lparr>gs := ?g3\<rparr>) ?w4"
    using set_player_safe [of "w\<lparr>gs := ?g3\<rparr>" a ?p3 "\<lambda>q. q\<lparr>p_state := InRoom\<rparr>"] by (auto elim!: safe_onE)
  with st3 have st4: "world_step w ?w4" by (rule world_step_trans)
  have eq: "seat_player a k w = BroadcastRoomState k ?w4"
    using g1 j(1) by (simp add: seat_player_def on_game_def set_player_def)
  have "safe_on (BroadcastRoomState k) ?w4"
    using BroadcastRoomState_safe [OF world_step_ok [OF st4 ok]] by simp
  then show ?thesis using eq st4 g1 r out by (intro exI [of _ ?w4]) auto
qed

lemma seat_player_safe:
  assumes ok: "world_ok w" and p: "pheap (gs w) a = Some p" and r: "rooms (gs w) k = Some r"
  shows "safe_on (seat_player a k) w"
proof -
  from seat_player_step [OF assms] obtain w4 where "safe_on (BroadcastRoomState k) w4" "world_step w w4"
    "seat_player a k w = BroadcastRoomState k w4" by blast
  then show ?thesis by (auto simp: safe_on_def intro: world_step_trans)
qed

section \<open>Join\<close>

lemma HandleJoinRoom_eq:
  assumes "packet_ok p" and "players (gs w) s = Some a"
  shows "HandleJoinRoom e s p w =
    (if length (body p) \<noteq> 4 then SendError s PKT_CS_JOIN_ROOM ERR_BAD_FORMAT w
     else if sint (of_le32 (body p)) < 0 then SendError s PKT_CS_JOIN_ROOM ERR_NO_SUCH_ROOM w
     else do {
       (ref, g1) \<leftarrow> AcquireGameRoom (e_order e) (of_le32 (body p)) (gs w);
       let w1 = w\<lparr>gs := g1\<rparr>;
       (case ref of
          NullRoom \<Rightarrow> SendError s PKT_CS_JOIN_ROOM ERR_NO_SUCH_ROOM w1
        | DanglingRoom \<Rightarrow> None
        | RoomAt k \<Rightarrow> do {
            r \<leftarrow> rooms g1 k;
            if r_started r then SendError s PKT_CS_JOIN_ROOM ERR_MATCH_ENDED w1
            else if IsFull r then SendError s PKT_CS_JOIN_ROOM ERR_ROOM_FULL w1
            else seat_player a k w1
          })
     })"
  using assms by (simp add: HandleJoinRoom_def packet_body GetPlayer_def Let_def cong: room_ref.case_cong)

lemma sint_zero_iff: "sint (x :: i32) < 0 \<Longrightarrow> x \<noteq> 0"
  by auto

definition join_collides :: "env \<Rightarrow> Packet \<Rightarrow> world \<Rightarrow> bool" where
  "join_collides e p w \<longleftrightarrow> length (body p) = 4 \<and> acquire_collides (e_order e) (of_le32 (body p)) (gs w)"

text \<open>The join uses a freed room exactly when an automatic match finds its next key taken.\<close>

lemma HandleJoinRoom_safe:
  assumes ok: "world_ok w" and p: "packet_ok p" and a: "players (gs w) s = Some a"
  shows "HandleJoinRoom e s p w = None \<longleftrightarrow> join_collides e p w"
    and "\<not> join_collides e p w \<Longrightarrow> safe_on (HandleJoinRoom e s p) w"
proof -
  have *: "(if join_collides e p w then HandleJoinRoom e s p w = None else safe_on (HandleJoinRoom e s p) w)"
  proof (cases "length (body p) = 4 \<and> \<not> sint (of_le32 (body p)) < 0")
    case False
    then have nc: "\<not> join_collides e p w" by (auto simp: join_collides_def acquire_collides_def)
    have "\<exists>code. HandleJoinRoom e s p w = SendError s PKT_CS_JOIN_ROOM code w"
      using False by (auto simp: HandleJoinRoom_eq [OF p a])
    with SendError_safe [OF ok a] nc show ?thesis by (auto simp: safe_on_def)
  next
    case True
    note col0 = AcquireGameRoom_collides [of "e_order e" "of_le32 (body p)" "gs w"]
    show ?thesis
    proof (cases "AcquireGameRoom (e_order e) (of_le32 (body p)) (gs w)")
      case None
      then show ?thesis using col0 True by (simp add: join_collides_def HandleJoinRoom_eq [OF p a])
    next
      case (Some rg)
      then obtain ref g1 where acq: "AcquireGameRoom (e_order e) (of_le32 (body p)) (gs w) = Some (ref, g1)"
        by (cases rg) simp
      have col: "join_collides e p w \<longleftrightarrow> ref = DanglingRoom" using col0 acq True by (simp add: join_collides_def)
      let ?w1 = "w\<lparr>gs := g1\<rparr>"
      have st1: "world_step w ?w1" using AcquireGameRoom_step(1) [OF acq] .
      have ok1: "world_ok ?w1" using world_step_ok [OF st1 ok] .
      have a1: "players (gs ?w1) s = Some a" using AcquireGameRoom_step(3) [OF acq] a by simp
      have eq: "HandleJoinRoom e s p w =
         (case ref of NullRoom \<Rightarrow> SendError s PKT_CS_JOIN_ROOM ERR_NO_SUCH_ROOM ?w1
          | DanglingRoom \<Rightarrow> None
          | RoomAt k \<Rightarrow> do {
              r \<leftarrow> rooms g1 k;
              if r_started r then SendError s PKT_CS_JOIN_ROOM ERR_MATCH_ENDED ?w1
              else if IsFull r then SendError s PKT_CS_JOIN_ROOM ERR_ROOM_FULL ?w1
              else seat_player a k ?w1 })"
        using HandleJoinRoom_eq [OF p a, of e] True acq by (simp add: Let_def)
      have err: "safe_on (SendError s PKT_CS_JOIN_ROOM code) ?w1" for code
        using SendError_safe [OF ok1 a1] .
      have fin: "safe_on (HandleJoinRoom e s p) w" if "HandleJoinRoom e s p w = f ?w1" "safe_on f ?w1" for f
        using that st1 by (auto simp: safe_on_def intro: world_step_trans)
      show ?thesis
      proof (cases ref)
        case NullRoom
        then show ?thesis using eq col fin err by simp
      next
        case (RoomAt k)
        then obtain r where r: "rooms g1 k = Some r" using AcquireGameRoom_room acq by blast
        obtain q where q: "pheap (gs ?w1) a = Some q" using world_okD(4) [OF ok1 a1] by blast
        have "safe_on (seat_player a k) ?w1" using seat_player_safe [OF ok1 q] r by simp
        then show ?thesis using eq col RoomAt r fin err by (auto split: if_splits)
      next
        case DanglingRoom
        then show ?thesis using eq col by simp
      qed
    qed
  qed
  then show "HandleJoinRoom e s p w = None \<longleftrightarrow> join_collides e p w"
    by (auto simp: safe_on_def split: if_splits)
  show "\<not> join_collides e p w \<Longrightarrow> safe_on (HandleJoinRoom e s p) w" using * by simp
qed

section \<open>Starting a match\<close>

text \<open>A full, unstarted game room whose members are all ready.\<close>

definition start_ready :: "game \<Rightarrow> room \<Rightarrow> bool" where
  "start_ready g r \<longleftrightarrow> \<not> r_started r \<and> r_capacity r \<noteq> 0 \<and> length (r_players r) = unat (r_capacity r) \<and>
     list_all (\<lambda>a. fst (snd (info_of g a))) (r_players r)"

definition enter_match :: "paddr list \<Rightarrow> game \<Rightarrow> game" where
  "enter_match as g = g\<lparr>pheap := (\<lambda>a. if a \<in> set as then map_option (\<lambda>p. p\<lparr>p_state := InGame\<rparr>) (pheap g a) else pheap g a)\<rparr>"

definition start_room :: "room_key \<Rightarrow> room \<Rightarrow> game \<Rightarrow> game" where
  "start_room k r g = put_room k (r\<lparr>r_started := True\<rparr>) (g\<lparr>nextMatchId := nextMatchId g + 1\<rparr>)"

definition start_body :: "game \<Rightarrow> room \<Rightarrow> bytes" where
  "start_body g r = game_start_body (nextMatchId g) (map (fst \<circ> info_of g) (r_players r))"

lemma all_ready_live:
  "(\<And>a. a \<in> set as \<Longrightarrow> pheap g a \<noteq> None) \<Longrightarrow> all_ready g as = Some (list_all (\<lambda>a. fst (snd (info_of g a))) as)"
proof (induction as)
  case (Cons a as)
  then obtain p where "pheap g a = Some p" by force
  with Cons show ?case by (simp add: info_of_def)
qed simp

lemma enter_match_fields [simp]:
  "players (enter_match as g) = players g" "rooms (enter_match as g) = rooms g"
  "nextPlayerId (enter_match as g) = nextPlayerId g" "nextGameRoomId (enter_match as g) = nextGameRoomId g"
  "nextMatchId (enter_match as g) = nextMatchId g"
  "running (enter_match as g) = running g" "g_FSM (enter_match as g) = g_FSM g"
  "pheap (enter_match as g) a = (if a \<in> set as then map_option (\<lambda>p. p\<lparr>p_state := InGame\<rparr>) (pheap g a) else pheap g a)"
  by (simp_all add: enter_match_def)

lemma session_of_put: "pheap g a = Some p \<Longrightarrow> p_session p' = p_session p \<Longrightarrow>
    session_of (put_player a p' g) b = session_of g b"
  by (simp add: session_of_def)

lemma enter_match_Cons:
  assumes "pheap g a = Some p"
  shows "enter_match as (put_player a (p\<lparr>p_state := InGame\<rparr>) g) = enter_match (a # as) g"
  using assms by (auto simp: enter_match_def put_player_def intro!: game.equality ext)

lemma start_loop:
  assumes "\<And>a. a \<in> set as \<Longrightarrow> pheap (gs w) a \<noteq> None"
  shows "for_each (start_member b) as w = do {
    n \<leftarrow> send_all (map (session_of (gs w)) as) (pkt PKT_SC_GAME_START) b (net w);
    Some (w\<lparr>net := n, gs := enter_match as (gs w)\<rparr>) }"
  using assms
proof (induction as arbitrary: w)
  case Nil
  have "enter_match [] (gs w) = gs w" by (simp add: enter_match_def)
  then show ?case by (simp add: send_all_def)
next
  case (Cons a as)
  obtain p where p: "pheap (gs w) a = Some p" using Cons.prems [of a] by auto
  let ?g = "put_player a (p\<lparr>p_state := InGame\<rparr>) (gs w)"
  have so: "session_of (gs w) a = p_session p" using p by (simp add: session_of_def)
  show ?case
  proof (cases "SendPacket (p_session p) (pkt PKT_SC_GAME_START) (Some b) (w_Size b) (net w)")
    case None
    then show ?thesis using p so by (simp add: start_member_def on_net_def send_all_def)
  next
    case (Some n)
    let ?w = "w\<lparr>gs := ?g, net := n\<rparr>"
    have "start_member b a w = Some ?w" using p Some by (simp add: start_member_def on_net_def)
    moreover have "session_of ?g = session_of (gs w)" by (rule ext) (simp add: session_of_put [OF p])
    moreover have "\<And>c. c \<in> set as \<Longrightarrow> pheap (gs ?w) c \<noteq> None" using Cons.prems by auto
    note Cons.IH [OF this]
    ultimately show ?thesis using Some so enter_match_Cons [OF p, of as] by (simp add: send_all_def)
  qed
qed

lemma TryStartGame_eq:
  assumes wf: "game_wf (gs w)" and r: "rooms (gs w) k = Some r"
  shows "TryStartGame k w = (if start_ready (gs w) r then do {
      n \<leftarrow> send_all (map (session_of (gs w)) (r_players r)) (pkt PKT_SC_GAME_START) (start_body (gs w) r) (net w);
      Some (w\<lparr>net := n, gs := enter_match (r_players r) (start_room k r (gs w))\<rparr>) }
    else Some w)"
proof -
  let ?w1 = "w\<lparr>gs := start_room k r (gs w)\<rparr>"
  have live: "\<And>a. a \<in> set (r_players r) \<Longrightarrow> pheap (gs w) a \<noteq> None" using room_members_live [OF wf r] .
  have "session_of (start_room k r (gs w)) = session_of (gs w)"
    by (rule ext) (simp add: session_of_def start_room_def)
  then have "for_each (start_member b) (r_players r) ?w1 = do {
      n \<leftarrow> send_all (map (session_of (gs w)) (r_players r)) (pkt PKT_SC_GAME_START) b (net w);
      Some (w\<lparr>net := n, gs := enter_match (r_players r) (start_room k r (gs w))\<rparr>) }" for b
    using start_loop [of "r_players r" ?w1 b] live by (simp add: start_room_def)
  then show ?thesis
    using r members_of_live [OF live] all_ready_live [OF live]
    by (auto simp: TryStartGame_def start_ready_def start_body_def start_room_def Let_def)
qed

lemma enter_match_wf:
  assumes "game_wf g"
  shows "game_wf (enter_match as g)"
proof (rule game_wfI)
  fix s a assume "players (enter_match as g) s = Some a"
  with game_wfD(1) [OF assms, of s a] show "\<exists>p. pheap (enter_match as g) a = Some p \<and> p_session p = s"
    by auto
next
  fix a p assume "pheap (enter_match as g) a = Some p"
  with game_wfD(2) [OF assms, of a] show "players (enter_match as g) (p_session p) = Some a"
    by (auto split: if_splits)
next
  fix k r a assume "rooms (enter_match as g) k = Some r" "a \<in> set (r_players r)"
  with game_wfD(3) [OF assms, of k r a] show "\<exists>p. pheap (enter_match as g) a = Some p \<and> p_room p = Some k"
    by auto
next
  fix a p k assume "pheap (enter_match as g) a = Some p" "p_room p = Some k"
  with game_wfD(4) [OF assms, of a _ k] show "\<exists>r. rooms (enter_match as g) k = Some r \<and> a \<in> set (r_players r)"
    by (auto split: if_splits)
qed (use game_wfD(5) [OF assms] in auto)

lemma TryStartGame_safe:
  assumes ok: "world_ok w" and r: "rooms (gs w) k = Some r"
  shows "safe_on (TryStartGame k) w"
proof (cases "start_ready (gs w) r")
  case True
  obtain n where n: "send_all (map (session_of (gs w)) (r_players r)) (pkt PKT_SC_GAME_START) (start_body (gs w) r) (net w) = Some n"
    "io_frame (net w) n"
    using send_all_frame [OF room_members_io_live [OF ok r]] by blast
  let ?g1 = "start_room k r (gs w)"
  have "world_step w (w\<lparr>gs := (gs w)\<lparr>nextMatchId := m\<rparr>\<rparr>)" for m
    using wf_cong [of "gs w" "(gs w)\<lparr>nextMatchId := m\<rparr>"] by (auto simp: world_step_def rooms_frame_same)
  moreover have "world_step (w\<lparr>gs := (gs w)\<lparr>nextMatchId := nextMatchId (gs w) + 1\<rparr>\<rparr>) (w\<lparr>gs := ?g1\<rparr>)"
    using put_room_step [of "r\<lparr>r_started := True\<rparr>" "w\<lparr>gs := (gs w)\<lparr>nextMatchId := nextMatchId (gs w) + 1\<rparr>\<rparr>" k] r
    by (simp add: start_room_def room_frame_def)
  ultimately have s1: "world_step w (w\<lparr>gs := ?g1\<rparr>)" by (blast intro: world_step_trans)
  have "world_step (w\<lparr>gs := ?g1\<rparr>) (w\<lparr>net := n, gs := enter_match (r_players r) ?g1\<rparr>)"
    using n(2) enter_match_wf [of ?g1] by (simp add: world_step_def option.map_comp comp_def rooms_frame_same)
  with s1 have "world_step w (w\<lparr>net := n, gs := enter_match (r_players r) ?g1\<rparr>)" by (rule world_step_trans)
  then show ?thesis using TryStartGame_eq [OF world_okD(1) [OF ok] r] True n(1) by (auto simp: safe_on_def)
next
  case False
  then show ?thesis using TryStartGame_eq [OF world_okD(1) [OF ok] r] by (simp add: safe_on_def)
qed

section \<open>Ready\<close>

lemma HandleReady_eq:
  assumes "packet_ok p" and "players (gs w) s = Some a" and "pheap (gs w) a = Some q"
  shows "HandleReady s p w = (case p_room q of None \<Rightarrow> SendError s PKT_CS_READY ERR_NOT_ALLOWED w
    | Some k \<Rightarrow> do {
        r \<leftarrow> rooms (gs w) k;
        if r_started r then SendError s PKT_CS_READY ERR_MATCH_ENDED w
        else if length (body p) \<noteq> 1 then SendError s PKT_CS_READY ERR_BAD_FORMAT w
        else do {
          w2 \<leftarrow> BroadcastRoomState k (w\<lparr>gs := put_player a (q\<lparr>p_ready := (hd (body p) \<noteq> 0)\<rparr>) (gs w)\<rparr>);
          TryStartGame k w2
        } })"
  using assms by (auto simp: HandleReady_def packet_body GetPlayer_def on_game_def set_player_def cong: if_cong split: option.splits)

lemma HandleReady_safe:
  assumes ok: "world_ok w" and p: "packet_ok p" and a: "players (gs w) s = Some a"
  shows "safe_on (HandleReady s p) w"
proof -
  obtain q where q: "pheap (gs w) a = Some q" using world_okD(4) [OF ok a] by blast
  have err: "safe_on (SendError s PKT_CS_READY code) w" for code using SendError_safe [OF ok a] .
  show ?thesis
  proof (cases "p_room q")
    case None
    then show ?thesis using err by (simp add: safe_on_def HandleReady_eq [OF p a q])
  next
    case (Some k)
    obtain r where r: "rooms (gs w) k = Some r" using game_wfD(4) [OF world_okD(1) [OF ok] q Some] by blast
    let ?w1 = "w\<lparr>gs := put_player a (q\<lparr>p_ready := (hd (body p) \<noteq> 0)\<rparr>) (gs w)\<rparr>"
    have s1: "world_step w ?w1"
      using set_player_safe [OF q, of "\<lambda>q. q\<lparr>p_ready := (hd (body p) \<noteq> 0)\<rparr>"] q by (auto elim!: safe_onE)
    have ok1: "world_ok ?w1" using world_step_ok [OF s1 ok] .
    obtain w2 where w2: "BroadcastRoomState k ?w1 = Some w2" "world_step ?w1 w2"
      using BroadcastRoomState_safe [OF ok1, of k r] r by (auto elim!: safe_onE)
    obtain r2 where r2: "rooms (gs w2) k = Some r2" using world_step_room [OF w2(2), of k r] r by auto
    obtain w3 where w3: "TryStartGame k w2 = Some w3" "world_step w2 w3"
      using TryStartGame_safe [OF world_step_ok [OF w2(2) ok1] r2] by (auto elim!: safe_onE)
    have "world_step w w3" using s1 w2(2) w3(2) by (blast intro: world_step_trans)
    then show ?thesis
      using err w2(1) w3(1) r Some by (auto simp: safe_on_def HandleReady_eq [OF p a q])
  qed
qed

end
