(* ===== verification/Loop_Facts.thy ===== *)
theory Loop_Facts
  imports Waiting_Room_Facts
begin

text \<open>
  The dispatch of packets, the connect and disconnect jobs, and the game thread's loop over its
  queue. The loop's precondition on a job, \<open>job_fits\<close>, is what the network side guarantees.
\<close>

section \<open>Dispatch\<close>

text \<open>The one packet that makes the game thread use freed memory.\<close>

definition packet_crashes :: "env \<Rightarrow> sid \<Rightarrow> Packet \<Rightarrow> world \<Rightarrow> bool" where
  "packet_crashes e s p w \<longleftrightarrow> (case players (gs w) s of None \<Rightarrow> False | Some a \<Rightarrow>
     (case pheap (gs w) a of None \<Rightarrow> False | Some q \<Rightarrow>
        GetHandler (g_FSM (gs w)) (p_state q) (h_id (header p)) = Some (Some FSM_JoinRoom) \<and> join_collides e p w))"

lemma run_handler_safe:
  assumes ok: "world_ok w" and p: "packet_ok p" and a: "players (gs w) s = Some a"
  shows "h \<noteq> FSM_JoinRoom \<or> \<not> join_collides e p w \<Longrightarrow> safe_on (run_handler h e s a p) w"
  using FSM_Login_safe [OF assms] FSM_EnterRoom_safe [OF assms] FSM_Chat_safe [OF assms]
    HandleHello_safe [OF assms] HandleJoinRoom_safe(2) [OF assms] HandleReady_safe [OF assms]
  by (cases h) (auto simp: safe_on_def)

lemma OnPacket_no_player:
  "players (gs w) s = None \<Longrightarrow> OnPacket e s p w = Some w"
  by (simp add: OnPacket_def GetPlayer_def)

lemma OnPacket_handler:
  assumes "players (gs w) s = Some a" and "pheap (gs w) a = Some q"
  shows "OnPacket e s p w = (case GetHandler (g_FSM (gs w)) (p_state q) (h_id (header p)) of
    Some (Some h) \<Rightarrow> run_handler h e s a p w | _ \<Rightarrow> Some w)"
  using assms by (simp add: OnPacket_def GetPlayer_def GetHandler_eq)

lemma OnPacket_safe:
  assumes ok: "world_ok w" and p: "packet_ok p"
  shows "OnPacket e s p w = None \<longleftrightarrow> packet_crashes e s p w"
    and "\<not> packet_crashes e s p w \<Longrightarrow> safe_on (OnPacket e s p) w"
proof -
  have "if packet_crashes e s p w then OnPacket e s p w = None else safe_on (OnPacket e s p) w"
  proof (cases "players (gs w) s")
    case None
    then show ?thesis by (simp add: packet_crashes_def OnPacket_no_player safe_on_def)
  next
    case (Some a)
    obtain q where q: "pheap (gs w) a = Some q" using world_okD(4) [OF ok Some] by blast
    note eq = OnPacket_handler [OF Some q, of e p]
    obtain ho where ho: "GetHandler (g_FSM (gs w)) (p_state q) (h_id (header p)) = Some ho" using GetHandler_eq by blast
    show ?thesis
    proof (cases ho)
      case None
      then show ?thesis using eq ho Some q by (simp add: packet_crashes_def safe_on_def)
    next
      case (Some h)
      note h = ho [unfolded this] and Some = \<open>players (gs w) s = Some a\<close>
      then have pc: "packet_crashes e s p w \<longleftrightarrow> h = FSM_JoinRoom \<and> join_collides e p w"
        using Some q by (simp add: packet_crashes_def)
      show ?thesis
      proof (cases "h = FSM_JoinRoom \<and> join_collides e p w")
        case True
        then show ?thesis using eq h pc HandleJoinRoom_safe(1) [OF ok p Some, of e] by simp
      next
        case False
        then show ?thesis using eq h pc run_handler_safe [OF ok p Some, of h e] by (auto simp: safe_on_def)
      qed
    qed
  qed
  then show "OnPacket e s p w = None \<longleftrightarrow> packet_crashes e s p w"
    and "\<not> packet_crashes e s p w \<Longrightarrow> safe_on (OnPacket e s p) w"
    by (auto simp: safe_on_def split: if_splits)
qed

section \<open>Connect\<close>

lemma OnSessionConnected_wf:
  assumes wf: "game_wf g" and s: "players g s = None" and a: "pheap g (e_addr e) = None"
  shows "game_wf (OnSessionConnected e s g)"
proof -
  let ?p = "(new_Player s)\<lparr>p_id := nextPlayerId g\<rparr>"
  let ?g = "OnSessionConnected e s g"
  have g: "players ?g = (players g)(s \<mapsto> e_addr e)" "pheap ?g = (pheap g)(e_addr e \<mapsto> ?p)" "rooms ?g = rooms g"
    using s by (simp_all add: OnSessionConnected_def Let_def)
  have p: "p_session ?p = s" "p_room ?p = None" by (simp_all add: new_Player_def)
  show ?thesis
  proof (rule game_wfI)
    fix t b assume "players ?g t = Some b"
    with game_wfD(1) [OF wf, of t b] a p show "\<exists>q. pheap ?g b = Some q \<and> p_session q = t"
      by (cases "t = s") (auto simp: g)
  next
    fix b q assume "pheap ?g b = Some q"
    with game_wfD(2) [OF wf, of b q] s p show "players ?g (p_session q) = Some b"
      by (cases "b = e_addr e") (auto simp: g)
  next
    fix k r b assume "rooms ?g k = Some r" "b \<in> set (r_players r)"
    with game_wfD(3) [OF wf, of k r b] a show "\<exists>q. pheap ?g b = Some q \<and> p_room q = Some k"
      by (cases "b = e_addr e") (auto simp: g)
  next
    fix b q k assume "pheap ?g b = Some q" "p_room q = Some k"
    with game_wfD(4) [OF wf, of b q k] p show "\<exists>r. rooms ?g k = Some r \<and> b \<in> set (r_players r)"
      by (cases "b = e_addr e") (auto simp: g)
  next
    fix k r assume "rooms ?g k = Some r"
    with game_wfD(5) [OF wf, of k r] show "distinct (r_players r)" by (simp add: g)
  qed
qed

lemma OnSessionConnected_ok:
  assumes ok: "world_ok w" and s: "players (gs w) s = None" and a: "pheap (gs w) (e_addr e) = None"
    and x: "sessions (net w) s = Some x" "\<not> s_gameCleanupDone x"
  shows "world_ok (w\<lparr>gs := OnSessionConnected e s (gs w)\<rparr>)"
proof -
  have n: "net_ok w" using world_okD(2) [OF ok] .
  have h: "pheap (OnSessionConnected e s (gs w)) = (pheap (gs w))(e_addr e \<mapsto> (new_Player s)\<lparr>p_id := nextPlayerId (gs w)\<rparr>)"
    using s by (simp add: OnSessionConnected_def Let_def)
  have "net_ok (w\<lparr>gs := OnSessionConnected e s (gs w)\<rparr>)"
    using net_okD [OF n] x by (auto simp: net_ok_def h new_Player_def)
  then show ?thesis
    using OnSessionConnected_wf [OF world_okD(1) [OF ok] s a] by (simp add: world_ok_def)
qed

section \<open>Disconnect\<close>

text \<open>Erasing a player that is in no room.\<close>

definition drop_player :: "sid \<Rightarrow> paddr \<Rightarrow> game \<Rightarrow> game" where
  "drop_player s a g = g\<lparr>players := (players g)(s := None), pheap := (pheap g)(a := None)\<rparr>"

lemma drop_player_fields [simp]:
  "players (drop_player s a g) = (players g)(s := None)" "pheap (drop_player s a g) = (pheap g)(a := None)"
  "rooms (drop_player s a g) = rooms g" "nextPlayerId (drop_player s a g) = nextPlayerId g"
  "running (drop_player s a g) = running g" "g_FSM (drop_player s a g) = g_FSM g"
  by (simp_all add: drop_player_def)

lemma drop_player_wf:
  assumes wf: "game_wf g" and a: "players g s = Some a" and p: "pheap g a = Some p" "p_room p = None"
  shows "game_wf (drop_player s a g)"
proof -
  have ps: "p_session p = s" using game_wfD(1) [OF wf a] p(1) by auto
  show ?thesis
  proof (rule game_wfI)
    fix t b assume t: "players (drop_player s a g) t = Some b"
    then have "b \<noteq> a" using game_wfD(1) [OF wf, of t b] p(1) ps by (auto split: if_splits)
    with t game_wfD(1) [OF wf, of t b] show "\<exists>q. pheap (drop_player s a g) b = Some q \<and> p_session q = t"
      by (auto split: if_splits)
  next
    fix b q assume b: "pheap (drop_player s a g) b = Some q"
    then have "players g (p_session q) = Some b" "b \<noteq> a" using game_wfD(2) [OF wf, of b q] by (auto split: if_splits)
    with a show "players (drop_player s a g) (p_session q) = Some b" by auto
  next
    fix k r b assume "rooms (drop_player s a g) k = Some r" "b \<in> set (r_players r)"
    with game_wfD(3) [OF wf, of k r b] p show "\<exists>q. pheap (drop_player s a g) b = Some q \<and> p_room q = Some k"
      by auto
  next
    fix b q k assume "pheap (drop_player s a g) b = Some q" "p_room q = Some k"
    with game_wfD(4) [OF wf, of b q k] show "\<exists>r. rooms (drop_player s a g) k = Some r \<and> b \<in> set (r_players r)"
      by (auto split: if_splits)
  qed (use game_wfD(5) [OF wf] in auto)
qed

lemma drop_player_ok:
  assumes ok: "world_ok w" and a: "players (gs w) s = Some a" and p: "pheap (gs w) a = Some p" "p_room p = None"
  shows "world_ok (w\<lparr>gs := drop_player s a (gs w)\<rparr>)"
proof -
  have "net_ok (w\<lparr>gs := drop_player s a (gs w)\<rparr>)"
    using net_okD [OF world_okD(2) [OF ok]] by (auto simp: net_ok_def split: if_splits)
  then show ?thesis
    using drop_player_wf [OF world_okD(1) [OF ok] a p] by (simp add: world_ok_def)
qed

text \<open>
  Who is told of a departure: the members that stay, when the room is a game room.
\<close>

lemma remove_player_eq:
  assumes ok: "world_ok w" and a: "players (gs w) s = Some a" and p: "pheap (gs w) a = Some p"
  shows "\<exists>g1. LeaveRoom a (gs w) = Some g1 \<and> world_ok (w\<lparr>gs := drop_player s a g1\<rparr>) \<and>
    (\<forall>b. b \<noteq> a \<longrightarrow> pheap g1 b = pheap (gs w) b) \<and> players g1 = players (gs w) \<and> g_FSM g1 = g_FSM (gs w) \<and>
    nextPlayerId g1 = nextPlayerId (gs w) \<and> rooms_frame (gs w) g1 \<and> running g1 = running (gs w) \<and>
    remove_player s a w = (let w1 = w\<lparr>gs := drop_player s a g1\<rparr> in
      (case p_room p of None \<Rightarrow> Some w1 | Some k \<Rightarrow> do {
         r \<leftarrow> rooms g1 k;
         if r_capacity r \<noteq> 0 then BroadcastRoomState k w1 else Some w1 }))"
proof -
  obtain g1 where g1: "LeaveRoom a (gs w) = Some g1" "pheap g1 a = Some (p\<lparr>p_room := None\<rparr>)"
    "\<forall>b. b \<noteq> a \<longrightarrow> pheap g1 b = pheap (gs w) b" "world_step w (w\<lparr>gs := g1\<rparr>)"
    using LeaveRoom_step [OF ok p] by blast
  have ok1: "world_ok (w\<lparr>gs := g1\<rparr>)" using world_step_ok [OF g1(4) ok] .
  have "world_ok (w\<lparr>gs := drop_player s a g1\<rparr>)"
    using drop_player_ok [OF ok1, of s a] g1(2) world_step_map [OF g1(4)] a by simp
  moreover have "players g1 = players (gs w)" "g_FSM g1 = g_FSM (gs w)" "nextPlayerId g1 = nextPlayerId (gs w)"
    "rooms_frame (gs w) g1" "running g1 = running (gs w)"
    using g1(4) by (simp_all add: world_step_def)
  moreover have "remove_player s a w = (let w1 = w\<lparr>gs := drop_player s a g1\<rparr> in
      (case p_room p of None \<Rightarrow> Some w1 | Some k \<Rightarrow> do {
         r \<leftarrow> rooms g1 k;
         if r_capacity r \<noteq> 0 then BroadcastRoomState k w1 else Some w1 }))"
    using p g1(1) by (simp add: remove_player_def Let_def drop_player_def cong: option.case_cong if_cong)
  ultimately show ?thesis using g1(1,3) by blast
qed

lemma remove_player_safe:
  assumes ok: "world_ok w" and a: "players (gs w) s = Some a"
  shows "\<exists>w'. remove_player s a w = Some w' \<and> world_ok w' \<and> io_frame (net w) (net w') \<and>
    players (gs w') = (players (gs w))(s := None) \<and> g_FSM (gs w') = g_FSM (gs w) \<and>
    pheap (gs w') a = None \<and> running (gs w') = running (gs w) \<and> rooms_frame (gs w) (gs w') \<and>
    nextPlayerId (gs w') = nextPlayerId (gs w) \<and>
    (\<forall>b. map_option p_id (pheap (gs w') b) = (if b = a then None else map_option p_id (pheap (gs w) b)))"
proof -
  obtain p where p: "pheap (gs w) a = Some p" using world_okD(4) [OF ok a] by blast
  obtain g1 where g1: "LeaveRoom a (gs w) = Some g1" "world_ok (w\<lparr>gs := drop_player s a g1\<rparr>)"
    "players g1 = players (gs w)" "g_FSM g1 = g_FSM (gs w)" "rooms_frame (gs w) g1" "running g1 = running (gs w)"
    "nextPlayerId g1 = nextPlayerId (gs w)" "\<forall>b. b \<noteq> a \<longrightarrow> pheap g1 b = pheap (gs w) b"
    and rp: "remove_player s a w = (let w1 = w\<lparr>gs := drop_player s a g1\<rparr> in
      (case p_room p of None \<Rightarrow> Some w1 | Some k \<Rightarrow> do {
         r \<leftarrow> rooms g1 k;
         if r_capacity r \<noteq> 0 then BroadcastRoomState k w1 else Some w1 }))"
    using remove_player_eq [OF ok a p] by blast
  let ?w1 = "w\<lparr>gs := drop_player s a g1\<rparr>"
  have "\<exists>w'. remove_player s a w = Some w' \<and> world_step ?w1 w'"
  proof (cases "p_room p")
    case None
    then show ?thesis using rp by simp
  next
    case (Some k)
    obtain r0 where "rooms (gs w) k = Some r0" using game_wfD(4) [OF world_okD(1) [OF ok] p Some] by blast
    then obtain r where r: "rooms g1 k = Some r" using g1(5) by (auto simp: rooms_frame_def)
    have "safe_on (BroadcastRoomState k) ?w1" using BroadcastRoomState_safe [OF g1(2), of k r] r by simp
    with rp r Some show ?thesis by (auto simp: safe_on_def Let_def)
  qed
  then obtain w' where w': "remove_player s a w = Some w'" "world_step ?w1 w'" by blast
  have "map_option p_session (pheap (gs w') a) = None"
    using w'(2) by (simp add: world_step_def)
  moreover have "map_option p_id (pheap (gs w') b) = (if b = a then None else map_option p_id (pheap (gs w) b))" for b
    using w'(2) g1(8) by (simp add: world_step_def)
  moreover have "rooms_frame (gs w) (gs w')"
    using w'(2) rooms_frame_trans [OF g1(5), of "gs w'"] by (simp add: world_step_def rooms_frame_def)
  moreover have "io_frame (net w) (net w')" "players (gs w') = (players (gs w))(s := None)"
    "g_FSM (gs w') = g_FSM (gs w)" "running (gs w') = running (gs w)" "nextPlayerId (gs w') = nextPlayerId (gs w)"
    using w'(2) g1(3,4,6,7) by (simp_all add: world_step_def)
  ultimately show ?thesis using w' world_step_ok [OF w'(2) g1(2)] by auto
qed

text \<open>Once the player is gone, marking the session clean keeps the world in order.\<close>

definition cleaned :: "sid \<Rightarrow> io \<Rightarrow> io" where
  "cleaned s n = n\<lparr>sessions := (\<lambda>t. if t = s then map_option (\<lambda>x. x\<lparr>s_gameCleanupDone := True\<rparr>) (sessions n s) else sessions n t),
     trace := trace n @ [PostStatus (Some s)]\<rparr>"

lemma framed_upd [simp]: "framed (x\<lparr>s_gameCleanupDone := b\<rparr>) = framed x"
  by (simp add: framed_def)

lemma cleaned_ok:
  assumes ok: "world_ok w" and s: "players (gs w) s = None"
  shows "world_ok (w\<lparr>net := cleaned s (net w)\<rparr>)"
proof -
  have "p_session p \<noteq> s" if "pheap (gs w) a = Some p" for a p
    using game_wfD(2) [OF world_okD(1) [OF ok] that] s by auto
  with net_okD [OF world_okD(2) [OF ok]] have "net_ok (w\<lparr>net := cleaned s (net w)\<rparr>)"
    by (auto simp: net_ok_def cleaned_def)
  then show ?thesis using ok by (simp add: world_ok_def)
qed

lemma Game_OnSessionDisconnected_eq:
  assumes ok: "world_ok w" and x: "sessions (net w) s = Some x"
  shows "\<exists>w1. (case players (gs w) s of None \<Rightarrow> Some w | Some a \<Rightarrow> remove_player s a w) = Some w1 \<and>
    world_ok w1 \<and> io_frame (net w) (net w1) \<and> players (gs w1) = (players (gs w))(s := None) \<and>
    g_FSM (gs w1) = g_FSM (gs w) \<and> running (gs w1) = running (gs w) \<and> rooms_frame (gs w) (gs w1) \<and>
    nextPlayerId (gs w1) = nextPlayerId (gs w) \<and>
    (\<forall>b q. map_option p_id (pheap (gs w1) b) = Some q \<longrightarrow> map_option p_id (pheap (gs w) b) = Some q) \<and>
    Game_OnSessionDisconnected s w = Some (w1\<lparr>net := cleaned s (net w1)\<rparr>)"
proof -
  have "\<exists>w1. (case players (gs w) s of None \<Rightarrow> Some w | Some a \<Rightarrow> remove_player s a w) = Some w1 \<and>
    world_ok w1 \<and> io_frame (net w) (net w1) \<and> players (gs w1) = (players (gs w))(s := None) \<and>
    g_FSM (gs w1) = g_FSM (gs w) \<and> running (gs w1) = running (gs w) \<and> rooms_frame (gs w) (gs w1) \<and>
    nextPlayerId (gs w1) = nextPlayerId (gs w) \<and>
    (\<forall>b q. map_option p_id (pheap (gs w1) b) = Some q \<longrightarrow> map_option p_id (pheap (gs w) b) = Some q)"
  proof (cases "players (gs w) s")
    case None
    then show ?thesis using ok by (auto simp: rooms_frame_same)
  next
    case (Some a)
    from remove_player_safe [OF ok Some] obtain w1 where w1: "remove_player s a w = Some w1" "world_ok w1"
      "io_frame (net w) (net w1)" "players (gs w1) = (players (gs w))(s := None)" "g_FSM (gs w1) = g_FSM (gs w)"
      "running (gs w1) = running (gs w)" "rooms_frame (gs w) (gs w1)" "nextPlayerId (gs w1) = nextPlayerId (gs w)"
      "\<forall>b. map_option p_id (pheap (gs w1) b) = (if b = a then None else map_option p_id (pheap (gs w) b))" by blast
    have "\<forall>b q. map_option p_id (pheap (gs w1) b) = Some q \<longrightarrow> map_option p_id (pheap (gs w) b) = Some q"
      using w1(9) by simp
    moreover have "(case players (gs w) s of None \<Rightarrow> Some w | Some a \<Rightarrow> remove_player s a w) = Some w1"
      using Some w1(1) by simp
    ultimately show ?thesis using w1(2-8) by blast
  qed
  then obtain w1 where w1: "(case players (gs w) s of None \<Rightarrow> Some w | Some a \<Rightarrow> remove_player s a w) = Some w1"
    "world_ok w1" "io_frame (net w) (net w1)" "players (gs w1) = (players (gs w))(s := None)"
    "g_FSM (gs w1) = g_FSM (gs w)" "running (gs w1) = running (gs w)" "rooms_frame (gs w) (gs w1)"
    "nextPlayerId (gs w1) = nextPlayerId (gs w)"
    "\<forall>b q. map_option p_id (pheap (gs w1) b) = Some q \<longrightarrow> map_option p_id (pheap (gs w) b) = Some q" by blast
  obtain x1 where x1: "sessions (net w1) s = Some x1" using io_frameD(4) [OF w1(3) x] by blast
  have "add_call (PostStatus (Some s)) (put_session s (x1\<lparr>s_gameCleanupDone := True\<rparr>) (net w1)) = cleaned s (net w1)"
    using x1 by (auto simp: cleaned_def put_session_def add_call_def intro!: io.equality ext)
  then have "Game_OnSessionDisconnected s w = Some (w1\<lparr>net := cleaned s (net w1)\<rparr>)"
    using w1(1) x1 by (simp add: Game_OnSessionDisconnected_def on_net_def MarkGameCleanupDone_def)
  with w1 show ?thesis by blast
qed

section \<open>One job\<close>

text \<open>
  What the game thread relies on when it takes a job: a packet's body has the announced
  length, and the session of a connect or disconnect job is alive; a session connects once,
  and \<open>new Player\<close> returns an unused address.
\<close>

fun job_fits :: "env \<Rightarrow> world \<Rightarrow> GameJob \<Rightarrow> bool" where
  "job_fits e w (PacketJob s h b) \<longleftrightarrow> packet_ok \<lparr>header = h, body = b\<rparr> \<and> \<not> packet_crashes e s \<lparr>header = h, body = b\<rparr> w"
| "job_fits e w (DisconnectJob s) \<longleftrightarrow> sessions (net w) s \<noteq> None"
| "job_fits e w (ConnectJob s) \<longleftrightarrow> players (gs w) s = None \<and> pheap (gs w) (e_addr e) = None \<and>
     (\<exists>x. sessions (net w) s = Some x \<and> \<not> s_gameCleanupDone x)"
| "job_fits e w ShutdownJob \<longleftrightarrow> True"

lemma run_job_safe:
  assumes ok: "world_ok w" and fits: "job_fits e w job"
  shows "\<exists>w'. run_job e job w = Some w' \<and> world_ok w' \<and> (\<exists>js. jobQueue (net w') = jobQueue (net w) @ js \<and> list_all session_job js) \<and>
    g_FSM (gs w') = g_FSM (gs w) \<and> (running (gs w') \<longleftrightarrow> running (gs w) \<and> job \<noteq> ShutdownJob)"
proof (cases job)
  case (PacketJob s h b)
  with fits have "safe_on (OnPacket e s \<lparr>header = h, body = b\<rparr>) w" using OnPacket_safe(2) [OF ok] by simp
  then obtain w' where w': "OnPacket e s \<lparr>header = h, body = b\<rparr> w = Some w'" "world_step w w'" by (rule safe_onE)
  then have "io_frame (net w) (net w')" "g_FSM (gs w') = g_FSM (gs w)" "running (gs w') = running (gs w)"
    by (simp_all add: world_step_def)
  with w' io_frameD(5) world_step_ok [OF w'(2) ok] PacketJob show ?thesis by auto
next
  case (DisconnectJob s)
  then obtain x where x: "sessions (net w) s = Some x" using fits by auto
  from Game_OnSessionDisconnected_eq [OF ok x] obtain w1 where w1: "world_ok w1" "io_frame (net w) (net w1)"
    "players (gs w1) = (players (gs w))(s := None)" "g_FSM (gs w1) = g_FSM (gs w)" "running (gs w1) = running (gs w)"
    "Game_OnSessionDisconnected s w = Some (w1\<lparr>net := cleaned s (net w1)\<rparr>)" by blast
  have "world_ok (w1\<lparr>net := cleaned s (net w1)\<rparr>)" using cleaned_ok [OF w1(1)] w1(3) by simp
  moreover have "jobQueue (cleaned s (net w1)) = jobQueue (net w1)" by (simp add: cleaned_def)
  ultimately show ?thesis using DisconnectJob w1 io_frameD(5) [OF w1(2)] by auto
next
  case (ConnectJob s)
  with fits obtain x where "players (gs w) s = None" "pheap (gs w) (e_addr e) = None"
    "sessions (net w) s = Some x" "\<not> s_gameCleanupDone x" by auto
  from OnSessionConnected_ok [OF ok this] ConnectJob this show ?thesis
    by (simp add: OnSessionConnected_def Let_def)
next
  case ShutdownJob
  have "world_ok (w\<lparr>gs := gs w\<lparr>running := False\<rparr>\<rparr>)"
    using ok wf_cong [of "gs w" "(gs w)\<lparr>running := False\<rparr>"] by (auto simp: world_ok_def net_ok_def)
  then show ?thesis using ShutdownJob by simp
qed

section \<open>The loop\<close>

definition pop_head :: "world \<Rightarrow> world" where
  "pop_head w = w\<lparr>net := (net w)\<lparr>jobQueue := tl (jobQueue (net w))\<rparr>\<rparr>"

lemma pop_head_ok [simp]: "world_ok (pop_head w) = world_ok w"
  by (simp add: pop_head_def world_ok_def net_ok_def)

lemma pop_head_fields [simp]: "gs (pop_head w) = gs w" "jobQueue (net (pop_head w)) = tl (jobQueue (net w))"
  "sessions (net (pop_head w)) = sessions (net w)"
  by (simp_all add: pop_head_def)

lemma game_iter_empty: "jobQueue (net w) = [] \<Longrightarrow> game_iter e w = Some w"
  by (simp add: game_iter_def)

lemma game_iter_job: "jobQueue (net w) = job # q \<Longrightarrow> game_iter e w = run_job e job (pop_head w)"
  by (simp add: game_iter_def pop_head_def)

text \<open>Running a list of jobs one after the other, each with its environment.\<close>

definition run_jobs :: "(env \<times> GameJob) list \<Rightarrow> world \<Rightarrow> world option" where
  "run_jobs xs w = for_each (\<lambda>(e, job) w. run_job e job (pop_head w)) xs w"

fun all_fit :: "(env \<times> GameJob) list \<Rightarrow> world \<Rightarrow> bool" where
  "all_fit [] w = True"
| "all_fit ((e, job) # xs) w = (job_fits e (pop_head w) job \<and>
     (case run_job e job (pop_head w) of None \<Rightarrow> True | Some w' \<Rightarrow> all_fit xs w'))"

text \<open>
  The loop takes the jobs in the order of the queue, runs each of them once, and returns with
  the world in order; what the jobs add to the queue stays behind the jobs that were there.
\<close>

lemma loop_in_order:
  assumes "world_ok w" and "running (gs w)" and "jobQueue (net w) = map snd xs @ rest"
    and "all_fit xs w" and "ShutdownJob \<notin> snd ` set xs"
  shows "\<exists>w' js. run_jobs xs w = Some w' \<and> world_ok w' \<and> running (gs w') \<and> jobQueue (net w') = rest @ js \<and>
    GameThreadLoop (map fst xs @ es) w = GameThreadLoop es w'"
  using assms
proof (induction xs arbitrary: w rest)
  case Nil
  then show ?case by (simp add: run_jobs_def)
next
  case (Cons ej xs)
  obtain e job where ej: "ej = (e, job)" by (cases ej)
  from Cons.prems(4) ej have "job_fits e (pop_head w) job" by simp
  from run_job_safe [OF _ this] Cons.prems(1) obtain w1 js1 where w1: "run_job e job (pop_head w) = Some w1" "world_ok w1"
    "jobQueue (net w1) = map snd xs @ rest @ js1" "running (gs w1) \<longleftrightarrow> running (gs w) \<and> job \<noteq> ShutdownJob"
    using Cons.prems(3) by auto
  have "running (gs w1)" using w1(4) Cons.prems(2,5) ej by auto
  moreover have "all_fit xs w1" using Cons.prems(4) ej w1(1) by simp
  ultimately obtain w' js where w': "run_jobs xs w1 = Some w'" "world_ok w'" "running (gs w')"
    "jobQueue (net w') = (rest @ js1) @ js" "GameThreadLoop (map fst xs @ es) w1 = GameThreadLoop es w'"
    using Cons.IH [OF w1(2) _ w1(3)] Cons.prems(5) by auto
  have "game_iter e w = Some w1" using game_iter_job [of w job] Cons.prems(3) ej w1(1) by simp
  with w' w1(1) Cons.prems(2) ej show ?case by (simp add: run_jobs_def)
qed

text \<open>The shutdown job stops the loop; what is queued behind it is never run.\<close>

lemma loop_shutdown:
  assumes "running (gs w)" and "jobQueue (net w) = ShutdownJob # q"
  shows "GameThreadLoop (e # es) w = Some (w\<lparr>net := (net w)\<lparr>jobQueue := q\<rparr>, gs := (gs w)\<lparr>running := False\<rparr>\<rparr>)"
proof -
  have "game_iter e w = Some (w\<lparr>net := (net w)\<lparr>jobQueue := q\<rparr>, gs := (gs w)\<lparr>running := False\<rparr>\<rparr>)"
    using assms by (simp add: game_iter_def on_game_def)
  then show ?thesis using assms(1) by (cases es) simp_all
qed

section \<open>The player's state machine\<close>

text \<open>The state of a player agrees with its place: outside, in a room, in a started match.\<close>

definition player_state_ok :: "game \<Rightarrow> player \<Rightarrow> bool" where
  "player_state_ok g p \<longleftrightarrow> (case p_state p of
     PNone \<Rightarrow> p_room p = None
   | LoggedIn \<Rightarrow> p_room p = None
   | InRoom \<Rightarrow> p_room p \<noteq> None
   | InGame \<Rightarrow> (\<exists>k r. p_room p = Some k \<and> rooms g k = Some r \<and> r_started r)
   | PClosing \<Rightarrow> False)"

definition states_ok :: "game \<Rightarrow> bool" where
  "states_ok g \<longleftrightarrow> (\<forall>a p. pheap g a = Some p \<longrightarrow> player_state_ok g p)"

lemma player_state_ok_mono:
  assumes "player_state_ok g p" and "rooms_frame g g'" and "p_state p' = p_state p" "p_room p' = p_room p"
  shows "player_state_ok g' p'"
  using assms unfolding player_state_ok_def rooms_frame_def room_frame_def
  by (auto split: PlayerState.splits) blast

lemma states_ok_step:
  assumes ok: "states_ok g" and f: "rooms_frame g g'"
    and others: "\<And>b p'. pheap g' b = Some p' \<Longrightarrow> b \<noteq> a \<Longrightarrow> \<exists>p. pheap g b = Some p \<and> p_state p' = p_state p \<and> p_room p' = p_room p"
    and own: "\<And>p'. pheap g' a = Some p' \<Longrightarrow> player_state_ok g' p'"
  shows "states_ok g'"
  unfolding states_ok_def
proof (intro allI impI)
  fix b p' assume b: "pheap g' b = Some p'"
  show "player_state_ok g' p'"
  proof (cases "b = a")
    case True
    then show ?thesis using own b by simp
  next
    case False
    then obtain p where "pheap g b = Some p" "p_state p' = p_state p" "p_room p' = p_room p" using others b by blast
    with ok f show ?thesis by (auto simp: states_ok_def intro: player_state_ok_mono)
  qed
qed

lemma states_ok_cong: "states_ok g \<Longrightarrow> pheap g' = pheap g \<Longrightarrow> rooms_frame g g' \<Longrightarrow> states_ok g'"
  by (rule states_ok_step [where a = 0]) (auto simp: states_ok_def intro: player_state_ok_mono)

lemma on_net_gs: "on_net f w = Some w' \<Longrightarrow> gs w' = gs w"
  by auto

lemma SendError_gs: "SendError s pid c w = Some w' \<Longrightarrow> gs w' = gs w"
  by (auto simp: SendError_def Let_def)

lemma BroadcastRoomState_gs:
  assumes "world_ok w" and "rooms (gs w) k = Some r" and "BroadcastRoomState k w = Some w'"
  shows "gs w' = gs w"
  using assms BroadcastRoomState_send_all [OF world_okD(1) [OF assms(1)] assms(2)] by auto

end
