(* ===== verification/State_Machine.thy ===== *)
theory State_Machine
  imports Loop_Facts
begin

text \<open>
  The life of a player as a state machine: \<open>state_edge\<close> are the transitions the dispatch table
  and the handlers allow, and every packet keeps each player on an edge. The states agree with
  the rooms (\<open>states_ok\<close>), and the numbers of the players stay distinct.
\<close>

section \<open>The edges\<close>

inductive state_edge :: "PlayerState \<Rightarrow> PlayerState \<Rightarrow> bool" where
  stay: "state_edge st st"
| login: "state_edge PNone LoggedIn"
| enter: "state_edge LoggedIn InRoom"
| match: "state_edge InRoom InGame"

code_pred state_edge .

inductive_simps edge_from_PNone [simp]: "state_edge PNone st"
inductive_simps edge_from_LoggedIn [simp]: "state_edge LoggedIn st"
inductive_simps edge_from_InRoom [simp]: "state_edge InRoom st"
inductive_simps edge_from_InGame [simp]: "state_edge InGame st"
inductive_cases edge_to_InGame: "state_edge st InGame"

fun state_rank :: "PlayerState \<Rightarrow> nat" where
  "state_rank PNone = 0"
| "state_rank LoggedIn = 1"
| "state_rank InRoom = 2"
| "state_rank InGame = 3"
| "state_rank PClosing = 4"

lemma edge_rank: "state_edge st st' \<Longrightarrow> state_rank st \<le> state_rank st' \<and> state_rank st' \<le> Suc (state_rank st)"
  by (induction rule: state_edge.induct) simp_all

definition machine_step :: "game \<Rightarrow> game \<Rightarrow> bool" where
  "machine_step g g' \<longleftrightarrow> states_ok g' \<and>
     (\<forall>a p p'. pheap g a = Some p \<longrightarrow> pheap g' a = Some p' \<longrightarrow> state_edge (p_state p) (p_state p'))"

lemma machine_stepD:
  assumes "machine_step g g'"
  shows "states_ok g'" and "pheap g a = Some p \<Longrightarrow> pheap g' a = Some p' \<Longrightarrow> state_edge (p_state p) (p_state p')"
  using assms by (auto simp: machine_step_def)

lemma states_okD: "states_ok g \<Longrightarrow> pheap g a = Some p \<Longrightarrow> player_state_ok g p"
  by (simp add: states_ok_def)

lemma machine_step_own:
  assumes ok: "states_ok g" and f: "rooms_frame g g'"
    and others: "\<And>b p'. pheap g' b = Some p' \<Longrightarrow> b \<noteq> a \<Longrightarrow> \<exists>p. pheap g b = Some p \<and> p_state p' = p_state p \<and> p_room p' = p_room p"
    and own: "\<And>p p'. pheap g a = Some p \<Longrightarrow> pheap g' a = Some p' \<Longrightarrow> state_edge (p_state p) (p_state p')"
    and own': "\<And>p'. pheap g' a = Some p' \<Longrightarrow> player_state_ok g' p'"
  shows "machine_step g g'"
  unfolding machine_step_def
proof (intro conjI allI impI)
  show "states_ok g'" using states_ok_step [OF ok f] others own' by blast
  fix b p p' assume "pheap g b = Some p" "pheap g' b = Some p'"
  then show "state_edge (p_state p) (p_state p')"
    using others [of b p'] own by (cases "b = a") (auto intro: stay)
qed

lemma machine_step_cong:
  assumes "states_ok g" and "pheap g' = pheap g" and "rooms_frame g g'"
  shows "machine_step g g'"
  using states_ok_cong [OF assms] assms(2) by (auto simp: machine_step_def intro: stay)

lemma machine_step_refl: "states_ok g \<Longrightarrow> machine_step g g"
  by (rule machine_step_cong) (simp_all add: rooms_frame_same)

section \<open>Each handler follows the edges\<close>

text \<open>
  The dispatch table runs a handler only in the states of its entries; that is the hypothesis
  on \<open>p_state\<close> of each lemma.
\<close>

lemma FSM_Login_machine:
  assumes "states_ok (gs w)" "packet_ok p" "players (gs w) s = Some a" "pheap (gs w) a = Some q" "p_state q = PNone"
    and "run_FSM_Login s a p w = Some w'"
  shows "machine_step (gs w) (gs w')"
proof -
  let ?q = "q\<lparr>p_name := (if body p = [] then p_name q else body p), p_state := LoggedIn\<rparr>"
  have w': "gs w' = put_player a ?q (gs w)" using FSM_Login_eq [OF assms(2-4)] assms(6) by auto
  have "p_room q = None" using states_okD [OF assms(1,4)] assms(5) by (simp add: player_state_ok_def)
  then show ?thesis unfolding w'
    by (intro machine_step_own [OF assms(1), where a = a]) (auto simp: assms rooms_frame_same player_state_ok_def)
qed

lemma FSM_EnterRoom_machine:
  assumes ok: "world_ok w" and st: "states_ok (gs w)" and p: "packet_ok p" and a: "players (gs w) s = Some a"
    and q: "pheap (gs w) a = Some q" and ps: "p_state q = LoggedIn \<or> p_state q = InRoom"
    and r: "run_FSM_EnterRoom s a p w = Some w'"
  shows "machine_step (gs w) (gs w')"
proof -
  obtain g where g: "EnterRoom a (of_le32 (body p)) (gs w) = Some g" "pheap g a = Some (q\<lparr>p_room := Some (of_le32 (body p))\<rparr>)"
    "\<forall>b. b \<noteq> a \<longrightarrow> pheap g b = pheap (gs w) b" "rooms_frame (gs w) g"
    using EnterRoom_step [OF ok q, of "of_le32 (body p)"] by (auto simp: world_step_def)
  have ms: "machine_step (gs w) (put_player a (q'\<lparr>p_state := InRoom\<rparr>) g')"
    if "rooms_frame (gs w) g'" "\<forall>b. b \<noteq> a \<longrightarrow> pheap g' b = pheap (gs w) b" "p_room q' \<noteq> None" for q' g'
    using that ps q rooms_frame_same [of "put_player a (q'\<lparr>p_state := InRoom\<rparr>) g'" g']
    by (intro machine_step_own [OF st, where a = a]) (auto simp: player_state_ok_def intro: rooms_frame_trans)
  show ?thesis
  proof (cases "p_name q = [] \<or> length (body p) < 4")
    case True
    then have "run_FSM_EnterRoom s a p w = (if p_room q \<noteq> None then Some (w\<lparr>gs := put_player a (q\<lparr>p_state := InRoom\<rparr>) (gs w)\<rparr>) else Some w)"
      using HandleEnterRoom_eq [OF p a q] q by (simp add: run_FSM_EnterRoom_def)
    with r ms [of "gs w" q] machine_step_refl [OF st] show ?thesis by (auto simp: rooms_frame_same split: if_splits)
  next
    case False
    then have "run_FSM_EnterRoom s a p w = Some (w\<lparr>gs := put_player a (q\<lparr>p_room := Some (of_le32 (body p)), p_state := InRoom\<rparr>) g\<rparr>)"
      using HandleEnterRoom_eq [OF p a q] g(1,2) by (simp add: run_FSM_EnterRoom_def on_game_def)
    with r ms [of g "q\<lparr>p_room := Some (of_le32 (body p))\<rparr>"] g(3,4) show ?thesis by auto
  qed
qed

lemma FSM_Chat_machine:
  assumes ok: "world_ok w" and st: "states_ok (gs w)" and p: "packet_ok p" and a: "players (gs w) s = Some a"
    and r: "run_FSM_Chat s p w = Some w'"
  shows "machine_step (gs w) (gs w')"
proof -
  obtain q where q: "pheap (gs w) a = Some q" using world_okD(4) [OF ok a] by blast
  have "gs w' = gs w"
  proof (cases "p_room q")
    case None
    then show ?thesis using r a q p by (simp add: run_FSM_Chat_def HandleChat_eq)
  next
    case (Some k)
    obtain rm where rm: "rooms (gs w) k = Some rm" using game_wfD(4) [OF world_okD(1) [OF ok] q Some] by blast
    show ?thesis
      using r a q p Some BroadcastChat_send_all [OF world_okD(1) [OF ok] rm q] BroadcastChat_long_name [OF q, of k "body p"]
      by (cases "length (p_name q) < 4084") (auto simp: run_FSM_Chat_def HandleChat_eq split: if_splits)
  qed
  then show ?thesis using machine_step_refl [OF st] by simp
qed

lemma close_session_gs: "close_session s w = Some w' \<Longrightarrow> gs w' = gs w"
  by (auto simp: close_session_def)

lemma HandleHello_machine:
  assumes st: "states_ok (gs w)" and p: "packet_ok p" and a: "players (gs w) s = Some a"
    and q: "pheap (gs w) a = Some q" and ps: "p_state q = PNone" and r: "HandleHello e s p w = Some w'"
  shows "machine_step (gs w) (gs w')"
proof -
  consider "length (body p) \<noteq> 2" | "length (body p) = 2" "of_le16 (body p) \<noteq> PROTOCOL_VERSION"
    | "length (body p) = 2" "of_le16 (body p) = PROTOCOL_VERSION" by blast
  then show ?thesis
  proof cases
    case 3
    have "gs w' = put_player a (q\<lparr>p_name := hello_name q, p_state := LoggedIn\<rparr>) (gs w)"
      using r HandleHello_ok [OF p a q 3, of e] by (auto simp: Let_def bind_eq_Some_conv)
    moreover have "p_room q = None" using states_okD [OF st q] ps by (simp add: player_state_ok_def)
    ultimately show ?thesis
      by (auto intro!: machine_step_own [OF st, where a = a] simp: q ps rooms_frame_same player_state_ok_def)
  next
    case 1
    then have "gs w' = gs w"
      using r by (auto simp: HandleHello_bad_size [OF p a] bind_eq_Some_conv dest!: SendError_gs close_session_gs)
    then show ?thesis using machine_step_refl [OF st] by simp
  next
    case 2
    then have "gs w' = gs w"
      using r by (auto simp: HandleHello_bad_version [OF p a] bind_eq_Some_conv dest!: SendError_gs close_session_gs)
    then show ?thesis using machine_step_refl [OF st] by simp
  qed
qed

lemma HandleJoinRoom_machine:
  assumes ok: "world_ok w" and st: "states_ok (gs w)" and p: "packet_ok p" and a: "players (gs w) s = Some a"
    and q: "pheap (gs w) a = Some q" and ps: "p_state q = LoggedIn" and r: "HandleJoinRoom e s p w = Some w'"
  shows "machine_step (gs w) (gs w')"
proof (cases "length (body p) = 4 \<and> \<not> sint (of_le32 (body p)) < 0")
  case False
  then have "\<exists>code. HandleJoinRoom e s p w = SendError s PKT_CS_JOIN_ROOM code w"
    by (auto simp: HandleJoinRoom_eq [OF p a])
  then have "gs w' = gs w" using r SendError_gs by metis
  then show ?thesis using machine_step_refl [OF st] by simp
next
  case True
  obtain ref g1 where acq: "AcquireGameRoom (e_order e) (of_le32 (body p)) (gs w) = Some (ref, g1)"
    using r True by (cases "AcquireGameRoom (e_order e) (of_le32 (body p)) (gs w)") (auto simp: HandleJoinRoom_eq [OF p a])
  let ?w1 = "w\<lparr>gs := g1\<rparr>"
  have st1: "world_step w ?w1" using AcquireGameRoom_step(1) [OF acq] .
  have ok1: "world_ok ?w1" using world_step_ok [OF st1 ok] .
  have f1: "rooms_frame (gs w) g1" using st1 by (simp add: world_step_def)
  have h1: "pheap g1 = pheap (gs w)" using AcquireGameRoom_step(2) [OF acq] .
  have m1: "machine_step (gs w) g1" by (rule machine_step_cong [OF st h1 f1])
  have err: "machine_step (gs w) (gs w')" if "SendError s PKT_CS_JOIN_ROOM code ?w1 = Some w'" for code
    using SendError_gs [OF that] m1 by simp
  show ?thesis
  proof (cases ref)
    case NullRoom
    then show ?thesis using r err True acq by (simp add: HandleJoinRoom_eq [OF p a] Let_def)
  next
    case DanglingRoom
    then show ?thesis using r True acq by (simp add: HandleJoinRoom_eq [OF p a] Let_def)
  next
    case (RoomAt k)
    then obtain rm where rm: "rooms g1 k = Some rm" using AcquireGameRoom_room acq by blast
    show ?thesis
    proof (cases "r_started rm \<or> IsFull rm")
      case True
      then show ?thesis using r err \<open>length (body p) = 4 \<and> _\<close> acq RoomAt rm
        by (auto simp: HandleJoinRoom_eq [OF p a] Let_def split: if_splits)
    next
      case False
      then have seat: "seat_player a k ?w1 = Some w'"
        using r True acq RoomAt rm by (simp add: HandleJoinRoom_eq [OF p a] Let_def)
      have "pheap (gs ?w1) a = Some q" "rooms (gs ?w1) k = Some rm" using q h1 rm by simp_all
      from seat_player_step [OF ok1 this] obtain w4 r2 and g2 :: game where w4: "world_step ?w1 w4" "seat_player a k ?w1 = BroadcastRoomState k w4"
        "pheap (gs w4) a = Some (q\<lparr>p_room := Some k, p_ready := False, p_state := InRoom\<rparr>)"
        "\<forall>b. b \<noteq> a \<longrightarrow> pheap (gs w4) b = pheap (gs ?w1) b" "rooms (gs w4) = (rooms g2)(k \<mapsto> room_enter a r2)" by blast
      then have "rooms (gs w4) k = Some (room_enter a r2)" by simp
      then have "gs w' = gs w4"
        using BroadcastRoomState_gs [OF world_step_ok [OF w4(1) ok1]] w4(2) seat by simp
      moreover have "machine_step (gs w) (gs w4)"
      proof (rule machine_step_own [OF st, where a = a])
        show "rooms_frame (gs w) (gs w4)" using f1 w4(1) by (auto simp: world_step_def intro: rooms_frame_trans)
      qed (use w4(3,4) h1 q ps in \<open>auto simp: player_state_ok_def\<close>)
      ultimately show ?thesis by simp
    qed
  qed
qed

lemma member_InRoom:
  assumes wf: "game_wf g" and st: "states_ok g" and r: "rooms g k = Some r" "\<not> r_started r" and a: "a \<in> set (r_players r)"
  shows "\<exists>p. pheap g a = Some p \<and> p_room p = Some k \<and> p_state p = InRoom"
proof -
  obtain p where p: "pheap g a = Some p" "p_room p = Some k" using game_wfD(3) [OF wf r(1) a] by blast
  with states_okD [OF st p(1)] r show ?thesis
    by (cases "p_state p") (auto simp: player_state_ok_def)
qed

lemma TryStartGame_machine:
  assumes ok: "world_ok w" and st: "states_ok (gs w)" and r: "rooms (gs w) k = Some r" and t: "TryStartGame k w = Some w'"
  shows "machine_step (gs w) (gs w')"
proof (cases "start_ready (gs w) r")
  case False
  then show ?thesis using t TryStartGame_eq [OF world_okD(1) [OF ok] r] machine_step_refl [OF st] by simp
next
  case True
  let ?g = "enter_match (r_players r) (start_room k r (gs w))"
  have gs': "gs w' = ?g" using t TryStartGame_eq [OF world_okD(1) [OF ok] r] True by (auto simp: bind_eq_Some_conv)
  have f: "rooms_frame (gs w) ?g" using r by (auto intro!: rooms_frame_put simp: start_room_def room_frame_def)
  have members: "\<exists>p. pheap (gs w) a = Some p \<and> p_room p = Some k \<and> p_state p = InRoom" if "a \<in> set (r_players r)" for a
    using member_InRoom [OF world_okD(1) [OF ok] st r _ that] True by (simp add: start_ready_def)
  have own: "player_state_ok ?g p' \<and> state_edge (p_state p) (p_state p')"
    if p: "pheap (gs w) a = Some p" and p': "pheap ?g a = Some p'" for a p p'
  proof (cases "a \<in> set (r_players r)")
    case True
    with members [OF True] p p' show ?thesis by (auto simp: start_room_def player_state_ok_def)
  next
    case False
    then have "p' = p" using p p' by (simp add: start_room_def)
    then show ?thesis using player_state_ok_mono [OF states_okD [OF st p] f] by (auto intro: stay)
  qed
  have "\<exists>p. pheap (gs w) a = Some p" if "pheap ?g a = Some p'" for a p'
    using that by (auto simp: start_room_def split: if_splits)
  with own show ?thesis unfolding gs' machine_step_def states_ok_def by blast
qed

lemma machine_step_put:
  assumes st: "states_ok g" and q: "pheap g a = Some q" and same: "p_state q' = p_state q" "p_room q' = p_room q"
  shows "machine_step g (put_player a q' g)"
  using player_state_ok_mono [OF states_okD [OF st q] rooms_frame_same same] q same
  by (intro machine_step_own [OF st, where a = a]) (auto simp: rooms_frame_same intro: stay)

lemma HandleReady_machine:
  assumes ok: "world_ok w" and st: "states_ok (gs w)" and p: "packet_ok p" and a: "players (gs w) s = Some a"
    and q: "pheap (gs w) a = Some q" and r: "HandleReady s p w = Some w'"
  shows "machine_step (gs w) (gs w')"
proof -
  have err: "machine_step (gs w) (gs w')" if "SendError s PKT_CS_READY code w = Some w'" for code
    using SendError_gs [OF that] machine_step_refl [OF st] by simp
  show ?thesis
  proof (cases "p_room q")
    case None
    then show ?thesis using r err by (simp add: HandleReady_eq [OF p a q])
  next
    case (Some k)
    obtain rm where rm: "rooms (gs w) k = Some rm" using game_wfD(4) [OF world_okD(1) [OF ok] q Some] by blast
    let ?q = "q\<lparr>p_ready := (hd (body p) \<noteq> 0)\<rparr>"
    let ?w1 = "w\<lparr>gs := put_player a ?q (gs w)\<rparr>"
    show ?thesis
    proof (cases "r_started rm \<or> length (body p) \<noteq> 1")
      case True
      then show ?thesis using r err Some rm by (auto simp: HandleReady_eq [OF p a q] split: if_splits)
    next
      case False
      then obtain w2 where w2: "BroadcastRoomState k ?w1 = Some w2" "TryStartGame k w2 = Some w'"
        using r Some rm by (auto simp: HandleReady_eq [OF p a q] bind_eq_Some_conv)
      have s1: "world_step w ?w1"
        using set_player_safe [OF q, of "\<lambda>q. q\<lparr>p_ready := (hd (body p) \<noteq> 0)\<rparr>"] q by (auto elim!: safe_onE)
      have ok1: "world_ok ?w1" using world_step_ok [OF s1 ok] .
      have g2: "gs w2 = gs ?w1" using BroadcastRoomState_gs [OF ok1 _ w2(1), of rm] rm by simp
      have s2: "world_step ?w1 w2" using BroadcastRoomState_safe [OF ok1, of k rm] rm w2(1) by (auto elim!: safe_onE)
      have ok2: "world_ok w2" using world_step_ok [OF s2 ok1] .
      have m1: "machine_step (gs w) (gs w2)" using machine_step_put [OF st q, of ?q] g2 by simp
      have m2: "machine_step (gs w2) (gs w')"
        using TryStartGame_machine [OF ok2 machine_stepD(1) [OF m1] _ w2(2), of rm] g2 rm by simp
      have same: "map_option p_state (pheap (gs w2) b) = map_option p_state (pheap (gs w) b)" for b
        using g2 q by simp
      show ?thesis
        unfolding machine_step_def
      proof (intro conjI allI impI)
        show "states_ok (gs w')" using machine_stepD(1) [OF m2] .
        fix b x x' assume x: "pheap (gs w) b = Some x" "pheap (gs w') b = Some x'"
        then obtain y where y: "pheap (gs w2) b = Some y" "p_state y = p_state x" using same [of b] by auto
        show "state_edge (p_state x) (p_state x')" using machine_stepD(2) [OF m2 y(1) x(2)] y(2) by simp
      qed
    qed
  qed
qed

section \<open>Every packet and every job\<close>

lemma OnPacket_machine:
  assumes ok: "world_ok w" and st: "states_ok (gs w)" and tab: "g_FSM (gs w) = InitFSM empty_FSM"
    and p: "packet_ok p" and r: "OnPacket e s p w = Some w'"
  shows "machine_step (gs w) (gs w')"
proof (cases "players (gs w) s")
  case None
  then show ?thesis using r machine_step_refl [OF st] by (simp add: OnPacket_no_player)
next
  case (Some a)
  obtain q where q: "pheap (gs w) a = Some q" using world_okD(4) [OF ok Some] by blast
  obtain ho where ho: "GetHandler (g_FSM (gs w)) (p_state q) (h_id (header p)) = Some ho" using GetHandler_eq by blast
  show ?thesis
  proof (cases ho)
    case None
    then show ?thesis using r ho machine_step_refl [OF st] by (simp add: OnPacket_handler [OF \<open>players (gs w) s = Some a\<close> q])
  next
    case (Some h)
    note h = ho [unfolded this] and Some = \<open>players (gs w) s = Some a\<close>
    then have run: "run_handler h e s a p w = Some w'" using r by (simp add: OnPacket_handler [OF Some q])
    obtain i where "(p_state q, i, h) \<in> set fsm_entries" using h tab by (auto simp: GetHandler_iff)
    then consider "h = FSM_Login" "p_state q = PNone" | "h = FSM_Hello" "p_state q = PNone"
      | "h = FSM_EnterRoom" "p_state q = LoggedIn \<or> p_state q = InRoom" | "h = FSM_JoinRoom" "p_state q = LoggedIn"
      | "h = FSM_Chat" | "h = FSM_Ready" by (auto simp: fsm_entries_def)
    then show ?thesis
    proof cases
      case 1 then show ?thesis using FSM_Login_machine [OF st p Some q] run by simp
    next
      case 2 then show ?thesis using HandleHello_machine [OF st p Some q] run by simp
    next
      case 3 then show ?thesis using FSM_EnterRoom_machine [OF ok st p Some q] run by simp
    next
      case 4 then show ?thesis using HandleJoinRoom_machine [OF ok st p Some q] run by simp
    next
      case 5 then show ?thesis using FSM_Chat_machine [OF ok st p Some] run by simp
    next
      case 6 then show ?thesis using HandleReady_machine [OF ok st p Some q] run by simp
    qed
  qed
qed

lemma remove_player_machine:
  assumes ok: "world_ok w" and st: "states_ok (gs w)" and a: "players (gs w) s = Some a" and r: "remove_player s a w = Some w'"
  shows "machine_step (gs w) (gs w')"
proof -
  obtain p where p: "pheap (gs w) a = Some p" using world_okD(4) [OF ok a] by blast
  obtain g1 where g1: "world_ok (w\<lparr>gs := drop_player s a g1\<rparr>)"
    "\<forall>b. b \<noteq> a \<longrightarrow> pheap g1 b = pheap (gs w) b" "rooms_frame (gs w) g1"
    and rp: "remove_player s a w = (let w1 = w\<lparr>gs := drop_player s a g1\<rparr> in
      (case p_room p of None \<Rightarrow> Some w1 | Some k \<Rightarrow> do {
         r \<leftarrow> rooms g1 k;
         if r_capacity r \<noteq> 0 then BroadcastRoomState k w1 else Some w1 }))"
    using remove_player_eq [OF ok a p] by blast
  have "gs w' = drop_player s a g1"
  proof (cases "p_room p")
    case None
    then show ?thesis using r rp by auto
  next
    case (Some k)
    then obtain rm where rm: "rooms g1 k = Some rm" using r rp by (auto simp: bind_eq_Some_conv Let_def)
    then show ?thesis
      using r rp Some BroadcastRoomState_gs [OF g1(1), of k rm w'] by (auto simp: Let_def split: if_splits)
  qed
  moreover have "machine_step (gs w) (drop_player s a g1)"
    using g1(2) rooms_frame_trans [OF g1(3) rooms_frame_same [of "drop_player s a g1"]]
    by (intro machine_step_own [OF st, where a = a]) auto
  ultimately show ?thesis by simp
qed

lemma run_job_machine:
  assumes ok: "world_ok w" and st: "states_ok (gs w)" and tab: "g_FSM (gs w) = InitFSM empty_FSM"
    and fits: "job_fits e w job" and r: "run_job e job w = Some w'"
  shows "machine_step (gs w) (gs w')"
proof (cases job)
  case (PacketJob s h b)
  then show ?thesis using OnPacket_machine [OF ok st tab, of "\<lparr>header = h, body = b\<rparr>" e s w'] fits r by simp
next
  case (DisconnectJob s)
  then obtain x where "sessions (net w) s = Some x" using fits by auto
  from Game_OnSessionDisconnected_eq [OF ok this] obtain w1 where
    w1: "(case players (gs w) s of None \<Rightarrow> Some w | Some a \<Rightarrow> remove_player s a w) = Some w1"
    "Game_OnSessionDisconnected s w = Some (w1\<lparr>net := cleaned s (net w1)\<rparr>)" by blast
  have "machine_step (gs w) (gs w1)"
    using w1(1) remove_player_machine [OF ok st] machine_step_refl [OF st] by (auto split: option.splits)
  then show ?thesis using DisconnectJob r w1(2) by auto
next
  case (ConnectJob s)
  then have gs': "gs w' = OnSessionConnected e s (gs w)" and s: "players (gs w) s = None" "pheap (gs w) (e_addr e) = None"
    using r fits by auto
  show ?thesis unfolding gs'
    using s by (intro machine_step_own [OF st, where a = "e_addr e"])
      (auto simp: OnSessionConnected_def Let_def rooms_frame_same player_state_ok_def new_Player_def)
next
  case ShutdownJob
  then show ?thesis using r machine_step_cong [OF st] by (auto simp: rooms_frame_same)
qed

end
