(* ===== verification/Game_Properties.thy ===== *)
theory Game_Properties
  imports State_Machine Transport_Properties
begin

text \<open>
  What the game thread promises, packet by packet and job by job, with the cases in which it
  does not keep its word. \<open>arena\<close> is a concrete world: two players, in the unstarted game
  room 100, and a third in the lobby.
\<close>

section \<open>A concrete world\<close>

definition arena_player :: "sid \<Rightarrow> u32 \<Rightarrow> room_key option \<Rightarrow> PlayerState \<Rightarrow> bool \<Rightarrow> player" where
  "arena_player s i k st rdy = \<lparr>p_session = s, p_room = k, p_name = [65], p_state = st, p_id = i, p_ready = rdy\<rparr>"

definition arena :: world where
  "arena = \<lparr>net = \<lparr>sessions = [3 \<mapsto> demo_session, 4 \<mapsto> demo_session, 5 \<mapsto> demo_session, 6 \<mapsto> demo_session], srvState = Running,
       jobQueue = [], trace = [], sysResult = (\<lambda>_. IoStarted)\<rparr>,
     gs = \<lparr>players = [3 \<mapsto> 13, 4 \<mapsto> 14, 5 \<mapsto> 15, 6 \<mapsto> 16],
       pheap = [13 \<mapsto> arena_player 3 1 (Some 100) InRoom False, 14 \<mapsto> arena_player 4 2 (Some 100) InRoom True,
         15 \<mapsto> arena_player 5 3 None LoggedIn False, 16 \<mapsto> arena_player 6 4 None PNone False],
       rooms = [1 \<mapsto> new_Room 1, 100 \<mapsto> \<lparr>r_id = 100, r_players = [13, 14], r_capacity = 2, r_started = False\<rparr>],
       nextPlayerId = 5, nextGameRoomId = 101, nextMatchId = 1, running = True, g_FSM = InitFSM empty_FSM\<rparr>\<rparr>"

lemma arena_net [simp]:
  "sessions (net arena) = [3 \<mapsto> demo_session, 4 \<mapsto> demo_session, 5 \<mapsto> demo_session, 6 \<mapsto> demo_session]" "srvState (net arena) = Running"
  "jobQueue (net arena) = []" "trace (net arena) = []" "sysResult (net arena) i = IoStarted" "IsShuttingDown (net arena) = False"
  by (simp_all add: arena_def IsShuttingDown_def)

lemma arena_gs [simp]:
  "players (gs arena) = [3 \<mapsto> 13, 4 \<mapsto> 14, 5 \<mapsto> 15, 6 \<mapsto> 16]"
  "pheap (gs arena) = [13 \<mapsto> arena_player 3 1 (Some 100) InRoom False, 14 \<mapsto> arena_player 4 2 (Some 100) InRoom True,
     15 \<mapsto> arena_player 5 3 None LoggedIn False, 16 \<mapsto> arena_player 6 4 None PNone False]"
  "rooms (gs arena) = [1 \<mapsto> new_Room 1, 100 \<mapsto> \<lparr>r_id = 100, r_players = [13, 14], r_capacity = 2, r_started = False\<rparr>]"
  "nextPlayerId (gs arena) = 5" "nextGameRoomId (gs arena) = 101" "nextMatchId (gs arena) = 1" "running (gs arena)"
  "g_FSM (gs arena) = InitFSM empty_FSM"
  by (simp_all add: arena_def)

lemma arena_player_fields [simp]:
  "p_session (arena_player s i k st rdy) = s" "p_room (arena_player s i k st rdy) = k" "p_name (arena_player s i k st rdy) = [65]"
  "p_state (arena_player s i k st rdy) = st" "p_id (arena_player s i k st rdy) = i" "p_ready (arena_player s i k st rdy) = rdy"
  by (simp_all add: arena_player_def)

lemma arena_wf: "game_wf (gs arena)"
  by (rule game_wfI) (auto simp: new_Room_def split: if_splits)

lemma arena_ok: "world_ok arena"
  using arena_wf by (auto simp: world_ok_def net_ok_def split: if_splits)

lemma arena_states: "states_ok (gs arena)"
  by (auto simp: states_ok_def player_state_ok_def split: if_splits)

text \<open>Packets as the queue delivers them.\<close>

definition mk_packet :: "PACKET_ID \<Rightarrow> bytes \<Rightarrow> Packet" where
  "mk_packet i b = \<lparr>header = \<lparr>h_size = of_nat (4 + length b), h_id = pkt i\<rparr>, body = b\<rparr>"

lemma mk_packet_ok: "length b \<le> 4092 \<Longrightarrow> packet_ok (mk_packet i b)"
proof -
  assume "length b \<le> 4092"
  then have "unat (of_nat (4 + length b) :: u16) = 4 + length b"
    by (simp only: unsigned_of_nat) (simp add: take_bit_nat_eq_self)
  with \<open>length b \<le> 4092\<close> show ?thesis by (simp add: packet_ok_def IsValid_iff mk_packet_def del: of_nat_add)
qed

lemma mk_packet_fields [simp]: "body (mk_packet i b) = b" "h_id (header (mk_packet i b)) = pkt i"
  by (simp_all add: mk_packet_def)

definition demo_env :: env where
  "demo_env = \<lparr>e_tick = 0, e_order = [1, 100], e_addr = 20\<rparr>"

lemma demo_env_fields [simp]: "e_tick demo_env = 0" "e_order demo_env = [1, 100]" "e_addr demo_env = 20"
  by (simp_all add: demo_env_def)

section \<open>Memory safety\<close>

text \<open>C10: In every well-formed world the game thread handles every queued packet without using freed
  memory and leaves the world well formed, with one exception that is exactly characterised: an
  automatic JOIN_ROOM that finds no open game room while the next room number is already a room, or
  while the signed counter of room numbers is at its maximum.\<close>

theorem packets_memory_safe_except_collision:
  assumes "world_ok w" and "packet_ok p"
  shows "(OnPacket e s p w = None \<longleftrightarrow> packet_crashes e s p w) \<and>
    (\<not> packet_crashes e s p w \<longrightarrow> (\<exists>w'. OnPacket e s p w = Some w' \<and> world_ok w' \<and> io_frame (net w) (net w')))"
proof -
  have "world_ok w' \<and> io_frame (net w) (net w')" if "world_step w w'" for w'
    using world_step_ok [OF that assms(1)] that by (simp add: world_step_def)
  then show ?thesis using OnPacket_safe [OF assms, of e s] unfolding safe_on_def by blast
qed

theorem packets_memory_safe_except_collision_witness:
  "\<exists>w'. OnPacket demo_env 3 (mk_packet PKT_CS_CHAT [72, 105]) arena = Some w' \<and> world_ok w'"
proof -
  have "\<not> packet_crashes demo_env 3 (mk_packet PKT_CS_CHAT [72, 105]) arena"
    by (simp add: packet_crashes_def join_collides_def)
  then show ?thesis
    using packets_memory_safe_except_collision [OF arena_ok, of "mk_packet PKT_CS_CHAT [72, 105]" demo_env 3]
    by (auto simp: mk_packet_ok)
qed

section \<open>Dispatch and the life of a player\<close>

lemma handler_table:
  "GetHandler (InitFSM empty_FSM) st pid =
    Some (if st = PNone \<and> pid = 1 then Some FSM_Login
     else if st = PNone \<and> pid = 10 then Some FSM_Hello
     else if st = LoggedIn \<and> pid = 4 then Some FSM_EnterRoom
     else if st = LoggedIn \<and> pid = 20 then Some FSM_JoinRoom
     else if st = InRoom \<and> pid = 2 then Some FSM_Chat
     else if st = InRoom \<and> pid = 4 then Some FSM_EnterRoom
     else if st = InRoom \<and> pid = 22 then Some FSM_Ready
     else None)"
  unfolding GetHandler_InitFSM by (cases st) (simp_all add: InitFSM_def set_entry_def empty_FSM_def Let_def)

text \<open>C38: A packet of a connected player is handled by its state and its 16-bit id alone: exactly seven
  pairs of state and id run a handler, each its own; every other pair, and every id beyond the
  columns of the table, which is not read there, changes nothing and sends nothing. In particular a
  player that is InGame can do nothing.\<close>

theorem dispatch_table_exact:
  assumes "players (gs w) s = Some a" and "pheap (gs w) a = Some q" and "g_FSM (gs w) = InitFSM empty_FSM"
  shows "OnPacket e s p w =
    (let st = p_state q; pid = h_id (header p) in
     if st = PNone \<and> pid = 1 then run_FSM_Login s a p w
     else if st = PNone \<and> pid = 10 then HandleHello e s p w
     else if st = LoggedIn \<and> pid = 4 then run_FSM_EnterRoom s a p w
     else if st = LoggedIn \<and> pid = 20 then HandleJoinRoom e s p w
     else if st = InRoom \<and> pid = 2 then run_FSM_Chat s p w
     else if st = InRoom \<and> pid = 4 then run_FSM_EnterRoom s a p w
     else if st = InRoom \<and> pid = 22 then HandleReady s p w
     else Some w)"
  unfolding OnPacket_handler [OF assms(1,2)] assms(3) handler_table by (simp add: Let_def)

theorem dispatch_table_exact_witness:
  "OnPacket demo_env 3 \<lparr>header = \<lparr>h_size = 4, h_id = 65535\<rparr>, body = []\<rparr> arena = Some arena"
  using dispatch_table_exact [of arena 3 13 "arena_player 3 1 (Some 100) InRoom False"] by simp

text \<open>A packet that the table blocks, among them every packet of a player whose match has started,
  has no effect at all: nothing is sent and no state changes.\<close>

lemma blocked_packet_has_no_effect:
  assumes "players (gs w) s = Some a" and "pheap (gs w) a = Some q" and "g_FSM (gs w) = InitFSM empty_FSM"
    and "p_state q = InGame \<or> h_id (header p) \<notin> {1, 2, 4, 10, 20, 22} \<or> (p_state q = PNone \<and> h_id (header p) \<notin> {1, 10})"
  shows "OnPacket e s p w = Some w"
  using assms OnPacket_handler [OF assms(1,2), of e p] handler_table [of "p_state q" "h_id (header p)"]
  by (auto split: if_splits)

text \<open>C12: Whatever job the game thread runs, every player stays on the edges None, LoggedIn, InRoom,
  InGame, never skipping a state nor going back, and the states keep agreeing with the rooms: a
  player is in a room exactly in the last two states, and InGame means that its room has started.\<close>

theorem every_job_follows_the_state_machine:
  assumes "world_ok w" and "states_ok (gs w)" and "g_FSM (gs w) = InitFSM empty_FSM"
    and "job_fits e w job" and "run_job e job w = Some w'"
  shows "states_ok (gs w') \<and>
    (\<forall>a p p'. pheap (gs w) a = Some p \<longrightarrow> pheap (gs w') a = Some p' \<longrightarrow> state_edge (p_state p) (p_state p'))"
  using run_job_machine [OF assms] by (simp add: machine_step_def)

theorem every_job_follows_the_state_machine_witness:
  "states_ok ((gs arena)\<lparr>running := False\<rparr>)"
  using every_job_follows_the_state_machine [OF arena_ok arena_states, of demo_env ShutdownJob] by simp

text \<open>C13: The game thread runs the jobs at the head of the queue strictly in order and each once, as long
  as they can be run: up to the first shutdown job, when the session of each connect and disconnect
  job is alive at its turn, every packet is well formed, and no packet is the JOIN_ROOM that uses a
  destroyed room. Then the world stays well formed, and what the jobs add to the queue stands behind
  the jobs that were waiting.\<close>

theorem game_loop_runs_jobs_in_order:
  assumes "world_ok w" and "running (gs w)" and "jobQueue (net w) = map snd xs @ rest"
    and "all_fit xs w" and "ShutdownJob \<notin> snd ` set xs"
  shows "\<exists>w' js. for_each (\<lambda>(e, job) v. run_job e job (pop_head v)) xs w = Some w' \<and> world_ok w' \<and>
    jobQueue (net w') = rest @ js \<and> GameThreadLoop (map fst xs @ es) w = GameThreadLoop es w'"
  using loop_in_order [OF assms, of es] by (auto simp: run_jobs_def)

theorem game_loop_runs_jobs_in_order_witness:
  "\<exists>w'. GameThreadLoop [demo_env] (arena\<lparr>net := (net arena)\<lparr>jobQueue := [DisconnectJob 3]\<rparr>\<rparr>) = Some w' \<and> world_ok w'"
proof -
  have ok: "world_ok (arena\<lparr>net := (net arena)\<lparr>jobQueue := [DisconnectJob 3]\<rparr>\<rparr>)"
    using arena_ok by (simp add: world_ok_def net_ok_def)
  have "all_fit [(demo_env, DisconnectJob 3)] (arena\<lparr>net := (net arena)\<lparr>jobQueue := [DisconnectJob 3]\<rparr>\<rparr>)"
    by (simp split: option.split)
  from game_loop_runs_jobs_in_order [OF ok _ _ this, of "[]" "[]"] show ?thesis by auto
qed

text \<open>C39: The shutdown job stops the game thread at once: the jobs queued behind it, such as the
  disconnect of a session that closed later, are never run, whatever the number of further turns.\<close>

theorem jobs_behind_shutdown_are_never_run:
  assumes "running (gs w)" and "jobQueue (net w) = ShutdownJob # q"
  shows "\<exists>w'. GameThreadLoop (e # es) w = Some w' \<and> jobQueue (net w') = q \<and> \<not> running (gs w') \<and>
    players (gs w') = players (gs w) \<and> sessions (net w') = sessions (net w) \<and> trace (net w') = trace (net w)"
  using loop_shutdown [OF assms, of e es] by simp

theorem jobs_behind_shutdown_are_never_run_witness:
  "\<exists>w'. GameThreadLoop [demo_env, demo_env] (arena\<lparr>net := (net arena)\<lparr>jobQueue := [ShutdownJob, DisconnectJob 3]\<rparr>\<rparr>) = Some w' \<and>
    jobQueue (net w') = [DisconnectJob 3] \<and> players (gs w') 3 = Some 13"
  using jobs_behind_shutdown_are_never_run [of "arena\<lparr>net := (net arena)\<lparr>jobQueue := [ShutdownJob, DisconnectJob 3]\<rparr>\<rparr>"
      "[DisconnectJob 3]" demo_env "[demo_env]"] by auto

section \<open>Login and hello\<close>

text \<open>A login stores the whole body as the name and moves the player to LoggedIn; the state moves
  even when the handler rejects an empty name, and then the player is stuck for chat: it is logged
  in without a name, and every later ENTER_ROOM is ignored.\<close>

lemma login_moves_state_even_without_name:
  assumes "packet_ok p" and "players (gs w) s = Some a" and "pheap (gs w) a = Some q" and "p_name q = []"
  shows "\<exists>w' q'. run_FSM_Login s a p w = Some w' \<and> net w' = net w \<and> pheap (gs w') a = Some q' \<and>
    p_state q' = LoggedIn \<and> p_name q' = body p \<and>
    (body p = [] \<longrightarrow> (\<forall>p2. packet_ok p2 \<longrightarrow> HandleEnterRoom s p2 w' = Some w'))"
proof -
  let ?q = "q\<lparr>p_name := body p, p_state := LoggedIn\<rparr>"
  let ?w = "w\<lparr>gs := put_player a ?q (gs w)\<rparr>"
  have "run_FSM_Login s a p w = Some ?w" using FSM_Login_eq [OF assms(1-3)] assms(4) by (auto split: if_splits)
  moreover have "HandleEnterRoom s p2 ?w = Some ?w" if "packet_ok p2" "body p = []" for p2
    using HandleEnterRoom_eq [OF that(1), of ?w s a ?q] assms(2) that(2) by simp
  ultimately show ?thesis by auto
qed

text \<open>A HELLO with the right version is welcomed: one WELCOME with result 0, the player's number and
  the server tick goes out, a nameless player is called \<open>Player\<close> and its number in decimal, the state
  becomes LoggedIn and nothing else changes.\<close>

lemma hello_is_welcomed:
  assumes "packet_ok p" and "players (gs w) s = Some a" and "pheap (gs w) a = Some q"
    and "body p = le16 PROTOCOL_VERSION" and "send_allowed s (pkt PKT_SC_WELCOME) (net w)" and "syscall_result (net w) = IoStarted"
  shows "\<exists>w'. HandleHello e s p w = Some w' \<and>
    trace (net w') = trace (net w) @ [WSASend s (packet_bytes 11 ([0] @ le32 (p_id q) @ le32 (CurrentTick (e_tick e))))] \<and>
    jobQueue (net w') = jobQueue (net w) \<and>
    gs w' = put_player a (q\<lparr>p_name := (if p_name q = [] then ascii ''Player '' @ dec_string (unat (p_id q)) else p_name q),
      p_state := LoggedIn\<rparr>) (gs w)"
proof -
  let ?wb = "welcome_body (p_id q) (CurrentTick (e_tick e))"
  have wb: "?wb = [0] @ le32 (p_id q) @ le32 (CurrentTick (e_tick e))" by (simp add: welcome_body_def codec_simps)
  have "length ?wb = 9" by (simp add: wb)
  then have "length ?wb \<le> 4092" "w_Size ?wb = of_nat (length ?wb)" by (simp_all add: w_Size_def)
  from SendPacket_sent [OF assms(5,6) this] obtain x where
    sp: "SendPacket s (pkt PKT_SC_WELCOME) (Some ?wb) (w_Size ?wb) (net w) =
      Some (add_call (WSASend s (packet_bytes 11 ?wb)) (put_session s (x\<lparr>s_pendingIO := s_pendingIO x + 1\<rparr>) (net w)))" by auto
  have "length (body p) = 2" "of_le16 (body p) = PROTOCOL_VERSION" using assms(4) by simp_all
  from HandleHello_ok [OF assms(1-3) this, of e] sp show ?thesis
    by (simp add: wb Let_def hello_name_def)
qed

text \<open>A HELLO of the wrong size or version is refused and costs the connection: the error packet
  names HELLO and the reason (2 for the format, 1 for the version), then the socket is closed and
  the session's disconnect job queued; the player's state does not move.\<close>

lemma bad_hello_is_refused_and_closed:
  assumes "packet_ok p" and "players (gs w) s = Some a" and "sessions (net w) s = Some x" and "session_ok x"
    and "s_state x = Connected" and "\<not> IsShuttingDown (net w)" and "syscall_result (net w) = IoStarted"
    and "body p \<noteq> le16 PROTOCOL_VERSION"
  shows "\<exists>w'. HandleHello e s p w = Some w' \<and> gs w' = gs w \<and>
    trace (net w') = trace (net w) @
      [WSASend s (packet_bytes 1002 (le16 10 @ le16 (if length (body p) = 2 then 1 else 2))), CloseSocket (the (s_sock x))] \<and>
    jobQueue (net w') = jobQueue (net w) @ [DisconnectJob s]"
proof -
  define code where "code = (if length (body p) = 2 then ERR_VERSION_MISMATCH else ERR_BAD_FORMAT)"
  let ?b = "error_body (pkt PKT_CS_HELLO) (err_code code)"
  have b: "?b = le16 10 @ le16 (err_code code)" by (simp add: error_body_def codec_simps)
  have code: "err_code code = (if length (body p) = 2 then 1 else 2)" by (simp add: code_def)
  have "of_le16 (body p) \<noteq> PROTOCOL_VERSION" if "length (body p) = 2"
    using le16_of_le16 [OF that] assms(8) by metis
  then have eq: "HandleHello e s p w = do { w1 \<leftarrow> SendError s PKT_CS_HELLO code w; close_session s w1 }"
    using HandleHello_bad_size [OF assms(1,2), of e] HandleHello_bad_version [OF assms(1,2), of e]
    by (cases "length (body p) = 2") (simp_all add: code_def)
  have al: "send_allowed s (pkt PKT_SC_ERROR) (net w)" using assms(3,5,6) by (simp add: send_allowed_def)
  have lb: "length ?b \<le> 4092" "w_Size ?b = of_nat (length ?b)" by (simp_all only: w_Size_def) (simp add: error_body_def codec_simps)
  have "SendPacket s (pkt PKT_SC_ERROR) (Some ?b) (w_Size ?b) (net w) =
      Some (add_call (WSASend s (packet_bytes 1002 ?b)) (put_session s (x\<lparr>s_pendingIO := s_pendingIO x + 1\<rparr>) (net w)))"
    (is "_ = Some ?n") using SendPacket_sent [OF al assms(7) lb] assms(3) by simp
  then have se: "SendError s PKT_CS_HELLO code w = Some (w\<lparr>net := ?n\<rparr>)" by (simp add: SendError_def Let_def)
  have "sessions ?n s = Some (x\<lparr>s_pendingIO := s_pendingIO x + 1\<rparr>)" "session_ok (x\<lparr>s_pendingIO := s_pendingIO x + 1\<rparr>)"
    "s_state (x\<lparr>s_pendingIO := s_pendingIO x + 1\<rparr>) = Connected" using assms(4,5) by simp_all
  from RequestClose_open [OF this] obtain k where "s_sock x = Some k" "RequestClose s ?n =
    Some (push_job (DisconnectJob s) (add_call (CloseSocket k) (put_session s (closed_session (x\<lparr>s_pendingIO := s_pendingIO x + 1\<rparr>)) ?n)))"
    by auto
  then show ?thesis using eq se b code by (simp add: close_session_def on_net_def)
qed

text \<open>\<open>std::to_string\<close> of a player number, as the model computes it, is its decimal notation: the
  digits read back as the number, every character is an ASCII digit, and no number but zero starts
  with a zero.\<close>

lemma dec_string_is_decimal:
  "foldl (\<lambda>v d. 10 * v + (unat d - 48)) 0 (dec_string n) = n \<and> dec_string n \<noteq> [] \<and>
    (\<forall>d \<in> set (dec_string n). 48 \<le> unat d \<and> unat d \<le> 57) \<and> (hd (dec_string n) = 48 \<longleftrightarrow> n = 0)"
proof (induction n rule: dec_string.induct)
  case (1 n)
  have digit: "unat (48 + of_nat k :: u8) = 48 + k" if "k < 10" for k
    using that by (simp add: unat_word_ariths unsigned_of_nat take_bit_nat_eq_self)
  show ?case
  proof (cases "n < 10")
    case True
    then have "(48 + of_nat n = (48 :: u8)) = (n = 0)" using digit [OF True] by (auto simp: word_unat_eq_iff)
    then show ?thesis using True digit [OF True] by (subst (1 2 3 4) dec_string.simps) simp
  next
    case False
    note ih = 1 [OF False]
    have "n mod 10 < 10" by simp
    note d = digit [OF this]
    have "n div 10 \<noteq> 0" using False by simp
    then show ?thesis using ih False d by (subst (1 2 3 4) dec_string.simps) auto
  qed
qed

end
