(* ===== verification/Room_Properties.thy ===== *)
theory Room_Properties
  imports Game_Properties
begin

text \<open>
  What holds of the rooms: chat reaches the members of the sender's room and nobody else, joining
  respects the capacity where the code checks it and not where it does not, a match starts
  exactly when its room is full and ready, and a departure is announced.
\<close>

section \<open>Chat\<close>

lemma session_of_inj:
  assumes "game_wf g" and "pheap g a = Some p" and "pheap g b = Some q" and "p_session p = p_session q"
  shows "a = b"
  using game_wfD(2) [OF assms(1,2)] game_wfD(2) [OF assms(1,3)] assms(4) by simp

lemma chat_targets_members:
  assumes wf: "game_wf g" and r: "rooms g k = Some r" and q: "pheap g a = Some q"
  shows "t \<in> set (chat_targets g r a) \<longleftrightarrow> t \<noteq> p_session q \<and> (\<exists>b p. pheap g b = Some p \<and> p_room p = Some k \<and> p_session p = t)"
proof
  assume "t \<in> set (chat_targets g r a)"
  then obtain b where b: "b \<in> set (r_players r)" "b \<noteq> a" "t = session_of g b" by (auto simp: chat_targets_def)
  then obtain p where p: "pheap g b = Some p" "p_room p = Some k" using game_wfD(3) [OF wf r] by blast
  with session_of_inj [OF wf p(1) q] b show "t \<noteq> p_session q \<and> (\<exists>b p. pheap g b = Some p \<and> p_room p = Some k \<and> p_session p = t)"
    by (auto simp: session_of_def)
next
  assume "t \<noteq> p_session q \<and> (\<exists>b p. pheap g b = Some p \<and> p_room p = Some k \<and> p_session p = t)"
  then obtain b p where b: "pheap g b = Some p" "p_room p = Some k" "p_session p = t" "t \<noteq> p_session q" by blast
  then have "b \<in> set (r_players r)" using game_wfD(4) [OF wf b(1,2)] r by auto
  moreover have "b \<noteq> a" using b q by auto
  ultimately have "b \<in> set (filter (\<lambda>x. x \<noteq> a) (r_players r))" by simp
  moreover have "session_of g b = t" using b by (simp add: session_of_def)
  ultimately show "t \<in> set (chat_targets g r a)" unfolding chat_targets_def set_map by blast
qed

text \<open>C14: Chat is isolated to the room, whatever the network does: a CHAT packet of a player in a room
  changes no game state, and every packet it sends goes to the session of another player of the same
  room and is the CHAT packet with the sender's number and name and the message, cut to what fits
  4096 bytes; the sender gets nothing back. The only other calls are the closing of sockets: no
  receive and no status is posted.\<close>

theorem chat_goes_to_the_room_only:
  assumes "world_ok w" and "packet_ok p" and "players (gs w) s = Some a" and "pheap (gs w) a = Some q"
    and "p_room q = Some k"
  shows "\<exists>w' cs. run_FSM_Chat s p w = Some w' \<and> gs w' = gs w \<and> trace (net w') = trace (net w) @ cs \<and>
    (\<forall>t d. WSASend t d \<in> set cs \<longrightarrow> t \<noteq> s \<and>
       (\<exists>b x. pheap (gs w) b = Some x \<and> p_room x = Some k \<and> p_session x = t) \<and>
       d = packet_bytes 3 (chat_layout (p_id q) (p_name q) (take (max_chat (p_name q)) (body p))) \<and> length d \<le> 4096) \<and>
    (\<forall>c \<in> set cs. (\<exists>t d. c = WSASend t d) \<or> (\<exists>sock. c = CloseSocket sock))"
proof -
  note wf = world_okD(1) [OF assms(1)]
  obtain r where r: "rooms (gs w) k = Some r" using game_wfD(4) [OF wf assms(4,5)] by blast
  have ps: "p_session q = s" using world_okD(4) [OF assms(1,3)] assms(4) by auto
  have eq: "run_FSM_Chat s p w = (if p_name q = [] \<or> body p = [] then Some w else Room_BroadcastChat k a (body p) w)"
    using assms by (simp add: run_FSM_Chat_def HandleChat_eq)
  show ?thesis
  proof (cases "p_name q = [] \<or> body p = [] \<or> 4084 \<le> length (p_name q)")
    case True
    then have "run_FSM_Chat s p w = Some w" using eq BroadcastChat_long_name [OF assms(4), of k "body p"] by auto
    then show ?thesis by auto
  next
    case False
    let ?b = "chat_layout (p_id q) (p_name q) (take (max_chat (p_name q)) (body p))"
    have len: "length ?b \<le> 4092" using False by (auto simp: max_chat_def)
    have live: "io_live (chat_targets (gs w) r a) (net w)"
      by (rule io_live_subset [OF room_members_io_live [OF assms(1) r]]) (auto simp: chat_targets_def)
    have dist: "distinct (chat_targets (gs w) r a)"
      using member_sessions_distinct [OF wf r] by (simp add: chat_targets_def distinct_map inj_on_def)
    obtain n cs where n: "send_all (chat_targets (gs w) r a) (pkt PKT_SC_CHAT) ?b (net w) = Some n" "trace n = trace (net w) @ cs"
      "sends_exactly cs (map (\<lambda>s. WSASend s (packet_bytes (pkt PKT_SC_CHAT) ?b))
         (filter (\<lambda>s. send_allowed s (pkt PKT_SC_CHAT) (net w)) (chat_targets (gs w) r a)))"
      using send_all_exact [OF live dist len] by blast
    have "run_FSM_Chat s p w = Some (w\<lparr>net := n\<rparr>)"
      using eq False BroadcastChat_send_all [OF wf r assms(4), of "body p"] assms(5) n(1) by auto
    moreover have "t \<noteq> s \<and> (\<exists>b x. pheap (gs w) b = Some x \<and> p_room x = Some k \<and> p_session x = t) \<and>
        d = packet_bytes 3 ?b \<and> length d \<le> 4096" if "WSASend t d \<in> set cs" for t d
    proof -
      have t: "t \<in> set (chat_targets (gs w) r a)" "d = packet_bytes 3 ?b" using sends_exactlyD(1) [OF n(3) that] by auto
      moreover have "length d \<le> 4096" using t(2) len by (simp add: length_packet_bytes)
      ultimately show ?thesis using chat_targets_members [OF wf r assms(4), of t] ps by auto
    qed
    moreover note sends_exactlyD(2) [OF n(3)]
    ultimately show ?thesis using n(2) by (intro exI [of _ "w\<lparr>net := n\<rparr>"] exI [of _ cs]) simp
  qed
qed

theorem chat_goes_to_the_room_only_witness:
  "\<exists>w' cs. run_FSM_Chat 3 (mk_packet PKT_CS_CHAT [72, 105]) arena = Some w' \<and> trace (net w') = cs \<and>
    (\<forall>d. WSASend 3 d \<notin> set cs)"
proof -
  have "packet_ok (mk_packet PKT_CS_CHAT [72, 105])" by (simp add: mk_packet_ok)
  from chat_goes_to_the_room_only [OF arena_ok this, of 3 13 "arena_player 3 1 (Some 100) InRoom False" 100] show ?thesis
    by fastforce
qed

text \<open>Every other member of the room whose session may be sent to gets the message exactly once, in
  join order, whatever the network answers.\<close>

lemma chat_reaches_every_other_member:
  assumes "world_ok w" and "packet_ok p" and "players (gs w) s = Some a" and "pheap (gs w) a = Some q"
    and "p_room q = Some k" and "rooms (gs w) k = Some r" and "p_name q \<noteq> []" and "body p \<noteq> []" and "length (p_name q) < 4084"
  shows "\<exists>w' cs. run_FSM_Chat s p w = Some w' \<and> trace (net w') = trace (net w) @ cs \<and>
    sends_exactly cs (map (\<lambda>b. WSASend (session_of (gs w) b)
        (packet_bytes 3 (chat_layout (p_id q) (p_name q) (take (4084 - length (p_name q)) (body p)))))
      (filter (\<lambda>b. send_allowed (session_of (gs w) b) 3 (net w)) (filter (\<lambda>b. b \<noteq> a) (r_players r))))"
proof -
  let ?b = "chat_layout (p_id q) (p_name q) (take (max_chat (p_name q)) (body p))"
  let ?as = "filter (\<lambda>b. b \<noteq> a) (r_players r)"
  note wf = world_okD(1) [OF assms(1)]
  have len: "length ?b \<le> 4092" using assms(9) by (simp add: max_chat_def)
  have dist: "distinct (map (session_of (gs w)) ?as)"
    using member_sessions_distinct [OF wf assms(6)] by (simp add: distinct_map inj_on_def)
  have "io_live (map (session_of (gs w)) ?as) (net w)"
    by (rule io_live_subset [OF room_members_io_live [OF assms(1,6)]]) auto
  from send_map_exact [OF this dist len, of "pkt PKT_SC_CHAT"] obtain n cs where n:
    "send_all (map (session_of (gs w)) ?as) (pkt PKT_SC_CHAT) ?b (net w) = Some n" "trace n = trace (net w) @ cs"
    "sends_exactly cs (map (\<lambda>a. WSASend (session_of (gs w) a) (packet_bytes (pkt PKT_SC_CHAT) ?b))
      (filter (\<lambda>a. send_allowed (session_of (gs w) a) (pkt PKT_SC_CHAT) (net w)) ?as))" by blast
  have "run_FSM_Chat s p w = Some (w\<lparr>net := n\<rparr>)"
    using assms BroadcastChat_send_all [OF wf assms(6,4), of "body p"] n(1)
    by (simp add: run_FSM_Chat_def HandleChat_eq chat_targets_def)
  then show ?thesis using n(2,3) by (intro exI [of _ "w\<lparr>net := n\<rparr>"] exI [of _ cs]) (simp add: max_chat_def)
qed

section \<open>Joining\<close>

text \<open>C40: A room in which people chat is never turned into a game room: asked for by number, it is
  refused with error 4 (no such room) and nothing about it changes.\<close>

theorem occupied_chat_room_is_refused:
  assumes "packet_ok p" and "players (gs w) s = Some a" and "length (body p) = 4"
    and "rooms (gs w) (of_le32 (body p)) = Some r" and "r_capacity r = 0" and "r_players r \<noteq> []"
    and "0 < sint (of_le32 (body p))"
  shows "HandleJoinRoom e s p w = SendError s PKT_CS_JOIN_ROOM ERR_NO_SUCH_ROOM w"
proof -
  have "of_le32 (body p) \<noteq> 0" using assms(7) by auto
  then have "AcquireGameRoom (e_order e) (of_le32 (body p)) (gs w) = Some (NullRoom, gs w)"
    using assms(4-6) by (simp add: AcquireGameRoom_def)
  then show ?thesis using assms(3,7) by (simp add: HandleJoinRoom_eq [OF assms(1,2)] Let_def)
qed

definition chatting :: world where
  "chatting = arena\<lparr>gs := (gs arena)\<lparr>rooms := (rooms (gs arena))(7 \<mapsto> (new_Room 7)\<lparr>r_players := [16]\<rparr>)\<rparr>\<rparr>"

theorem occupied_chat_room_is_refused_witness:
  "HandleJoinRoom demo_env 5 (mk_packet PKT_CS_JOIN_ROOM [7, 0, 0, 0]) chatting =
    SendError 5 PKT_CS_JOIN_ROOM ERR_NO_SUCH_ROOM chatting"
  by (rule occupied_chat_room_is_refused [of _ _ _ 15 "(new_Room 7)\<lparr>r_players := [16]\<rparr>"])
    (simp_all add: mk_packet_ok chatting_def of_le32_def new_Room_def)

text \<open>A room created by number carries that number modulo 65536, because \<open>Room\<close> takes a 16-bit
  number: the client that asked for room 65536 is told it is in room 0.\<close>

lemma room_number_is_truncated:
  assumes "rooms g k = None" and "k \<noteq> 0"
  shows "\<exists>g' r. AcquireGameRoom order k g = Some (RoomAt k, g') \<and> rooms g' k = Some r \<and> r_capacity r = 2 \<and>
    parse_room_state (room_state_body (r_id r) (r_capacity r) []) = Some (k mod 65536, 2, [])"
proof -
  have "(ucast (ucast k :: u16) :: u32) = k mod 65536"
    by (simp add: word_uint_eq_iff uint_word_of_int unsigned_ucast_eq take_bit_eq_mod uint_mod_distrib)
  then show ?thesis
    using assms room_state_decodes [of "[]" "ucast k" 2]
    by (simp add: AcquireGameRoom_def emplace_game_room_def)
qed

end
