(* ===== verification/Match_Properties.thy ===== *)
theory Match_Properties
  imports Room_Properties
begin

text \<open>
  The waiting room: joining respects the capacity of a game room, except through ENTER_ROOM; a
  match starts exactly when its room is full and ready; a departure is announced to those who
  stay; player numbers are never shared.
\<close>

section \<open>Capacity\<close>

definition within_capacity :: "game \<Rightarrow> bool" where
  "within_capacity g \<longleftrightarrow> (\<forall>k r. rooms g k = Some r \<longrightarrow> r_capacity r \<noteq> 0 \<longrightarrow> length (r_players r) \<le> unat (r_capacity r))"

lemma within_capacityD:
  "within_capacity g \<Longrightarrow> rooms g k = Some r \<Longrightarrow> r_capacity r \<noteq> 0 \<Longrightarrow> length (r_players r) \<le> unat (r_capacity r)"
  by (simp add: within_capacity_def)

lemma IsFull_iff: "IsFull r \<longleftrightarrow> r_capacity r \<noteq> 0 \<and> unat (r_capacity r) \<le> length (r_players r)"
  by (simp add: IsFull_def)

lemma LeaveRoom_rooms:
  assumes ok: "world_ok w" and p: "pheap (gs w) a = Some p" and g: "LeaveRoom a (gs w) = Some g"
  shows "rooms g = (case p_room p of None \<Rightarrow> rooms (gs w)
    | Some k \<Rightarrow> (rooms (gs w))(k := map_option (room_leave a) (rooms (gs w) k)))"
proof (cases "p_room p")
  case None
  then show ?thesis using p g by (simp add: LeaveRoom_def)
next
  case (Some k)
  from Room_Leave_member [OF world_okD(1) [OF ok] p Some] obtain r where "rooms (gs w) k = Some r"
    "Room_Leave k a (gs w) = Some (put_player a (p\<lparr>p_room := None\<rparr>) (put_room k (room_leave a r) (gs w)))" by blast
  then show ?thesis using p Some g by (auto simp: LeaveRoom_def)
qed

lemma length_room_leave: "length (r_players (room_leave a r)) \<le> length (r_players r)"
  by (simp add: room_leave_def length_remove1)

lemma within_capacity_leave:
  assumes ok: "world_ok w" and p: "pheap (gs w) a = Some p" and g: "LeaveRoom a (gs w) = Some g"
    and c: "within_capacity (gs w)"
  shows "within_capacity g" and "rooms g k = Some r' \<Longrightarrow> \<exists>r. rooms (gs w) k = Some r \<and> r_capacity r' = r_capacity r \<and>
    length (r_players r') \<le> length (r_players r)"
proof -
  have *: "\<exists>r. rooms (gs w) k = Some r \<and> r_capacity r' = r_capacity r \<and> length (r_players r') \<le> length (r_players r)"
    if "rooms g k = Some r'" for k r'
    using that unfolding LeaveRoom_rooms [OF ok p g]
    by (auto simp: room_leave_def length_remove1 split: option.splits if_splits)
  then show "rooms g k = Some r' \<Longrightarrow> \<exists>r. rooms (gs w) k = Some r \<and> r_capacity r' = r_capacity r \<and>
    length (r_players r') \<le> length (r_players r)" .
  show "within_capacity g"
    unfolding within_capacity_def
  proof (intro allI impI)
    fix k r' assume r': "rooms g k = Some r'" "r_capacity r' \<noteq> 0"
    with * obtain r where "rooms (gs w) k = Some r" "r_capacity r' = r_capacity r"
      "length (r_players r') \<le> length (r_players r)" by blast
    with within_capacityD [OF c] r'(2) show "length (r_players r') \<le> unat (r_capacity r')" by fastforce
  qed
qed

lemma within_capacity_acquire:
  assumes "within_capacity g" and "AcquireGameRoom order requested g = Some (ref, g')"
  shows "within_capacity g'"
  using assms
  by (auto simp: AcquireGameRoom_def emplace_game_room_def within_capacity_def split: option.splits if_splits)

text \<open>C24: JOIN_ROOM never seats more players in a game room than its capacity: when every game room is
  within its capacity before a JOIN_ROOM packet is handled, it is so afterwards, whatever room the
  packet asks for.\<close>

theorem join_respects_capacity:
  assumes "world_ok w" and "packet_ok p" and "players (gs w) s = Some a" and "within_capacity (gs w)"
    and "HandleJoinRoom e s p w = Some w'"
  shows "within_capacity (gs w')"
proof (cases "length (body p) = 4 \<and> \<not> sint (of_le32 (body p)) < 0")
  case False
  then obtain c where "SendError s PKT_CS_JOIN_ROOM c w = Some w'"
    using assms(5) by (auto simp: HandleJoinRoom_eq [OF assms(2,3)] split: if_splits)
  then show ?thesis using SendError_gs assms(4) by simp
next
  case True
  obtain ref g1 where acq: "AcquireGameRoom (e_order e) (of_le32 (body p)) (gs w) = Some (ref, g1)"
    using assms(5) True by (cases "AcquireGameRoom (e_order e) (of_le32 (body p)) (gs w)") (auto simp: HandleJoinRoom_eq [OF assms(2,3)])
  let ?w1 = "w\<lparr>gs := g1\<rparr>"
  have ok1: "world_ok ?w1" using world_step_ok [OF AcquireGameRoom_step(1) [OF acq] assms(1)] .
  have c1: "within_capacity g1" using within_capacity_acquire [OF assms(4) acq] .
  have eq: "(case ref of NullRoom \<Rightarrow> SendError s PKT_CS_JOIN_ROOM ERR_NO_SUCH_ROOM ?w1
      | DanglingRoom \<Rightarrow> None
      | RoomAt k \<Rightarrow> do {
          r \<leftarrow> rooms g1 k;
          if r_started r then SendError s PKT_CS_JOIN_ROOM ERR_MATCH_ENDED ?w1
          else if IsFull r then SendError s PKT_CS_JOIN_ROOM ERR_ROOM_FULL ?w1
          else seat_player a k ?w1 }) = Some w'"
    using HandleJoinRoom_eq [OF assms(2,3), of e] True acq assms(5) by (simp add: Let_def)
  show ?thesis
  proof (cases "\<exists>c. SendError s PKT_CS_JOIN_ROOM c ?w1 = Some w'")
    case True
    then show ?thesis using SendError_gs c1 by fastforce
  next
    case False
    then obtain k r where k: "rooms g1 k = Some r" "\<not> IsFull r" "seat_player a k ?w1 = Some w'"
      using eq by (auto split: room_ref.splits if_splits simp: bind_eq_Some_conv)
    obtain q where q: "pheap (gs ?w1) a = Some q"
      using world_okD(4) [OF ok1, of s a] AcquireGameRoom_step(3) [OF acq] assms(3) by auto
    from seat_player_step [OF ok1 q, of k r] k obtain w4 g2 r2 where w4: "seat_player a k ?w1 = BroadcastRoomState k w4"
      "world_step ?w1 w4" "LeaveRoom a (gs ?w1) = Some g2" "rooms g2 k = Some r2"
      "rooms (gs w4) = (rooms g2)(k \<mapsto> room_enter a r2)" by auto
    have "gs w' = gs w4"
      using BroadcastRoomState_gs [OF world_step_ok [OF w4(2) ok1], of k "room_enter a r2" w'] w4 k(3) by simp
    moreover note within_capacity_leave [OF ok1 q w4(3)] c1
    moreover obtain r1 where "rooms g1 k = Some r1" "r_capacity r2 = r_capacity r1" "length (r_players r2) \<le> length (r_players r1)"
      using within_capacity_leave(2) [OF ok1 q w4(3), of k r2] w4(4) c1 by auto
    ultimately show ?thesis
      using k(1,2) w4(5) by (auto simp: within_capacity_def IsFull_iff room_enter_def)
  qed
qed

lemma arena_within_capacity: "within_capacity (gs arena)"
  by (simp add: within_capacity_def new_Room_def)

theorem join_respects_capacity_witness:
  "\<exists>w'. HandleJoinRoom demo_env 5 (mk_packet PKT_CS_JOIN_ROOM [0, 0, 0, 0]) arena = Some w' \<and> within_capacity (gs w')"
proof -
  let ?p = "mk_packet PKT_CS_JOIN_ROOM [0, 0, 0, 0]"
  have p: "packet_ok ?p" by (simp add: mk_packet_ok)
  have a: "players (gs arena) 5 = Some 15" by simp
  have "\<not> join_collides demo_env ?p arena"
    by (simp add: join_collides_def acquire_collides_def INT32_MAX_def)
  then obtain w' where "HandleJoinRoom demo_env 5 ?p arena = Some w'"
    using HandleJoinRoom_safe(2) [OF arena_ok p a] by (auto elim!: safe_onE)
  with join_respects_capacity [OF arena_ok p a arena_within_capacity this] show ?thesis by blast
qed

text \<open>C25: ENTER_ROOM ignores the capacity: the chat packet puts a third player into the game room of
  two that \<open>JOIN_ROOM\<close> would refuse with error 5 (room full).\<close>

theorem enter_room_overfills_a_game_room:
  "\<exists>w r. OnPacket demo_env 5 (mk_packet PKT_CS_ENTER_ROOM [100, 0, 0, 0]) arena = Some w \<and>
    rooms (gs w) 100 = Some r \<and> r_players r = [13, 14, 15] \<and> unat (r_capacity r) = 2 \<and> \<not> within_capacity (gs w) \<and>
    HandleJoinRoom demo_env 5 (mk_packet PKT_CS_JOIN_ROOM [100, 0, 0, 0]) arena =
      SendError 5 PKT_CS_JOIN_ROOM ERR_ROOM_FULL arena"
proof -
  let ?p = "mk_packet PKT_CS_ENTER_ROOM [100, 0, 0, 0]" and ?j = "mk_packet PKT_CS_JOIN_ROOM [100, 0, 0, 0]"
  have "OnPacket demo_env 5 ?p arena = run_FSM_EnterRoom 5 15 ?p arena"
    by (simp add: OnPacket_def GetPlayer_def handler_table mk_packet_def)
  moreover have "\<exists>w r. run_FSM_EnterRoom 5 15 ?p arena = Some w \<and> rooms (gs w) 100 = Some r \<and>
      r_players r = [13, 14, 15] \<and> unat (r_capacity r) = 2"
    by (simp add: run_FSM_EnterRoom_def HandleEnterRoom_def mk_packet_def GetPlayer_def IsLoggedIn_def read_bytes_def HEADER_SIZE_def
        EnterRoom_def LeaveRoom_def GetOrCreateRoom_def FindRoom_def Room_Join_def of_le32_def on_game_def set_player_def)
  moreover have "HandleJoinRoom demo_env 5 ?j arena = SendError 5 PKT_CS_JOIN_ROOM ERR_ROOM_FULL arena"
    by (simp add: HandleJoinRoom_eq mk_packet_ok AcquireGameRoom_def of_le32_def IsFull_def)
  ultimately show ?thesis by (force simp: within_capacity_def)
qed

section \<open>Starting\<close>

text \<open>C23: A match starts exactly when it should: in every well-formed world, whatever the network
  answers, \<open>TryStartGame\<close> on a room that has not started, has a capacity, has every seat taken and all
  members ready marks the room started, moves every member to InGame, takes the next match number and
  sends the same GAME_START packet, in join order, to exactly the members whose session is open and
  may be sent to (the server is not shutting down), and the only other calls close sockets; on any
  other room it does nothing.\<close>

theorem match_starts_exactly_when_full_and_ready:
  assumes "world_ok w" and "rooms (gs w) k = Some r"
  shows "if \<not> r_started r \<and> r_capacity r \<noteq> 0 \<and> length (r_players r) = unat (r_capacity r) \<and>
      (\<forall>a \<in> set (r_players r). \<exists>p. pheap (gs w) a = Some p \<and> p_ready p)
    then \<exists>w' cs. TryStartGame k w = Some w' \<and> rooms (gs w') k = Some (r\<lparr>r_started := True\<rparr>) \<and>
      (\<forall>a \<in> set (r_players r). \<exists>p. pheap (gs w') a = Some p \<and> p_state p = InGame) \<and>
      nextMatchId (gs w') = nextMatchId (gs w) + 1 \<and>
      trace (net w') = trace (net w) @ cs \<and>
      sends_exactly cs (map (\<lambda>a. WSASend (session_of (gs w) a)
          (packet_bytes 30 (game_start_body (nextMatchId (gs w)) (map (fst \<circ> info_of (gs w)) (r_players r)))))
        (filter (\<lambda>a. send_allowed (session_of (gs w) a) 30 (net w)) (r_players r)))
    else TryStartGame k w = Some w"
proof -
  note wf = world_okD(1) [OF assms(1)]
  have live: "\<And>a. a \<in> set (r_players r) \<Longrightarrow> pheap (gs w) a \<noteq> None" using room_members_live [OF wf assms(2)] .
  have "list_all (\<lambda>a. fst (snd (info_of (gs w) a))) (r_players r) \<longleftrightarrow>
      (\<forall>a \<in> set (r_players r). \<exists>p. pheap (gs w) a = Some p \<and> p_ready p)"
    using live by (force simp: list_all_iff info_of_def)
  then have fr: "start_ready (gs w) r \<longleftrightarrow> \<not> r_started r \<and> r_capacity r \<noteq> 0 \<and> length (r_players r) = unat (r_capacity r) \<and>
      (\<forall>a \<in> set (r_players r). \<exists>p. pheap (gs w) a = Some p \<and> p_ready p)" by (simp add: start_ready_def)
  note eq = TryStartGame_eq [OF wf assms(2)]
  show ?thesis
  proof (cases "start_ready (gs w) r")
    case False
    then have "TryStartGame k w = Some w" using eq by simp
    then show ?thesis unfolding if_not_P [OF False [unfolded fr]] .
  next
    case True
    then have "length (r_players r) < 256" using unsigned_less [of "r_capacity r"] by (simp add: start_ready_def)
    then have "length (start_body (gs w) r) \<le> 4092" by (simp add: start_body_def length_game_start_body)
    from send_map_exact [OF room_members_io_live [OF assms] member_sessions_distinct [OF wf assms(2)] this, of "pkt PKT_SC_GAME_START"]
    obtain n cs where n: "send_all (map (session_of (gs w)) (r_players r)) (pkt PKT_SC_GAME_START) (start_body (gs w) r) (net w) = Some n"
      "trace n = trace (net w) @ cs"
      "sends_exactly cs (map (\<lambda>a. WSASend (session_of (gs w) a) (packet_bytes (pkt PKT_SC_GAME_START) (start_body (gs w) r)))
        (filter (\<lambda>a. send_allowed (session_of (gs w) a) (pkt PKT_SC_GAME_START) (net w)) (r_players r)))" by blast
    let ?w' = "w\<lparr>net := n, gs := enter_match (r_players r) (start_room k r (gs w))\<rparr>"
    have "TryStartGame k w = Some ?w'" using eq True n(1) by simp
    moreover have "\<exists>p. pheap (gs ?w') a = Some p \<and> p_state p = InGame" if "a \<in> set (r_players r)" for a
      using live [OF that] that by (auto simp: start_room_def)
    moreover have "nextMatchId (gs ?w') = nextMatchId (gs w) + 1" by (simp add: start_room_def put_room_def)
    moreover have "rooms (gs ?w') k = Some (r\<lparr>r_started := True\<rparr>)" by (simp add: start_room_def)
    moreover have "trace (net ?w') = trace (net w) @ cs" using n(2) by simp
    moreover have "sends_exactly cs (map (\<lambda>a. WSASend (session_of (gs w) a)
          (packet_bytes 30 (game_start_body (nextMatchId (gs w)) (map (fst \<circ> info_of (gs w)) (r_players r)))))
        (filter (\<lambda>a. send_allowed (session_of (gs w) a) 30 (net w)) (r_players r)))"
      using n(3) by (simp add: start_body_def)
    ultimately show ?thesis unfolding if_P [OF True [unfolded fr]] by blast
  qed
qed

text \<open>The arena with both players of room 100 ready.\<close>

definition ready_arena :: world where
  "ready_arena = arena\<lparr>gs := put_player 13 (arena_player 3 1 (Some 100) InRoom True) (gs arena)\<rparr>"

theorem match_starts_exactly_when_full_and_ready_witness:
  "TryStartGame 100 arena = Some arena \<and>
   (\<exists>w'. TryStartGame 100 ready_arena = Some w' \<and> nextMatchId (gs w') = 2 \<and>
     (\<exists>d. filter is_send (trace (net w')) = [WSASend 3 d, WSASend 4 d]))"
proof -
  let ?r = "\<lparr>r_id = 100, r_players = [13, 14], r_capacity = 2, r_started = False\<rparr>"
  have "TryStartGame 100 arena = Some arena"
    using match_starts_exactly_when_full_and_ready [OF arena_ok, of 100 ?r] by simp
  moreover have "world_ok ready_arena"
  proof -
    have "world_step arena ready_arena"
      using set_player_safe [of arena 13 "arena_player 3 1 (Some 100) InRoom False" "\<lambda>p. p\<lparr>p_ready := True\<rparr>"]
      by (auto simp: ready_arena_def arena_player_def elim!: safe_onE)
    then show ?thesis using world_step_ok arena_ok by blast
  qed
  moreover have "send_allowed 3 30 (net ready_arena)" "send_allowed 4 30 (net ready_arena)"
    by (simp_all add: ready_arena_def send_allowed_def demo_session_def new_Session_def)
  ultimately show ?thesis
    using match_starts_exactly_when_full_and_ready [of ready_arena 100 ?r]
    by (force simp: ready_arena_def put_player_def session_of_def sends_exactly_def)
qed

section \<open>Leaving\<close>

text \<open>C26: A departure cleans up and is announced, whatever the network answers: when the disconnect job
  of a player in a room runs, the player is deleted and is in no table and no room any more. In a game
  room the new room state is sent, in join order, to exactly the members that stay and whose session
  is open and may be sent to (the server is not shutting down), provided it fits a packet: with names
  so long that its body has more than 4092 bytes (and fewer than 65536, where the 16-bit size would
  wrap) nobody is told. In a chat room nobody is told. Last of all the session is marked clean and the
  worker's status is posted.\<close>

theorem disconnect_removes_and_announces:
  assumes "world_ok w" and "players (gs w) s = Some a" and "pheap (gs w) a = Some p" and "p_room p = Some k"
    and "rooms (gs w) k = Some r"
    and "b = room_state_body (r_id r) (r_capacity r) (map (info_of (gs w)) (remove1 a (r_players r)))" and "length b < 65536"
  shows "\<exists>w' cs. Game_OnSessionDisconnected s w = Some w' \<and> players (gs w') = (players (gs w))(s := None) \<and>
    pheap (gs w') = (pheap (gs w))(a := None) \<and> rooms (gs w') = (rooms (gs w))(k \<mapsto> r\<lparr>r_players := remove1 a (r_players r)\<rparr>) \<and>
    trace (net w') = trace (net w) @ cs @ [PostStatus (Some s)] \<and>
    sends_exactly cs (if r_capacity r = 0 \<or> 4092 < length b then []
      else map (\<lambda>c. WSASend (session_of (gs w) c) (packet_bytes 21 b))
        (filter (\<lambda>c. send_allowed (session_of (gs w) c) 21 (net w)) (remove1 a (r_players r)))) \<and>
    (\<exists>x. sessions (net w') s = Some x \<and> s_gameCleanupDone x)"
proof -
  note wf = world_okD(1) [OF assms(1)]
  let ?r' = "r\<lparr>r_players := remove1 a (r_players r)\<rparr>" and ?ms = "remove1 a (r_players r)"
  from remove_player_eq [OF assms(1-3)] obtain g1 where g1: "LeaveRoom a (gs w) = Some g1"
    "world_ok (w\<lparr>gs := drop_player s a g1\<rparr>)" "\<forall>b. b \<noteq> a \<longrightarrow> pheap g1 b = pheap (gs w) b" "players g1 = players (gs w)"
    and eq: "remove_player s a w = (let w1 = w\<lparr>gs := drop_player s a g1\<rparr> in
      (case p_room p of None \<Rightarrow> Some w1 | Some k \<Rightarrow> do {
         r \<leftarrow> rooms g1 k;
         if r_capacity r \<noteq> 0 then BroadcastRoomState k w1 else Some w1 }))" by blast
  let ?w1 = "w\<lparr>gs := drop_player s a g1\<rparr>"
  have rs: "rooms g1 = (rooms (gs w))(k \<mapsto> ?r')"
    using LeaveRoom_rooms [OF assms(1,3) g1(1)] assms(4,5) by (simp add: room_leave_def)
  have ne: "c \<noteq> a" if "c \<in> set ?ms" for c using that game_wfD(5) [OF wf assms(5)] by auto
  have same: "map (session_of (gs ?w1)) ?ms = map (session_of (gs w)) ?ms" "map (info_of (gs ?w1)) ?ms = map (info_of (gs w)) ?ms"
    using ne g1(3) by (auto simp: session_of_def info_of_def)
  have "room_state_of (gs ?w1) ?r' = room_state_body (r_id r) (r_capacity r) (map (info_of (gs ?w1)) ?ms)"
    by (simp add: room_state_of_def)
  then have b: "room_state_of (gs ?w1) ?r' = b" unfolding same(2) assms(6) .
  have live: "io_live (map (session_of (gs w)) ?ms) (net w)"
    by (rule io_live_subset [OF room_members_io_live [OF assms(1,5)]]) (use set_remove1_subset in fastforce)
  have dist: "distinct (map (session_of (gs w)) ?ms)"
    using member_sessions_distinct [OF wf assms(5)] notin_set_remove1 by (fastforce simp: distinct_map inj_on_def)
  obtain n cs where n: "send_all (map (session_of (gs w)) ?ms) (pkt PKT_SC_ROOM_STATE) b (net w) = Some n" "trace n = trace (net w) @ cs"
    "sends_exactly cs (if 4092 < length b then [] else map (\<lambda>c. WSASend (session_of (gs w) c) (packet_bytes (pkt PKT_SC_ROOM_STATE) b))
        (filter (\<lambda>c. send_allowed (session_of (gs w) c) (pkt PKT_SC_ROOM_STATE) (net w)) ?ms))"
  proof (cases "4092 < length b")
    case True
    from send_all_too_big [OF live True assms(7), of "pkt PKT_SC_ROOM_STATE"] show ?thesis by (rule that [of _ "[]"]) (simp_all add: True)
  next
    case False
    with send_map_exact [OF live dist, of b "pkt PKT_SC_ROOM_STATE"] that show ?thesis by force
  qed
  have "rooms (gs ?w1) k = Some ?r'" using rs by simp
  note bc = BroadcastRoomState_send_all [OF world_okD(1) [OF g1(2)] this]
  have "map (session_of (gs ?w1)) (r_players ?r') = map (session_of (gs w)) ?ms" using same(1) by simp
  then have "BroadcastRoomState k ?w1 = Some (?w1\<lparr>net := n\<rparr>)" 
    unfolding bc b by (simp only: on_net_Some) (use n(1) in auto)
  moreover have "pkt PKT_SC_ROOM_STATE = 21" by simp
  then have "sends_exactly cs (if 4092 < length b then [] else map (\<lambda>c. WSASend (session_of (gs w) c) (packet_bytes 21 b))
        (filter (\<lambda>c. send_allowed (session_of (gs w) c) 21 (net w)) ?ms))" using n(3) by (simp only:)
  ultimately obtain w2 ds where w2: "remove_player s a w = Some w2" "gs w2 = drop_player s a g1" "trace (net w2) = trace (net w) @ ds"
    "sends_exactly ds (if r_capacity r = 0 \<or> 4092 < length b then []
      else map (\<lambda>c. WSASend (session_of (gs w) c) (packet_bytes 21 b))
        (filter (\<lambda>c. send_allowed (session_of (gs w) c) 21 (net w)) ?ms))"
    using that [of "if r_capacity r = 0 then ?w1 else ?w1\<lparr>net := n\<rparr>" "if r_capacity r = 0 then [] else cs"] eq rs assms(4) n(2)
    by (cases "r_capacity r = 0") auto
  obtain x where x: "sessions (net w) s = Some x" using world_okD(5) [OF assms(1,2)] by blast
  from Game_OnSessionDisconnected_eq [OF assms(1) x] w2(1) assms(2) have io: "io_frame (net w) (net w2)"
    "Game_OnSessionDisconnected s w = Some (w2\<lparr>net := cleaned s (net w2)\<rparr>)" by auto
  obtain x2 where "sessions (net w2) s = Some x2" using io_frameD(4) [OF io(1) x] by blast
  moreover have "pheap (drop_player s a g1) = (pheap (gs w))(a := None)" using g1(3) by (auto simp: fun_eq_iff)
  ultimately show ?thesis using io(2) w2(2-4) g1(4) rs
    by (intro exI [of _ "w2\<lparr>net := cleaned s (net w2)\<rparr>"] exI [of _ ds]) (simp add: cleaned_def)
qed

theorem disconnect_removes_and_announces_witness:
  "\<exists>w'. Game_OnSessionDisconnected 4 arena = Some w' \<and> pheap (gs w') 14 = None \<and>
    filter is_send (trace (net w')) = [WSASend 3 (packet_bytes 21 (room_state_body 100 2 [(1, False, [65])]))]"
proof -
  let ?r = "\<lparr>r_id = 100, r_players = [13, 14], r_capacity = 2, r_started = False\<rparr>"
  have "length (room_state_body 100 2 [(1, False, [65])]) \<le> 4092"
    by (simp add: room_state_body_def codec_simps)
  moreover have "send_allowed 3 21 (net arena)" by (simp add: send_allowed_def demo_session_def new_Session_def)
  ultimately show ?thesis
    using disconnect_removes_and_announces [OF arena_ok, of 4 14 "arena_player 4 2 (Some 100) InRoom True" 100 ?r
        "room_state_body 100 2 [(1, False, [65])]"]
    by (force simp: info_of_def session_of_def sends_exactly_def)
qed

section \<open>Player numbers\<close>

definition ids_ok :: "game \<Rightarrow> bool" where
  "ids_ok g \<longleftrightarrow> (\<forall>a b p q. pheap g a = Some p \<longrightarrow> pheap g b = Some q \<longrightarrow> p_id p = p_id q \<longrightarrow> a = b) \<and>
     (\<forall>a p. pheap g a = Some p \<longrightarrow> unat (p_id p) < unat (nextPlayerId g))"

lemma ids_ok_mono:
  assumes ok: "ids_ok g" and n: "nextPlayerId g' = nextPlayerId g"
    and h: "\<And>b i. map_option p_id (pheap g' b) = Some i \<Longrightarrow> map_option p_id (pheap g b) = Some i"
  shows "ids_ok g'"
proof -
  have older: "\<exists>q. pheap g b = Some q \<and> p_id q = p_id p" if "pheap g' b = Some p" for b p
    using h [of b "p_id p"] that by auto
  show ?thesis using ok older n unfolding ids_ok_def by metis
qed

text \<open>C27: Two players never share a number: every job keeps the numbers of the live players distinct and
  below the next one, as long as the 32-bit counter does not run out.\<close>

theorem player_numbers_stay_distinct:
  assumes "world_ok w" and "job_fits e w job" and "ids_ok (gs w)" and "unat (nextPlayerId (gs w)) + 1 < 2 ^ 32"
  shows "\<exists>w'. run_job e job w = Some w' \<and> ids_ok (gs w')"
proof (cases job)
  case (PacketJob s h b)
  with assms(2) have "safe_on (OnPacket e s \<lparr>header = h, body = b\<rparr>) w" using OnPacket_safe(2) [OF assms(1)] by simp
  then obtain w' where "OnPacket e s \<lparr>header = h, body = b\<rparr> w = Some w'" "world_step w w'" by (rule safe_onE)
  then show ?thesis using ids_ok_mono [OF assms(3), of "gs w'"] PacketJob by (simp add: world_step_def)
next
  case (DisconnectJob s)
  with assms(2) obtain x where x: "sessions (net w) s = Some x" by auto
  from Game_OnSessionDisconnected_eq [OF assms(1) x] obtain w1 where w1:
    "nextPlayerId (gs w1) = nextPlayerId (gs w)"
    "\<forall>b q. map_option p_id (pheap (gs w1) b) = Some q \<longrightarrow> map_option p_id (pheap (gs w) b) = Some q"
    "Game_OnSessionDisconnected s w = Some (w1\<lparr>net := cleaned s (net w1)\<rparr>)" by blast
  have "ids_ok (gs w1)" using ids_ok_mono [OF assms(3) w1(1)] w1(2) by blast
  with w1(3) DisconnectJob show ?thesis by simp
next
  case (ConnectJob s)
  let ?g = "OnSessionConnected e s (gs w)"
  have g: "pheap ?g = (pheap (gs w))(e_addr e \<mapsto> (new_Player s)\<lparr>p_id := nextPlayerId (gs w)\<rparr>)"
    "nextPlayerId ?g = nextPlayerId (gs w) + 1"
    using ConnectJob assms(2) by (simp_all add: OnSessionConnected_def Let_def)
  have n: "unat (nextPlayerId (gs w) + 1) = unat (nextPlayerId (gs w)) + 1"
    using assms(4) by (simp add: unat_word_ariths)
  have below: "p_id q \<noteq> nextPlayerId (gs w)" if "pheap (gs w) b = Some q" for b q
    using that assms(3) unfolding ids_ok_def by (metis less_irrefl)
  have "ids_ok ?g"
    using assms(3) below unfolding ids_ok_def g n by (fastforce simp: less_Suc_eq split: if_splits)
  with ConnectJob show ?thesis by simp
next
  case ShutdownJob
  then show ?thesis using assms(3) by (simp add: ids_ok_def)
qed

theorem player_numbers_stay_distinct_witness:
  "ids_ok (gs arena) \<and> (\<exists>w'. run_job demo_env (DisconnectJob 4) arena = Some w' \<and> ids_ok (gs w'))"
proof -
  have i: "ids_ok (gs arena)" by (auto simp: ids_ok_def split: if_splits)
  have "job_fits demo_env arena (DisconnectJob 4)" by simp
  from player_numbers_stay_distinct [OF arena_ok this i] i show ?thesis by simp
qed

end
