(* ===== verification/Network.thy ===== *)
theory Network
  imports Game_Loop Framing
begin

text \<open>
  Network.h, Network.cpp and the shutdown of GameServer.cpp: the table of sessions, the worker
  threads that dispatch completions, the destruction of sessions, the accept thread and the
  shutdown sequence. \<open>host\<close> adds to the world the members of \<open>Network\<close>.

  The completion port, the threads and the listening socket are the operating system's: a
  completion is an argument of the worker's step, an accepted socket one of the accept step.
  Each critical section is one step. \<open>None\<close> is the use of a freed session.
\<close>

section \<open>The session table\<close>

text \<open>\<open>std::map<SOCKET, Session*>\<close>: sorted by socket; \<open>emplace\<close> keeps an entry that exists.\<close>

type_synonym session_table = "(nat \<times> sid) list"

fun table_emplace :: "nat \<Rightarrow> sid \<Rightarrow> session_table \<Rightarrow> session_table" where
  "table_emplace k s [] = [(k, s)]"
| "table_emplace k s ((k', s') # t) =
     (if k < k' then (k, s) # (k', s') # t
      else if k = k' then (k', s') # t
      else (k', s') # table_emplace k s t)"

text \<open>\<open>RemoveSession\<close>: the first entry whose session it is.\<close>

fun table_remove :: "sid \<Rightarrow> session_table \<Rightarrow> session_table" where
  "table_remove s [] = []"
| "table_remove s ((k, s') # t) = (if s' = s then t else (k, s') # table_remove s t)"

record host =
  h_world :: world
  h_table :: session_table
  h_workers :: "nat list"
  h_running :: bool
  h_listen :: "nat option"

definition h_io :: "host \<Rightarrow> io" where
  "h_io h = net (h_world h)"

definition set_io :: "io \<Rightarrow> host \<Rightarrow> host" where
  "set_io n h = h\<lparr>h_world := (h_world h)\<lparr>net := n\<rparr>\<rparr>"

definition on_io :: "(io \<Rightarrow> io option) \<Rightarrow> host \<Rightarrow> host option" where
  "on_io f h = do { n \<leftarrow> f (h_io h); Some (set_io n h) }"

text \<open>The key is the session's socket member, \<open>INVALID_SOCKET\<close> (\<open>2^64 - 1\<close>) once it is closed.\<close>

definition INVALID_SOCKET :: nat where
  "INVALID_SOCKET = 2 ^ 64 - 1"

definition AddSession :: "sid \<Rightarrow> host \<Rightarrow> host option" where
  "AddSession s h = do {
     x \<leftarrow> sessions (h_io h) s;
     let k = (case s_sock x of None \<Rightarrow> INVALID_SOCKET | Some k \<Rightarrow> k);
     Some (h\<lparr>h_table := table_emplace k s (h_table h)\<rparr>)
   }"

definition RemoveSession :: "sid \<Rightarrow> host \<Rightarrow> host" where
  "RemoveSession s h = h\<lparr>h_table := table_remove s (h_table h)\<rparr>"

section \<open>Destroying a session\<close>

definition delete_session :: "sid \<Rightarrow> io \<Rightarrow> io" where
  "delete_session s n = n\<lparr>sessions := (sessions n)(s := None)\<rparr>"

definition TryDestroySession :: "sid option \<Rightarrow> host \<Rightarrow> host option" where
  "TryDestroySession session h =
     (case session of
        None \<Rightarrow> Some h
      | Some s \<Rightarrow> do {
          x \<leftarrow> sessions (h_io h) s;
          if s_state x = Connected then Some h
          else if \<not> s_gameCleanupDone x then Some h
          else if s_pendingIO x \<noteq> 0 then Some h
          else do {
            (won, n) \<leftarrow> TryBeginDestroy s (h_io h);
            let h1 = set_io n h;
            if \<not> won then Some h1
            else let h2 = RemoveSession s h1 in Some (set_io (delete_session s (h_io h2)) h2)
          }
        })"

section \<open>The worker threads\<close>

text \<open>
  The type of an I/O context is one of the two values of its enum; the code's last branch, for any
  other value, cannot be taken. A completion without overlapped is a signal.
\<close>

datatype IoType = Recv | Send

record completion =
  c_key :: "sid option"
  c_overlapped :: "IoType option"
  c_bytes :: u32
  c_ret :: bool

text \<open>One turn of the worker's loop: whether it goes on, and the new state.\<close>

definition worker_turn :: "completion \<Rightarrow> host \<Rightarrow> (bool \<times> host) option" where
  "worker_turn c h =
     (case c_overlapped c of
        None \<Rightarrow>
          (case c_key c of
             None \<Rightarrow> Some (False, h)
           | Some s \<Rightarrow> do { h1 \<leftarrow> TryDestroySession (Some s) h; Some (True, h1) })
      | Some ty \<Rightarrow>
          (case c_key c of
             None \<Rightarrow> Some (True, h)
           | Some s \<Rightarrow>
               (let success = c_ret c in
                case ty of
                  Recv \<Rightarrow> do {
                    h1 \<leftarrow> on_io (OnRecvComplete s (c_bytes c) success) h;
                    h2 \<leftarrow> TryDestroySession (Some s) h1;
                    Some (True, h2)
                  }
                | Send \<Rightarrow> do {
                    h1 \<leftarrow> on_io (OnSendComplete s (c_bytes c) success) h;
                    h2 \<leftarrow> TryDestroySession (Some s) h1;
                    Some (True, h2)
                  })))"

text \<open>A worker runs over the completions it dequeues; the rest is left to the others.\<close>

fun WorkerThread :: "completion list \<Rightarrow> host \<Rightarrow> (completion list \<times> host) option" where
  "WorkerThread [] h = Some ([], h)"
| "WorkerThread (c # cs) h =
     (case worker_turn c h of
        None \<Rightarrow> None
      | Some (goes_on, h1) \<Rightarrow> if goes_on then WorkerThread cs h1 else Some (cs, h1))"

text \<open>\<open>hardware_concurrency\<close> may answer 0. \<open>created i\<close> is what \<open>CreateThread\<close> returns the i-th time.\<close>

definition GetWorkerThreadCount :: "u32 \<Rightarrow> u32" where
  "GetWorkerThreadCount n = (if n = 0 then 4 else n)"

fun start_workers :: "(nat \<Rightarrow> nat option) \<Rightarrow> nat \<Rightarrow> nat \<Rightarrow> host \<Rightarrow> bool \<times> host" where
  "start_workers created i 0 h = (True, h)"
| "start_workers created i (Suc n) h =
     (case created i of
        None \<Rightarrow> (False, h)
      | Some t \<Rightarrow> start_workers created (Suc i) n (h\<lparr>h_workers := h_workers h @ [t]\<rparr>))"

definition StartWorkerThreads :: "u32 \<Rightarrow> (nat \<Rightarrow> nat option) \<Rightarrow> host \<Rightarrow> bool \<times> host" where
  "StartWorkerThreads concurrency created h =
     start_workers created 0 (unat (GetWorkerThreadCount concurrency)) h"

text \<open>\<open>Init\<close> does not look at the result of \<open>StartWorkerThreads\<close>.\<close>

definition Network_Init :: "bool \<Rightarrow> u32 \<Rightarrow> (nat \<Rightarrow> nat option) \<Rightarrow> host \<Rightarrow> bool \<times> host" where
  "Network_Init port_ok concurrency created h =
     (if \<not> port_ok then (False, h) else (True, snd (StartWorkerThreads concurrency created h)))"

section \<open>Accepting\<close>

text \<open>
  One accepted client: \<open>sock\<close> is the socket, \<open>s\<close> the address \<open>new Session\<close> returns, \<open>junk\<close> what
  its uninitialised ring holds.
\<close>

definition accept_client :: "nat \<Rightarrow> sid \<Rightarrow> bytes \<Rightarrow> host \<Rightarrow> host option" where
  "accept_client sock s junk h = do {
     let h1 = set_io (put_session s (new_Session sock junk) (h_io h)) h;
     h2 \<leftarrow> AddSession s h1;
     let h3 = set_io (EnqueueConnectJob s (h_io h2)) h2;
     let h4 = set_io (add_call (AssociatePort sock s) (h_io h3)) h3;
     on_io (PostRecv s) h4
   }"

text \<open>
  The accept loop, over the results of \<open>accept\<close>: \<open>None\<close> is a failure, after which the loop
  ends only if the server has been told to stop.
\<close>

fun AcceptThread :: "(nat \<times> sid \<times> bytes) option list \<Rightarrow> host \<Rightarrow> host option" where
  "AcceptThread [] h = Some h"
| "AcceptThread (r # rs) h =
     (if \<not> h_running h then Some h
      else case r of
          None \<Rightarrow> AcceptThread rs h
        | Some (sock, s, junk) \<Rightarrow>
            (case accept_client sock s junk h of None \<Rightarrow> None | Some h1 \<Rightarrow> AcceptThread rs h1))"

definition SignalStop :: "host \<Rightarrow> host" where
  "SignalStop h =
     (let h1 = h\<lparr>h_running := False, h_listen := None\<rparr> in
      case h_listen h of None \<Rightarrow> h1 | Some k \<Rightarrow> set_io (add_call (CloseSocket k) (h_io h1)) h1)"

section \<open>Shutting down\<close>

definition RequestShutdownAllSessions :: "host \<Rightarrow> host option" where
  "RequestShutdownAllSessions h = for_each (\<lambda>(k, s) h. do {
       h1 \<leftarrow> on_io (SendPacket s (pkt PKT_SC_SHUTDOWN) None 0) h;
       on_io (RequestClose s) h1
     }) (h_table h) h"

fun all_io_completed :: "session_table \<Rightarrow> io \<Rightarrow> bool option" where
  "all_io_completed [] n = Some True"
| "all_io_completed ((k, s) # t) n = do {
     x \<leftarrow> sessions n s;
     if s_pendingIO x \<noteq> 0 then Some False else all_io_completed t n
   }"

definition AllSessionsIOCompleted :: "host \<Rightarrow> bool option" where
  "AllSessionsIOCompleted h = all_io_completed (h_table h) (h_io h)"

definition MAXIMUM_WAIT_OBJECTS :: nat where
  "MAXIMUM_WAIT_OBJECTS = 64"

text \<open>
  The waits of \<open>StopWorkerThreads\<close>: the handles of each call. \<open>failed i\<close> is whether the call
  that starts at handle \<open>i\<close> fails, which ends the loop.
\<close>

function wait_chunks :: "(nat \<Rightarrow> bool) \<Rightarrow> nat list \<Rightarrow> nat \<Rightarrow> nat list list" where
  "wait_chunks failed ts i =
     (if i < length ts then
        let remaining = length ts - i;
            chunk = (if remaining > MAXIMUM_WAIT_OBJECTS then MAXIMUM_WAIT_OBJECTS else remaining)
        in take chunk (drop i ts) # (if failed i then [] else wait_chunks failed ts (i + chunk))
      else [])"
  by pat_completeness auto
termination
  by (relation "measure (\<lambda>(failed, ts, i). length ts - i)") (auto simp: MAXIMUM_WAIT_OBJECTS_def)

declare wait_chunks.simps [simp del]

definition post_exit_signals :: "host \<Rightarrow> host" where
  "post_exit_signals h = foldl (\<lambda>h _. set_io (add_call (PostStatus None) (h_io h)) h) h (h_workers h)"

definition StopWorkerThreads :: "(nat \<Rightarrow> bool) \<Rightarrow> host \<Rightarrow> nat list list \<times> host" where
  "StopWorkerThreads failed h =
     (if h_workers h = [] then ([], h)
      else (wait_chunks failed (h_workers h) 0, post_exit_signals h))"

definition set_srvState :: "ServerState \<Rightarrow> host \<Rightarrow> host" where
  "set_srvState st h = set_io ((h_io h)\<lparr>srvState := st\<rparr>) h"

text \<open>\<open>GameServer::Shutdown\<close>, up to the wait for the workers.\<close>

definition GameServer_Shutdown :: "(nat \<Rightarrow> bool) \<Rightarrow> host \<Rightarrow> host option" where
  "GameServer_Shutdown failed h =
     (if srvState (h_io h) \<noteq> Running then Some h
      else do {
        let h1 = set_srvState ShuttingDown h;
        h2 \<leftarrow> RequestShutdownAllSessions h1;
        let h3 = set_io (EnqueueShutdownJob (h_io h2)) h2;
        Some (snd (StopWorkerThreads failed h3))
      })"

datatype ctrl_event = CTRL_C_EVENT | CTRL_CLOSE_EVENT | CTRL_BREAK_EVENT | CTRL_SHUTDOWN_EVENT | CTRL_OTHER

definition ConsoleHandler :: "(nat \<Rightarrow> bool) \<Rightarrow> ctrl_event \<Rightarrow> host \<Rightarrow> (bool \<times> host) option" where
  "ConsoleHandler failed ev h =
     (if ev \<noteq> CTRL_OTHER then do { h1 \<leftarrow> GameServer_Shutdown failed (SignalStop h); Some (True, h1) }
      else Some (False, h))"

end
