(* ===== verification/Network_Facts.thy ===== *)
theory Network_Facts
  imports Network Loop_Facts
begin

text \<open>
  The session table, the conditions under which a session is destroyed, what a worker's turn
  does, and the shutdown sequence.
\<close>

section \<open>The table\<close>

text \<open>What the network relies on: entries are found by socket, and leave by session.\<close>

locale registry =
  fixes entries :: "'t \<Rightarrow> (nat \<times> sid) list"
    and add :: "nat \<Rightarrow> sid \<Rightarrow> 't \<Rightarrow> 't" and drop_session :: "sid \<Rightarrow> 't \<Rightarrow> 't"
    and good :: "'t \<Rightarrow> bool"
  assumes good_distinct: "good t \<Longrightarrow> distinct (map fst (entries t))"
    and add_good: "good t \<Longrightarrow> good (add k s t)"
    and drop_good: "good t \<Longrightarrow> good (drop_session s t)"
    and add_new: "good t \<Longrightarrow> k \<notin> fst ` set (entries t) \<Longrightarrow> set (entries (add k s t)) = insert (k, s) (set (entries t))"
    and add_taken: "good t' \<Longrightarrow> k' \<in> fst ` set (entries t') \<Longrightarrow> add k' s' t' = t'"
    and drop_set: "distinct (map snd (entries t'')) \<Longrightarrow> set (entries (drop_session s'' t'')) = {e \<in> set (entries t''). snd e \<noteq> s''}"
begin

text \<open>A new socket is registered, and its session can be taken out again without a trace.\<close>

lemma add_then_drop:
  assumes "good t" and "k \<notin> fst ` set (entries t)" and "s \<notin> snd ` set (entries t)"
    and "distinct (map snd (entries (add k s t)))"
  shows "set (entries (drop_session s (add k s t))) = set (entries t)"
  using drop_set [OF assms(4), of s] add_new [OF assms(1,2), of s] assms(3) by force

text \<open>A socket that is already in the table hides the new session.\<close>

lemma taken_socket_hides:
  assumes "good t" and "k \<in> fst ` set (entries t)" and "s \<notin> snd ` set (entries t)"
  shows "s \<notin> snd ` set (entries (add k s t))"
  using add_taken [OF assms(1,2), of s] assms(3) by simp

end

lemma table_emplace_set:
  "sorted_wrt (<) (map fst t) \<Longrightarrow> k \<notin> fst ` set t \<Longrightarrow> set (table_emplace k s t) = insert (k, s) (set t)"
  by (induction k s t rule: table_emplace.induct) auto

lemma table_emplace_keys: "e \<in> set (table_emplace k s t) \<Longrightarrow> e = (k, s) \<or> e \<in> set t"
  by (induction k s t rule: table_emplace.induct) (auto split: if_splits)

lemma table_emplace_sorted: "sorted_wrt (<) (map fst t) \<Longrightarrow> sorted_wrt (<) (map fst (table_emplace k s t))"
  by (induction k s t rule: table_emplace.induct) (auto simp: sorted_wrt_map dest!: table_emplace_keys)

lemma table_emplace_taken: "sorted_wrt (<) (map fst t) \<Longrightarrow> k \<in> fst ` set t \<Longrightarrow> table_emplace k s t = t"
  by (induction k s t rule: table_emplace.induct) force+

lemma table_remove_subset: "set (table_remove s t) \<subseteq> set t"
  by (induction s t rule: table_remove.induct) auto

lemma table_remove_sorted: "sorted_wrt (<) (map fst t) \<Longrightarrow> sorted_wrt (<) (map fst (table_remove s t))"
  by (induction s t rule: table_remove.induct) (use table_remove_subset in force)+

lemma table_remove_set: "distinct (map snd t) \<Longrightarrow> set (table_remove s t) = {e \<in> set t. snd e \<noteq> s}"
  by (induction s t rule: table_remove.induct) force+

lemma table_remove_distinct: "distinct (map snd t) \<Longrightarrow> distinct (map snd (table_remove s t))"
  by (induction s t rule: table_remove.induct) (use table_remove_subset in force)+

lemma table_sorted_distinct: "sorted_wrt (<) (map fst t) \<Longrightarrow> distinct (map fst (t :: session_table))"
  by (induction t) force+

interpretation table: registry "\<lambda>t. t" table_emplace table_remove "\<lambda>t. sorted_wrt (<) (map fst t)"
  by unfold_locales
    (fact table_sorted_distinct table_emplace_sorted table_remove_sorted table_emplace_set table_emplace_taken table_remove_set)+

section \<open>Access\<close>

lemma h_io_set [simp]: "h_io (set_io n h) = n"
  and set_io_fields [simp]: "h_table (set_io n h) = h_table h" "h_workers (set_io n h) = h_workers h"
  "h_running (set_io n h) = h_running h" "h_listen (set_io n h) = h_listen h"
  "gs (h_world (set_io n h)) = gs (h_world h)"
  "set_io m (set_io n h) = set_io m h"
  by (simp_all add: h_io_def set_io_def)

lemma h_io_upd [simp]: "h_io (h\<lparr>h_table := t\<rparr>) = h_io h" "h_io (h\<lparr>h_running := b\<rparr>) = h_io h"
  "h_io (h\<lparr>h_listen := l\<rparr>) = h_io h" "h_io (h\<lparr>h_workers := ws\<rparr>) = h_io h"
  by (simp_all add: h_io_def)

lemma on_io_Some [simp]: "on_io f h = Some h' \<longleftrightarrow> (\<exists>n. f (h_io h) = Some n \<and> h' = set_io n h)"
  by (auto simp: on_io_def bind_eq_Some_conv)

section \<open>Destroying\<close>

definition destroyable :: "session \<Rightarrow> bool" where
  "destroyable x \<longleftrightarrow> s_state x \<noteq> Connected \<and> s_gameCleanupDone x \<and> s_pendingIO x = 0 \<and> \<not> s_destroying x"

definition destroyed :: "sid \<Rightarrow> host \<Rightarrow> host" where
  "destroyed s h = set_io (delete_session s (h_io h)) (RemoveSession s h)"

lemma TryDestroySession_dead: "sessions (h_io h) s = None \<Longrightarrow> TryDestroySession (Some s) h = None"
  by (simp add: TryDestroySession_def)

lemma TryDestroySession_keeps:
  assumes "sessions (h_io h) s = Some x" and "\<not> destroyable x" and "s_destroying x = False"
  shows "TryDestroySession (Some s) h = Some h"
  using assms by (auto simp: TryDestroySession_def destroyable_def)

lemma TryDestroySession_destroys:
  assumes "sessions (h_io h) s = Some x" and "destroyable x"
  shows "TryDestroySession (Some s) h = Some (destroyed s h)"
proof -
  have "delete_session s (put_session s y n) = delete_session s n" for y n
    by (simp add: delete_session_def put_session_def)
  then show ?thesis
    using assms by (simp add: TryDestroySession_def destroyable_def TryBeginDestroy_def destroyed_def RemoveSession_def
        set_io_def h_io_def Let_def)
qed

lemma destroyed_fields [simp]:
  "sessions (h_io (destroyed s h)) = (sessions (h_io h))(s := None)" "jobQueue (h_io (destroyed s h)) = jobQueue (h_io h)"
  "trace (h_io (destroyed s h)) = trace (h_io h)" "srvState (h_io (destroyed s h)) = srvState (h_io h)"
  "sysResult (h_io (destroyed s h)) = sysResult (h_io h)"
  "h_table (destroyed s h) = table_remove s (h_table h)" "gs (h_world (destroyed s h)) = gs (h_world h)"
  "h_workers (destroyed s h) = h_workers h"
  by (simp_all add: destroyed_def delete_session_def RemoveSession_def)

section \<open>A worker's turn\<close>

lemma worker_turn_recv:
  "c_overlapped c = Some Recv \<Longrightarrow> c_key c = Some s \<Longrightarrow> OnRecvComplete s (c_bytes c) (c_ret c) (h_io h) = Some n \<Longrightarrow>
    worker_turn c h = map_option (Pair True) (TryDestroySession (Some s) (set_io n h))"
  by (cases "TryDestroySession (Some s) (set_io n h)") (simp_all add: worker_turn_def on_io_def)

lemma worker_turn_send:
  "c_overlapped c = Some Send \<Longrightarrow> c_key c = Some s \<Longrightarrow> OnSendComplete s (c_bytes c) (c_ret c) (h_io h) = Some n \<Longrightarrow>
    worker_turn c h = map_option (Pair True) (TryDestroySession (Some s) (set_io n h))"
  by (cases "TryDestroySession (Some s) (set_io n h)") (simp_all add: worker_turn_def on_io_def)

lemma worker_turn_status:
  "c_overlapped c = None \<Longrightarrow> c_key c = Some s \<Longrightarrow> worker_turn c h = map_option (Pair True) (TryDestroySession (Some s) h)"
  by (cases "TryDestroySession (Some s) h") (simp_all add: worker_turn_def)

lemma worker_turn_exit: "c_overlapped c = None \<Longrightarrow> c_key c = None \<Longrightarrow> worker_turn c h = Some (False, h)"
  by (simp add: worker_turn_def)

section \<open>Waiting for the workers\<close>

lemma wait_chunks_concat:
  "failed = (\<lambda>_. False) \<Longrightarrow> concat (wait_chunks failed ts i) = drop i ts"
proof (induction failed ts i rule: wait_chunks.induct)
  case (1 failed ts i)
  show ?case
  proof (cases "i < length ts")
    case True
    let ?c = "if length ts - i > MAXIMUM_WAIT_OBJECTS then MAXIMUM_WAIT_OBJECTS else length ts - i"
    have "concat (wait_chunks failed ts (i + ?c)) = drop (i + ?c) ts"
      by (rule "1.IH" [OF True refl refl]) (simp_all add: "1.prems")
    then have "concat (wait_chunks failed ts i) = take ?c (drop i ts) @ drop ?c (drop i ts)"
      using True "1.prems" by (subst wait_chunks.simps) (simp only: Let_def if_True if_False concat.simps drop_drop add.commute)
    then show ?thesis by (simp only: append_take_drop_id)
  next
    case False
    then show ?thesis by (subst wait_chunks.simps) simp
  qed
qed

lemma wait_chunks_end [simp]: "length ts \<le> i \<Longrightarrow> wait_chunks failed ts i = []"
  by (subst wait_chunks.simps) simp

lemma wait_chunks_sizes: "c \<in> set (wait_chunks failed ts i) \<Longrightarrow> 0 < length c \<and> length c \<le> 64"
proof (induction failed ts i rule: wait_chunks.induct)
  case (1 failed ts i)
  then show ?case
    by (subst (asm) (2) wait_chunks.simps) (auto simp: Let_def MAXIMUM_WAIT_OBJECTS_def split: if_splits)
qed

lemma post_exit_signals_eq:
  "post_exit_signals h = set_io ((h_io h)\<lparr>trace := trace (h_io h) @ replicate (length (h_workers h)) (PostStatus None)\<rparr>) h"
proof -
  have "foldl (\<lambda>h _. set_io (add_call (PostStatus None) (h_io h)) h) h (ws :: nat list) =
      set_io ((h_io h)\<lparr>trace := trace (h_io h) @ replicate (length ws) (PostStatus None)\<rparr>) h" for ws
  proof (induction ws arbitrary: h)
    case Nil
    then show ?case by (simp add: set_io_def h_io_def)
  next
    case (Cons a ws)
    then show ?case by (simp add: add_call_def)
  qed
  then show ?thesis by (simp add: post_exit_signals_def)
qed

section \<open>Closing every session\<close>

definition shutdown_notice :: bytes where
  "shutdown_notice = packet_bytes (pkt PKT_SC_SHUTDOWN) []"

definition sock_of :: "io \<Rightarrow> sid \<Rightarrow> nat" where
  "sock_of n s = (case sessions n s of None \<Rightarrow> 0 | Some x \<Rightarrow> the (s_sock x))"

text \<open>An open session: the notice, the close, its disconnect job. A closed session gets nothing.\<close>

lemma shutdown_one:
  assumes x: "sessions n s = Some x" and ok: "session_ok x"
  shows "\<exists>n1 n2. SendPacket s (pkt PKT_SC_SHUTDOWN) None 0 n = Some n1 \<and> RequestClose s n1 = Some n2 \<and>
    trace n2 = trace n @ (if is_open s n then [WSASend s shutdown_notice, CloseSocket (sock_of n s)] else []) \<and>
    jobQueue n2 = jobQueue n @ (if is_open s n then [DisconnectJob s] else []) \<and>
    sysResult n2 = sysResult n \<and> srvState n2 = srvState n \<and> (\<forall>t. t \<noteq> s \<longrightarrow> sessions n2 t = sessions n t) \<and>
    (\<exists>x'. sessions n2 s = Some x' \<and> s_state x' = Closed)"
proof (cases "s_state x = Connected")
  case True
  then have "send_allowed s (pkt PKT_SC_SHUTDOWN) n" using x by (simp add: send_allowed_def)
  from send_then_close [OF x ok True this] show ?thesis
    using True x by (auto simp: is_open_session [OF x] sock_of_def shutdown_notice_def)
next
  case False
  then have st: "s_state x = Closed" using ok by (auto simp: session_ok_def split: if_splits)
  have "SendPacket s (pkt PKT_SC_SHUTDOWN) None 0 n = Some n"
    using x st unfolding SendPacket_empty [OF x] by (subst SendPacket_unfold [OF x]) (simp_all add: PostSend_def)
  moreover have "RequestClose s n = Some n" using RequestClose_closed [OF x] st by simp
  ultimately show ?thesis using x st by (simp add: is_open_session [OF x])
qed

lemma shutdown_all:
  assumes "\<And>s. s \<in> snd ` set t \<Longrightarrow> \<exists>x. sessions (h_io h) s = Some x \<and> session_ok x"
    and "distinct (map snd t)"
  shows "\<exists>h'. for_each (\<lambda>(k, s) h. do {
       h1 \<leftarrow> on_io (SendPacket s (pkt PKT_SC_SHUTDOWN) None 0) h;
       on_io (RequestClose s) h1 }) t h = Some h' \<and>
    trace (h_io h') = trace (h_io h) @
      concat (map (\<lambda>s. [WSASend s shutdown_notice, CloseSocket (sock_of (h_io h) s)]) (filter (\<lambda>s. is_open s (h_io h)) (map snd t))) \<and>
    jobQueue (h_io h') = jobQueue (h_io h) @ map DisconnectJob (filter (\<lambda>s. is_open s (h_io h)) (map snd t)) \<and>
    sysResult (h_io h') = sysResult (h_io h) \<and> srvState (h_io h') = srvState (h_io h) \<and>
    h_table h' = h_table h \<and> h_workers h' = h_workers h \<and> gs (h_world h') = gs (h_world h) \<and>
    (\<forall>s \<in> snd ` set t. \<exists>x. sessions (h_io h') s = Some x \<and> s_state x = Closed) \<and>
    (\<forall>u. u \<notin> snd ` set t \<longrightarrow> sessions (h_io h') u = sessions (h_io h) u)"
  using assms
proof (induction t arbitrary: h)
  case Nil
  show ?case by simp
next
  case (Cons e t)
  obtain k s where e: "e = (k, s)" by (cases e)
  obtain x where x: "sessions (h_io h) s = Some x" "session_ok x" using Cons.prems(1) [of s] e by auto
  from shutdown_one [OF x] obtain n1 n2 where n:
    "SendPacket s (pkt PKT_SC_SHUTDOWN) None 0 (h_io h) = Some n1" "RequestClose s n1 = Some n2"
    "trace n2 = trace (h_io h) @ (if is_open s (h_io h) then [WSASend s shutdown_notice, CloseSocket (sock_of (h_io h) s)] else [])"
    "jobQueue n2 = jobQueue (h_io h) @ (if is_open s (h_io h) then [DisconnectJob s] else [])"
    "sysResult n2 = sysResult (h_io h)" "srvState n2 = srvState (h_io h)" "\<forall>t. t \<noteq> s \<longrightarrow> sessions n2 t = sessions (h_io h) t"
    "\<exists>x'. sessions n2 s = Some x' \<and> s_state x' = Closed" by (elim exE conjE) (rule that, auto)
  let ?h = "set_io n2 h"
  have ne: "s \<notin> snd ` set t" using Cons.prems(2) e by auto
  have other: "sessions n2 u = sessions (h_io h) u" if "u \<in> snd ` set t" for u
    using that ne n(7) by force
  have live: "\<exists>x. sessions (h_io ?h) u = Some x \<and> session_ok x" if "u \<in> snd ` set t" for u
    using Cons.prems(1) [of u] that other [OF that] by simp
  from Cons.IH [OF live] Cons.prems(2) e obtain h' where h': "for_each (\<lambda>(k, s) h. do {
       h1 \<leftarrow> on_io (SendPacket s (pkt PKT_SC_SHUTDOWN) None 0) h;
       on_io (RequestClose s) h1 }) t ?h = Some h'"
    "trace (h_io h') = trace n2 @ concat (map (\<lambda>s. [WSASend s shutdown_notice, CloseSocket (sock_of n2 s)]) (filter (\<lambda>s. is_open s n2) (map snd t)))"
    "jobQueue (h_io h') = jobQueue n2 @ map DisconnectJob (filter (\<lambda>s. is_open s n2) (map snd t))" "sysResult (h_io h') = sysResult n2"
    "srvState (h_io h') = srvState n2" "h_table h' = h_table h" "h_workers h' = h_workers h" "gs (h_world h') = gs (h_world h)"
    "\<forall>s \<in> snd ` set t. \<exists>x. sessions (h_io h') s = Some x \<and> s_state x = Closed"
    "\<forall>u. u \<notin> snd ` set t \<longrightarrow> sessions (h_io h') u = sessions n2 u" by auto
  have same: "is_open u n2 = is_open u (h_io h)" "sock_of n2 u = sock_of (h_io h) u" if "u \<in> set (map snd t)" for u
    using other [of u] that by (auto simp: is_open_def sock_of_def)
  have f: "filter (\<lambda>s. is_open s n2) (map snd t) = filter (\<lambda>s. is_open s (h_io h)) (map snd t)"
    by (intro filter_cong) (simp_all add: same)
  have m: "map (\<lambda>s. [WSASend s shutdown_notice, CloseSocket (sock_of n2 s)]) (filter (\<lambda>s. is_open s (h_io h)) (map snd t)) =
      map (\<lambda>s. [WSASend s shutdown_notice, CloseSocket (sock_of (h_io h) s)]) (filter (\<lambda>s. is_open s (h_io h)) (map snd t))"
    by (intro map_cong) (auto simp: same)
  have "trace (h_io h') = trace (h_io h) @ concat (map (\<lambda>s. [WSASend s shutdown_notice, CloseSocket (sock_of (h_io h) s)])
      (filter (\<lambda>s. is_open s (h_io h)) (map snd (e # t))))"
    "jobQueue (h_io h') = jobQueue (h_io h) @ map DisconnectJob (filter (\<lambda>s. is_open s (h_io h)) (map snd (e # t)))"
    using h'(2,3) n(3,4) unfolding f m e by simp_all
  moreover have "\<forall>s \<in> snd ` set (e # t). \<exists>x. sessions (h_io h') s = Some x \<and> s_state x = Closed"
    using h'(9,10) ne n(8) e by auto
  moreover have "\<forall>u. u \<notin> snd ` set (e # t) \<longrightarrow> sessions (h_io h') u = sessions (h_io h) u"
    using h'(10) n(7) e by auto
  ultimately show ?case
    using h'(1,4-8) n(1,2,5,6) e by (auto simp: on_io_def)
qed

end
