(* ===== verification/Network_Properties.thy ===== *)
theory Network_Properties
  imports Network_Facts Match_Properties
begin

text \<open>
  The network side: when a session is destroyed, what accepting a client does, the shutdown sequence, the waits for the worker threads, and a
  run in which a cleanup status reaches a session that is already freed.
\<close>

definition quiet_host :: host where
  "quiet_host = \<lparr>h_world = arena, h_table = [(7, 3), (8, 4), (9, 5)], h_workers = [1, 2], h_running = True, h_listen = Some 1\<rparr>"

lemma quiet_host_fields [simp]: "h_world quiet_host = arena" "h_io quiet_host = net arena" "h_table quiet_host = [(7, 3), (8, 4), (9, 5)]"
  "h_workers quiet_host = [1, 2]"
  by (simp_all add: quiet_host_def h_io_def)

section \<open>Destroying\<close>

text \<open>A session is freed exactly when it is closed, the game thread has cleaned it up and no I/O is
  pending: then the check removes it from the table and deletes it, and nothing else changes; in
  every other case the check has no effect at all.\<close>

lemma session_freed_exactly_when_finished:
  assumes "sessions (h_io h) s = Some x" and "\<not> s_destroying x"
  shows "\<exists>h'. TryDestroySession (Some s) h = Some h' \<and>
    (if s_state x \<noteq> Connected \<and> s_gameCleanupDone x \<and> s_pendingIO x = 0
     then sessions (h_io h') = (sessions (h_io h))(s := None) \<and> h_table h' = table_remove s (h_table h) \<and>
       trace (h_io h') = trace (h_io h) \<and> jobQueue (h_io h') = jobQueue (h_io h) \<and> gs (h_world h') = gs (h_world h)
     else h' = h)"
proof (cases "destroyable x")
  case True
  then show ?thesis using TryDestroySession_destroys [OF assms(1) True] by (simp add: destroyable_def)
next
  case False
  then have "TryDestroySession (Some s) h = Some h" using TryDestroySession_keeps [OF assms(1)] assms(2) by simp
  moreover have "\<not> (s_state x \<noteq> Connected \<and> s_gameCleanupDone x \<and> s_pendingIO x = 0)"
    using False assms(2) by (auto simp: destroyable_def)
  ultimately show ?thesis by (intro exI [of _ h]) (simp only: if_False simp_thms)
qed

text \<open>
  A client that hangs up while a packet to it is still being sent: the receive completes with no
  bytes, the game thread runs the disconnect job and posts its status, the aborted send completes.
\<close>

definition hangup_host :: host where
  "hangup_host = set_io (put_session 5 (demo_session\<lparr>s_recvPosted := True, s_pendingIO := 2\<rparr>) (net arena)) quiet_host"

definition hangup :: completion where
  "hangup = \<lparr>c_key = Some 5, c_overlapped = Some Recv, c_bytes = 0, c_ret = True\<rparr>"

definition aborted_send :: completion where
  "aborted_send = \<lparr>c_key = Some 5, c_overlapped = Some Send, c_bytes = 0, c_ret = False\<rparr>"

definition cleanup_status :: completion where
  "cleanup_status = \<lparr>c_key = Some 5, c_overlapped = None, c_bytes = 0, c_ret = True\<rparr>"

text \<open>C28: The status posted after the cleanup can reach a freed session: when the aborted send is
  dequeued after the game thread has marked the session clean but before the posted status, its
  worker frees the session, and the worker that then dequeues the status reads freed memory.\<close>

theorem late_cleanup_status_uses_freed_session:
  "\<exists>h1 w2 h3. WorkerThread [hangup] hangup_host = Some ([], h1) \<and> jobQueue (h_io h1) = [DisconnectJob 5] \<and>
    game_iter demo_env (h_world h1) = Some w2 \<and> PostStatus (Some 5) \<in> set (trace (net w2)) \<and>
    WorkerThread [aborted_send] (h1\<lparr>h_world := w2\<rparr>) = Some ([], h3) \<and> sessions (h_io h3) 5 = None \<and>
    WorkerThread [aborted_send, cleanup_status] (h1\<lparr>h_world := w2\<rparr>) = None"
proof -
  let ?x = "demo_session\<lparr>s_recvPosted := True, s_pendingIO := 2\<rparr>"
  let ?x1 = "demo_session\<lparr>s_recvPosted := False, s_pendingIO := 1\<rparr>"
  let ?n0 = "put_session 5 ?x (net arena)"
  let ?n1 = "push_job (DisconnectJob 5) (add_call (CloseSocket 7) (put_session 5 (closed_session ?x1) ?n0))"
  let ?h1 = "set_io ?n1 hangup_host"
  have io0: "h_io hangup_host = ?n0" by (simp add: hangup_host_def)
  have "RequestClose 5 (put_session 5 ?x1 ?n0) = Some ?n1"
    using RequestClose_open [of "put_session 5 ?x1 ?n0" 5 ?x1] by simp
  then have "OnRecvComplete 5 0 True ?n0 = Some ?n1" by (simp add: OnRecvComplete_def)
  then have "worker_turn hangup hangup_host = map_option (Pair True) (TryDestroySession (Some 5) ?h1)"
    using worker_turn_recv [of hangup 5 hangup_host ?n1] io0 by (simp add: hangup_def)
  moreover have "TryDestroySession (Some 5) ?h1 = Some ?h1"
    by (rule TryDestroySession_keeps [of _ _ "closed_session ?x1"]) (simp_all add: destroyable_def closed_session_def)
  ultimately have w1: "WorkerThread [hangup] hangup_host = Some ([], ?h1)" by simp
  let ?g2 = "drop_player 5 15 (gs arena)"
  let ?n2 = "add_call (PostStatus (Some 5)) (put_session 5 ((closed_session ?x1)\<lparr>s_gameCleanupDone := True\<rparr>) (?n1\<lparr>jobQueue := []\<rparr>))"
  let ?w2 = "\<lparr>net = ?n2, gs = ?g2\<rparr>"
  have "gs (h_world ?h1) = gs arena" by (simp add: hangup_host_def)
  then have w2: "game_iter demo_env (h_world ?h1) = Some ?w2"
    by (simp add: game_iter_def Game_OnSessionDisconnected_def remove_player_def LeaveRoom_def on_net_def MarkGameCleanupDone_def
        set_io_def drop_player_def)
  let ?h2 = "?h1\<lparr>h_world := ?w2\<rparr>"
  let ?y = "(closed_session ?x1)\<lparr>s_gameCleanupDone := True, s_pendingIO := 0\<rparr>"
  have io2: "h_io ?h2 = ?n2" by (simp add: h_io_def)
  have "RequestClose 5 (put_session 5 ?y ?n2) = Some (put_session 5 ?y ?n2)"
    using RequestClose_closed [of "put_session 5 ?y ?n2" 5 ?y] by (simp add: closed_session_def)
  then have "OnSendComplete 5 0 False ?n2 = Some (put_session 5 ?y ?n2)" by (simp add: OnSendComplete_def closed_session_def)
  then have "worker_turn aborted_send ?h2 = map_option (Pair True) (TryDestroySession (Some 5) (set_io (put_session 5 ?y ?n2) ?h2))"
    using worker_turn_send [of aborted_send 5 ?h2 "put_session 5 ?y ?n2"] io2 by (simp add: aborted_send_def)
  moreover have "TryDestroySession (Some 5) (set_io (put_session 5 ?y ?n2) ?h2) = Some (destroyed 5 (set_io (put_session 5 ?y ?n2) ?h2))"
    by (rule TryDestroySession_destroys [of _ _ ?y]) (simp_all add: destroyable_def closed_session_def)
  ultimately have t3: "worker_turn aborted_send ?h2 = Some (True, destroyed 5 (set_io (put_session 5 ?y ?n2) ?h2))" by simp
  then have "worker_turn cleanup_status (destroyed 5 (set_io (put_session 5 ?y ?n2) ?h2)) = None"
    using worker_turn_status [of cleanup_status 5] TryDestroySession_dead by (simp add: cleanup_status_def)
  then show ?thesis using w1 w2 t3
    by (intro exI [of _ ?h1] exI [of _ ?w2] exI [of _ "destroyed 5 (set_io (put_session 5 ?y ?n2) ?h2)"]) simp
qed

section \<open>Accepting\<close>

lemma accept_client_eq:
  assumes "sysResult (h_io h) (length (trace (h_io h)) + 1) = IoStarted"
  shows "accept_client k s junk h = Some (set_io
    ((if IsShuttingDown (h_io h) then h_io h else push_job (ConnectJob s) (h_io h))
      \<lparr>sessions := (sessions (h_io h))(s \<mapsto> (new_Session k junk)\<lparr>s_recvPosted := True, s_pendingIO := 1\<rparr>),
       trace := trace (h_io h) @ [AssociatePort k s, WSARecv s]\<rparr>)
    (h\<lparr>h_table := table_emplace k s (h_table h)\<rparr>))"
  using assms
  by (simp add: accept_client_def AddSession_def PostRecv_def new_Session_def syscall_result_def add_call_def
      put_session_def push_job_def EnqueueConnectJob_def IsShuttingDown_def set_io_def h_io_def on_io_def Let_def)

text \<open>Accepting a client registers it: its session is created open with one receive posted, entered in
  the table under its socket, associated with the completion port before the receive is posted,
  and its connect job is queued (unless the server is shutting down).\<close>

lemma accepted_client_is_registered:
  assumes "sessions (h_io h) s = None" and "sorted_wrt (<) (map fst (h_table h))" and "k \<notin> fst ` set (h_table h)"
    and "sysResult (h_io h) (length (trace (h_io h)) + 1) = IoStarted"
  shows "\<exists>h' x. accept_client k s junk h = Some h' \<and> set (h_table h') = insert (k, s) (set (h_table h)) \<and>
    sessions (h_io h') = (sessions (h_io h))(s \<mapsto> x) \<and> s_state x = Connected \<and> s_sock x = Some k \<and> s_recvPosted x \<and>
    s_pendingIO x = 1 \<and> trace (h_io h') = trace (h_io h) @ [AssociatePort k s, WSARecv s] \<and>
    jobQueue (h_io h') = jobQueue (h_io h) @ (if srvState (h_io h) = ShuttingDown then [] else [ConnectJob s])"
  using accept_client_eq [OF assms(4), of k s junk] table.add_new [OF assms(2,3), of s]
  by (auto simp: new_Session_def IsShuttingDown_def)

section \<open>Shutting down\<close>

text \<open>What \<open>GameServer::Shutdown\<close> does to a running server.\<close>

lemma shutdown_effect:
  assumes "srvState (h_io h) = Running" and "distinct (map snd (h_table h))"
    and "\<And>s. s \<in> snd ` set (h_table h) \<Longrightarrow> \<exists>x. sessions (h_io h) s = Some x \<and> session_ok x"
  defines "ss \<equiv> filter (\<lambda>s. is_open s (h_io h)) (map snd (h_table h))"
  shows "\<exists>h'. GameServer_Shutdown failed h = Some h' \<and> srvState (h_io h') = ShuttingDown \<and>
    trace (h_io h') = trace (h_io h) @
      concat (map (\<lambda>s. [WSASend s (packet_bytes 1000 []), CloseSocket (sock_of (h_io h) s)]) ss) @
      replicate (length (h_workers h)) (PostStatus None) \<and>
    jobQueue (h_io h') = jobQueue (h_io h) @ map DisconnectJob ss @ [ShutdownJob] \<and>
    (\<forall>s \<in> snd ` set (h_table h). \<exists>x. sessions (h_io h') s = Some x \<and> s_state x = Closed) \<and>
    (\<forall>s. s \<notin> snd ` set (h_table h) \<longrightarrow> sessions (h_io h') s = sessions (h_io h) s) \<and>
    GameServer_Shutdown failed h' = Some h'"
proof -
  let ?h1 = "set_srvState ShuttingDown h"
  have io1: "sessions (h_io ?h1) = sessions (h_io h)" "trace (h_io ?h1) = trace (h_io h)" "jobQueue (h_io ?h1) = jobQueue (h_io h)"
    "srvState (h_io ?h1) = ShuttingDown" "h_table ?h1 = h_table h" "h_workers ?h1 = h_workers h"
    by (simp_all add: set_srvState_def)
  have live: "\<And>s. s \<in> snd ` set (h_table h) \<Longrightarrow> \<exists>x. sessions (h_io ?h1) s = Some x \<and> session_ok x"
    using assms(3) by (simp only: io1)
  have same: "sock_of (h_io ?h1) = sock_of (h_io h)" "is_open s (h_io ?h1) = is_open s (h_io h)" for s
    by (simp_all add: sock_of_def is_open_def io1 fun_eq_iff)
  from shutdown_all [OF live assms(2)] obtain h2 where h2: "RequestShutdownAllSessions ?h1 = Some h2"
    "trace (h_io h2) = trace (h_io h) @ concat (map (\<lambda>s. [WSASend s shutdown_notice, CloseSocket (sock_of (h_io h) s)]) ss)"
    "jobQueue (h_io h2) = jobQueue (h_io h) @ map DisconnectJob ss"
    "srvState (h_io h2) = ShuttingDown" "h_workers h2 = h_workers h"
    "\<forall>s \<in> snd ` set (h_table h). \<exists>x. sessions (h_io h2) s = Some x \<and> s_state x = Closed"
    "\<forall>s. s \<notin> snd ` set (h_table h) \<longrightarrow> sessions (h_io h2) s = sessions (h_io h) s"
    unfolding RequestShutdownAllSessions_def io1 same ss_def by blast
  let ?h' = "snd (StopWorkerThreads failed (set_io (EnqueueShutdownJob (h_io h2)) h2))"
  have e: "GameServer_Shutdown failed h = Some ?h'"
    using assms(1) h2(1) by (simp add: GameServer_Shutdown_def)
  have h': "trace (h_io ?h') = trace (h_io h2) @ replicate (length (h_workers h)) (PostStatus None)"
    "jobQueue (h_io ?h') = jobQueue (h_io h2) @ [ShutdownJob]" "srvState (h_io ?h') = ShuttingDown"
    "sessions (h_io ?h') = sessions (h_io h2)"
    using h2(4,5) by (simp_all add: StopWorkerThreads_def post_exit_signals_eq EnqueueShutdownJob_def)
  have "GameServer_Shutdown failed ?h' = Some ?h'" using h'(3) by (simp add: GameServer_Shutdown_def)
  then show ?thesis
    using e h' h2(2,3,6,7) by (intro exI [of _ ?h']) (simp add: shutdown_notice_def)
qed

text \<open>C29: Shutdown is announced once and in order, whatever the network answers: the first call moves the
  server to ShuttingDown, sends every registered session that is still open the SHUTDOWN packet and
  closes its socket, in the order of the table, queues one disconnect job for each of these sessions
  and the shutdown job behind all of them, and posts one exit signal per worker. A registered session
  that is closed already gets nothing. Afterwards every registered session is closed, and a second
  call does nothing.\<close>

theorem shutdown_sequence:
  assumes "srvState (h_io h) = Running" and "distinct (map snd (h_table h))"
    and "\<And>s. s \<in> snd ` set (h_table h) \<Longrightarrow> \<exists>x. sessions (h_io h) s = Some x \<and> session_ok x"
  shows "\<exists>h'. let ss = filter (\<lambda>s. is_open s (h_io h)) (map snd (h_table h)) in
    GameServer_Shutdown failed h = Some h' \<and> srvState (h_io h') = ShuttingDown \<and>
    trace (h_io h') = trace (h_io h) @
      concat (map (\<lambda>s. [WSASend s (packet_bytes 1000 []), CloseSocket (sock_of (h_io h) s)]) ss) @
      replicate (length (h_workers h)) (PostStatus None) \<and>
    jobQueue (h_io h') = jobQueue (h_io h) @ map DisconnectJob ss @ [ShutdownJob] \<and>
    (\<forall>s \<in> snd ` set (h_table h). \<exists>x. sessions (h_io h') s = Some x \<and> s_state x = Closed) \<and>
    GameServer_Shutdown failed h' = Some h'"
  unfolding Let_def using shutdown_effect [OF assms, of failed] by blast

text \<open>A host with an open and a closed session, whose first send fails.\<close>

definition mixed_host :: host where
  "mixed_host = quiet_host\<lparr>h_world := arena\<lparr>net := (put_session 4 (closed_session demo_session) (net arena))
     \<lparr>sysResult := (\<lambda>_. IoFailed)\<rparr>\<rparr>, h_table := [(7, 3), (8, 4)]\<rparr>"

theorem shutdown_sequence_witness:
  "\<exists>h'. GameServer_Shutdown (\<lambda>_. False) mixed_host = Some h' \<and>
    jobQueue (h_io h') = [DisconnectJob 3, ShutdownJob] \<and>
    trace (h_io h') = [WSASend 3 (packet_bytes 1000 []), CloseSocket 7, PostStatus None, PostStatus None]"
proof -
  have io: "h_io mixed_host = (put_session 4 (closed_session demo_session) (net arena))\<lparr>sysResult := (\<lambda>_. IoFailed)\<rparr>"
    "h_table mixed_host = [(7, 3), (8, 4)]" "h_workers mixed_host = [1, 2]"
    by (simp_all add: mixed_host_def h_io_def)
  have s: "sessions (h_io mixed_host) 3 = Some demo_session" "sessions (h_io mixed_host) 4 = Some (closed_session demo_session)"
    unfolding io by simp_all
  have c: "session_ok (closed_session demo_session)" using closed_session_frame [of demo_session] by (simp add: session_frame_def)
  have op: "filter (\<lambda>s. is_open s (h_io mixed_host)) (map snd (h_table mixed_host)) = [3]" "sock_of (h_io mixed_host) 3 = 7"
    using s by (simp_all add: io(2) is_open_def closed_session_def sock_of_def)
  have "srvState (h_io mixed_host) = Running" "distinct (map snd (h_table mixed_host))"
    "\<And>s. s \<in> snd ` set (h_table mixed_host) \<Longrightarrow> \<exists>x. sessions (h_io mixed_host) s = Some x \<and> session_ok x"
    using s c by (auto simp: io)
  from shutdown_sequence [OF this, of "\<lambda>_. False", unfolded Let_def op] show ?thesis
    by (auto simp: io op(2) [unfolded io])
qed

text \<open>Every worker is waited for: as long as no wait fails, \<open>StopWorkerThreads\<close> waits for each thread
  handle exactly once and in order, in calls of at least one and at most 64 handles, the limit of
  \<open>WaitForMultipleObjects\<close>.\<close>

lemma every_worker_is_waited_for:
  "concat (fst (StopWorkerThreads (\<lambda>_. False) h)) = h_workers h \<and>
    list_all (\<lambda>c. 0 < length c \<and> length c \<le> 64) (fst (StopWorkerThreads failed h))"
  using wait_chunks_concat [OF refl, of "h_workers h" 0] wait_chunks_sizes [of _ failed "h_workers h" 0]
  by (simp add: StopWorkerThreads_def list_all_iff)

end
