(* ===== verification/System.thy ===== *)
theory System
  imports Network_Facts State_Machine
begin

text \<open>
  The whole server as a transition system. The threads interleave at the granularity of one
  accepted client, one dequeued completion, one job of the game thread and one console
  event; any order of these steps is a run. \<open>y_done s\<close> counts the completions of session
  \<open>s\<close> that were dequeued, \<open>y_statuses s\<close> the posted statuses that were: a completion can arrive
  only for an operation that was started and has not completed, a status only once per post.

  \<open>sys_exec\<close> is \<open>None\<close> when the step uses freed memory. \<open>host_ok\<close> is the invariant of every
  reachable state.
\<close>

section \<open>States and steps\<close>

record sys =
  y_host :: host
  y_done :: "sid \<Rightarrow> nat"
  y_statuses :: "sid \<Rightarrow> nat"

datatype event =
    EvAccept nat sid bytes
  | EvComplete sid IoType u32 bool bytes
  | EvStatus sid
  | EvGame env
  | EvConsole "nat \<Rightarrow> bool" ctrl_event

definition fill_buffer :: "sid \<Rightarrow> bytes \<Rightarrow> io \<Rightarrow> io" where
  "fill_buffer s d n = n\<lparr>sessions := (sessions n)(s := map_option (\<lambda>x. x\<lparr>s_recvBuf := d\<rparr>) (sessions n s))\<rparr>"

text \<open>
  What the operating system and the allocator guarantee of an event. A client may still come out of
  \<open>accept\<close> after the server was told to stop.
\<close>

fun enabled :: "event \<Rightarrow> sys \<Rightarrow> bool" where
  "enabled (EvAccept sock s junk) y \<longleftrightarrow> sessions (h_io (y_host y)) s = None \<and> length junk = 8192"
| "enabled (EvComplete s ty n ret d) y \<longleftrightarrow> y_done y s < started s (h_io (y_host y)) \<and> unat n \<le> BUFFER_SIZE \<and> length d = BUFFER_SIZE"
| "enabled (EvStatus s) y \<longleftrightarrow> y_statuses y s < count_list (trace (h_io (y_host y))) (PostStatus (Some s))"
| "enabled (EvGame e) y \<longleftrightarrow> running (gs (h_world (y_host y))) \<and> pheap (gs (h_world (y_host y))) (e_addr e) = None"
| "enabled (EvConsole failed ev) y \<longleftrightarrow> True"

definition step_worker :: "completion \<Rightarrow> host \<Rightarrow> host option" where
  "step_worker c h = map_option snd (worker_turn c h)"

text \<open>The kernel writes the received bytes into the context's array before the completion.\<close>

fun sys_exec :: "event \<Rightarrow> sys \<Rightarrow> sys option" where
  "sys_exec (EvAccept sock s junk) y =
     map_option (\<lambda>h. y\<lparr>y_host := h\<rparr>) (accept_client sock s junk (y_host y))"
| "sys_exec (EvComplete s ty n ret d) y =
     (let h0 = (if ty = Recv then set_io (fill_buffer s d (h_io (y_host y))) (y_host y) else y_host y) in
      map_option (\<lambda>h. y\<lparr>y_host := h, y_done := (y_done y)(s := y_done y s + 1)\<rparr>)
        (step_worker \<lparr>c_key = Some s, c_overlapped = Some ty, c_bytes = n, c_ret = ret\<rparr> h0))"
| "sys_exec (EvStatus s) y =
     map_option (\<lambda>h. y\<lparr>y_host := h, y_statuses := (y_statuses y)(s := y_statuses y s + 1)\<rparr>)
       (step_worker \<lparr>c_key = Some s, c_overlapped = None, c_bytes = 0, c_ret = True\<rparr> (y_host y))"
| "sys_exec (EvGame e) y =
     map_option (\<lambda>w. y\<lparr>y_host := (y_host y)\<lparr>h_world := w\<rparr>\<rparr>) (game_iter e (h_world (y_host y)))"
| "sys_exec (EvConsole failed ev) y =
     map_option (\<lambda>r. y\<lparr>y_host := snd r\<rparr>) (ConsoleHandler failed ev (y_host y))"

definition sys_init :: "(nat \<Rightarrow> io_result) \<Rightarrow> nat list \<Rightarrow> sys" where
  "sys_init res workers = \<lparr>y_host = \<lparr>h_world = boot res, h_table = [], h_workers = workers, h_running = True,
     h_listen = Some 1\<rparr>, y_done = (\<lambda>_. 0), y_statuses = (\<lambda>_. 0)\<rparr>"

inductive sys_step :: "sys \<Rightarrow> sys \<Rightarrow> bool" where
  "enabled ev y \<Longrightarrow> sys_exec ev y = Some y' \<Longrightarrow> sys_step y y'"

inductive sys_reach :: "sys \<Rightarrow> bool" where
  init: "sys_reach (sys_init res workers)"
| step: "sys_reach y \<Longrightarrow> sys_step y y' \<Longrightarrow> sys_reach y'"

inductive_cases sys_stepE: "sys_step y y'"

section \<open>The life of a session in the queue\<close>

definition life :: "sid \<Rightarrow> GameJob list \<Rightarrow> GameJob list" where
  "life s q = filter (\<lambda>j. j = ConnectJob s \<or> j = DisconnectJob s) q"

lemma life_simps [simp]: "life s [] = []" "life s (p @ q) = life s p @ life s q"
  "life s (j # q) = (if j = ConnectJob s \<or> j = DisconnectJob s then j # life s q else life s q)"
  by (simp_all add: life_def)

lemma life_session_jobs:
  "list_all session_job js \<Longrightarrow> life s js = replicate (count_list js (DisconnectJob s)) (DisconnectJob s)"
proof (induction js)
  case (Cons j js)
  then show ?case by (cases j) auto
qed simp

lemma life_close_jobs:
  assumes "close_jobs n n' js"
  shows "life s js = (if is_open s n \<and> \<not> is_open s n' then [DisconnectJob s] else [])"
  using assms life_session_jobs [of js s] by (auto simp: close_jobs_def)

text \<open>
  Before its connect job ran a session has it in the queue, once; a closed session that was not
  cleaned up has exactly one disconnect job behind it; a cleaned or freed one has neither.
\<close>

definition life_ok :: "io \<Rightarrow> game \<Rightarrow> sid \<Rightarrow> bool" where
  "life_ok n g s \<longleftrightarrow> (case sessions n s of
     None \<Rightarrow> life s (jobQueue n) = []
   | Some x \<Rightarrow>
       if s_gameCleanupDone x then life s (jobQueue n) = [] \<and> s_state x \<noteq> Connected
       else (\<exists>c. (c = [] \<or> c = [ConnectJob s] \<and> players g s = None) \<and>
         life s (jobQueue n) = c @ (if s_state x = Connected then [] else [DisconnectJob s])))"

lemma life_ok_None [simp]: "sessions n s = None \<Longrightarrow> life_ok n g s \<longleftrightarrow> life s (jobQueue n) = []"
  and life_ok_Some: "sessions n s = Some x \<Longrightarrow> life_ok n g s \<longleftrightarrow>
    (if s_gameCleanupDone x then life s (jobQueue n) = [] \<and> s_state x \<noteq> Connected
     else (\<exists>c. (c = [] \<or> c = [ConnectJob s] \<and> players g s = None) \<and>
       life s (jobQueue n) = c @ (if s_state x = Connected then [] else [DisconnectJob s])))"
  by (simp_all add: life_ok_def)

lemma life_ok_cong:
  "sessions n' s = sessions n s \<Longrightarrow> life s (jobQueue n') = life s (jobQueue n) \<Longrightarrow> players g' s = players g s \<Longrightarrow>
    life_ok n' g' s = life_ok n g s"
  by (simp add: life_ok_def cong: option.case_cong)

lemma life_ok_effect:
  assumes l: "life_ok n g s" and e: "io_effect t d n n'" and p: "players g' s = players g s"
  shows "life_ok n' g' s"
proof -
  obtain js where js: "jobQueue n' = jobQueue n @ js" "close_jobs n n' js" using io_effectD(2) [OF e] by blast
  note lj = life_close_jobs [OF js(2), of s]
  show ?thesis
  proof (cases "sessions n s")
    case None
    then have n': "sessions n' s = None" using io_effectD(1) [OF e, of s] by simp
    have "life s (jobQueue n') = []" using None l lj js(1) by (simp add: is_open_def)
    with n' show ?thesis by simp
  next
    case (Some x)
    obtain x' where x': "sessions n' s = Some x'" "s_gameCleanupDone x' = s_gameCleanupDone x"
      "s_state x \<noteq> Connected \<longrightarrow> s_state x' \<noteq> Connected"
      using io_effect_session [OF e Some] by blast
    have "life s (jobQueue n') = life s (jobQueue n) @ (if s_state x = Connected \<and> s_state x' \<noteq> Connected then [DisconnectJob s] else [])"
      using lj js(1) is_open_session [OF Some] is_open_session [OF x'(1)] by simp
    with l x' p show ?thesis unfolding life_ok_Some [OF Some] life_ok_Some [OF x'(1)] by (auto split: if_splits)
  qed
qed

section \<open>The invariant\<close>

text \<open>
  The pending counter is a 32-bit word: it is the number of operations in flight modulo \<open>2^32\<close>,
  and a session can be freed when that is zero.
\<close>

definition balance_ok :: "io \<Rightarrow> (sid \<Rightarrow> nat) \<Rightarrow> sid \<Rightarrow> bool" where
  "balance_ok n fin s \<longleftrightarrow> (case sessions n s of
     None \<Rightarrow> (of_nat (fin s) :: i32) = of_nat (started s n) \<and> fin s \<le> started s n
   | Some x \<Rightarrow> s_pendingIO x = of_nat (started s n) - of_nat (fin s) \<and> fin s \<le> started s n \<and> \<not> s_destroying x)"

lemma balance_ok_cong:
  "sessions n' s = sessions n s \<Longrightarrow> started s n' = started s n \<Longrightarrow> balance_ok n' fin s = balance_ok n fin s"
  by (simp add: balance_ok_def cong: option.case_cong)

definition table_ok :: "session_table \<Rightarrow> io \<Rightarrow> bool" where
  "table_ok t n \<longleftrightarrow> sorted_wrt (<) (map fst t) \<and> distinct (map snd t) \<and> (\<forall>s \<in> snd ` set t. sessions n s \<noteq> None)"

definition queue_ok :: "GameJob list \<Rightarrow> bool" where
  "queue_ok q \<longleftrightarrow> (\<forall>s h b. PacketJob s h b \<in> set q \<longrightarrow> packet_ok \<lparr>header = h, body = b\<rparr> \<and> IsKnownPacketId (h_id h))"

definition host_ok :: "host \<Rightarrow> (sid \<Rightarrow> nat) \<Rightarrow> bool" where
  "host_ok h fin \<longleftrightarrow> world_ok (h_world h) \<and> states_ok (gs (h_world h)) \<and> g_FSM (gs (h_world h)) = InitFSM empty_FSM \<and>
     (\<forall>s. life_ok (h_io h) (gs (h_world h)) s) \<and> (\<forall>s. balance_ok (h_io h) fin s) \<and>
     table_ok (h_table h) (h_io h) \<and> queue_ok (jobQueue (h_io h))"

lemma host_okI:
  assumes "world_ok (h_world h)" and "states_ok (gs (h_world h))" and "g_FSM (gs (h_world h)) = InitFSM empty_FSM"
    and "\<And>s. life_ok (h_io h) (gs (h_world h)) s" and "\<And>s. balance_ok (h_io h) fin s"
    and "table_ok (h_table h) (h_io h)" and "queue_ok (jobQueue (h_io h))"
  shows "host_ok h fin"
  unfolding host_ok_def using assms by blast

lemma host_okD:
  assumes "host_ok h fin"
  shows "world_ok (h_world h)" and "states_ok (gs (h_world h))" and "g_FSM (gs (h_world h)) = InitFSM empty_FSM"
    and "life_ok (h_io h) (gs (h_world h)) s" and "balance_ok (h_io h) fin s"
    and "table_ok (h_table h) (h_io h)" and "queue_ok (jobQueue (h_io h))"
  using assms unfolding host_ok_def by blast+

lemma queue_ok_append: "queue_ok q \<Longrightarrow> list_all session_job js \<Longrightarrow> queue_ok (q @ js)"
  by (auto simp: queue_ok_def list_all_iff packet_ok_def IsValid_iff)

lemma world_ok_effect:
  assumes ok: "world_ok w" and e: "io_effect s d (net w) n"
  shows "world_ok (w\<lparr>net := n\<rparr>)"
proof -
  have "session_ok x' \<and> framed x'" if x': "sessions n t = Some x'" for t x'
  proof -
    obtain x where x: "sessions (net w) t = Some x" using io_effectD(1) [OF e, of t] x' by fastforce
    have "session_ok x" "framed x" using net_okD(1,2) [OF world_okD(2) [OF ok] x] by blast+
    with io_effect_session [OF e x] x' show ?thesis by auto
  qed
  moreover have "\<exists>x'. sessions n (p_session p) = Some x' \<and> \<not> s_gameCleanupDone x'" if h: "pheap (gs w) a = Some p" for a p
  proof -
    obtain x where x: "sessions (net w) (p_session p) = Some x" "\<not> s_gameCleanupDone x"
      using net_okD(3) [OF world_okD(2) [OF ok] h] by blast
    with io_effect_session [OF e x(1)] show ?thesis by auto
  qed
  ultimately show ?thesis using world_okD(1) [OF ok] by (simp add: world_ok_def net_ok_def)
qed

lemma table_ok_effect: "table_ok t n \<Longrightarrow> io_effect s d n n' \<Longrightarrow> table_ok t n'"
  unfolding table_ok_def using io_effectD(1) by blast

lemma queue_ok_effect:
  assumes "queue_ok (jobQueue n)" and "io_effect s d n n'"
  shows "queue_ok (jobQueue n')"
proof -
  obtain js where "jobQueue n' = jobQueue n @ js" "close_jobs n n' js" using io_effectD(2) [OF assms(2)] by blast
  then show ?thesis using queue_ok_append [OF assms(1)] close_jobsD by simp
qed

lemma started_mono:
  assumes "\<exists>cs. trace n' = trace n @ cs" and "sysResult n' = sysResult n"
  shows "started s n \<le> started s n'"
proof -
  obtain cs where cs: "trace n' = trace n @ cs" using assms(1) by blast
  have "filter (\<lambda>i. io_of s (trace n' ! i) \<and> sysResult n' i = IoStarted) [0..<length (trace n)] =
      filter (\<lambda>i. io_of s (trace n ! i) \<and> sysResult n i = IoStarted) [0..<length (trace n)]"
    by (rule filter_cong) (auto simp: cs assms(2) nth_append)
  moreover have "[0..<length (trace n')] = [0..<length (trace n)] @ [length (trace n)..<length (trace n')]"
    using upt_add_eq_append [of 0 "length (trace n)" "length cs"] by (simp add: cs)
  ultimately show ?thesis unfolding started_def by simp
qed

lemma counter_shift:
  fixes p :: i32
  assumes "p = b - f" and "p' - b' = p - b + e" and "f' = f - e"
  shows "p' = b' - f'"
proof -
  have "p' = (p' - b') + b'" by simp
  also have "\<dots> = b' - f'" unfolding assms by simp
  finally show ?thesis .
qed

lemma balance_ok_effect:
  assumes b: "balance_ok n fin t" and e: "io_effect s d n n'"
    and d': "(of_nat (fin' t) :: i32) = of_nat (fin t) - (if t = s then d else 0)" and le: "fin' t \<le> started t n"
    and live: "sessions n s \<noteq> None \<or> d = 0"
  shows "balance_ok n' fin' t"
proof (cases "sessions n t")
  case None
  then have n': "sessions n' t = None" "started t n' = started t n" using io_effectD(1,6) [OF e, of t] by simp_all
  moreover have "(of_nat (fin' t) :: i32) = of_nat (fin t)" using d' live None by (cases "t = s") auto
  ultimately show ?thesis using b None le by (simp add: balance_ok_def)
next
  case (Some x)
  obtain x' where x': "sessions n' t = Some x'" "s_destroying x' = s_destroying x"
    "s_pendingIO x' - of_nat (started t n') = s_pendingIO x - of_nat (started t n) + (if t = s then d else 0)"
    using io_effect_session [OF e Some] by blast
  have "started t n \<le> started t n'" using started_mono io_effectD(3,4) [OF e] by blast
  moreover have "s_pendingIO x = of_nat (started t n) - of_nat (fin t) \<and> \<not> s_destroying x" using b Some by (simp add: balance_ok_def)
  moreover from this have "s_pendingIO x' = of_nat (started t n') - of_nat (fin' t)"
    using counter_shift [OF _ x'(3) d'] by blast
  ultimately show ?thesis using x' le by (simp add: balance_ok_def)
qed

text \<open>The invariant is kept by everything that obeys the effect contract.\<close>

lemma host_ok_effect:
  assumes ok: "host_ok h fin" and e: "io_effect s d (h_io h) n"
    and d': "\<And>t. (of_nat (fin' t) :: i32) = of_nat (fin t) - (if t = s then d else 0)" "\<And>t. fin' t \<le> started t (h_io h)"
    and live: "sessions (h_io h) s \<noteq> None \<or> d = 0"
  shows "host_ok (set_io n h) fin'"
proof (rule host_okI)
  have e': "io_effect s d (net (h_world h)) n" using e by (simp add: h_io_def)
  have w: "h_world (set_io n h) = (h_world h)\<lparr>net := n\<rparr>" by (simp add: set_io_def)
  show "world_ok (h_world (set_io n h))" unfolding w using world_ok_effect [OF host_okD(1) [OF ok] e'] .
  show "states_ok (gs (h_world (set_io n h)))" "g_FSM (gs (h_world (set_io n h))) = InitFSM empty_FSM"
    using host_okD(2,3) [OF ok] by simp_all
  show "life_ok (h_io (set_io n h)) (gs (h_world (set_io n h))) t" for t
    using life_ok_effect [OF host_okD(4) [OF ok] e] by simp
  show "balance_ok (h_io (set_io n h)) fin' t" for t
    using balance_ok_effect [OF host_okD(5) [OF ok, of t] e, of fin'] d' live by simp
  show "table_ok (h_table (set_io n h)) (h_io (set_io n h))"
    using table_ok_effect [OF host_okD(6) [OF ok] e] by simp
  show "queue_ok (jobQueue (h_io (set_io n h)))"
    using queue_ok_effect [OF host_okD(7) [OF ok] e] by simp
qed

lemma balance_le: "balance_ok n fin s \<Longrightarrow> fin s \<le> started s n"
  by (auto simp: balance_ok_def split: option.splits)

lemma host_ok_frame:
  assumes ok: "host_ok h fin" and f: "io_frame (h_io h) n"
  shows "host_ok (set_io n h) fin"
  using host_ok_effect [OF ok io_frame_effect [OF f], of fin] balance_le [OF host_okD(5) [OF ok]] by simp

section \<open>Destroying a session\<close>

lemma TryDestroySession_ok:
  assumes ok: "host_ok h fin" and x: "sessions (h_io h) s = Some x"
  shows "\<exists>h'. TryDestroySession (Some s) h = Some h' \<and> host_ok h' fin"
proof (cases "destroyable x")
  case False
  have "s_destroying x = False" using host_okD(5) [OF ok, of s] x by (simp add: balance_ok_def)
  then show ?thesis using TryDestroySession_keeps [OF x False] ok by blast
next
  case True
  let ?h = "destroyed s h"
  have d: "s_gameCleanupDone x" "s_pendingIO x = 0" "s_state x \<noteq> Connected" using True by (simp_all add: destroyable_def)
  have st: "started t (h_io ?h) = started t (h_io h)" for t by (rule started_cong) simp_all
  have other: "sessions (h_io ?h) t = sessions (h_io h) t" if "t \<noteq> s" for t using that by simp
  have "host_ok ?h fin"
  proof (rule host_okI)
    note n = net_okD [OF world_okD(2) [OF host_okD(1) [OF ok]]]
    have ne: "p_session p \<noteq> s" if "pheap (gs (h_world h)) a = Some p" for a p
      using n(3) [OF that] x d(1) by (auto simp: h_io_def)
    have "net_ok (h_world ?h)"
      unfolding net_ok_def
    proof (intro conjI allI impI)
      fix t y assume "sessions (net (h_world ?h)) t = Some y"
      then have "sessions (net (h_world h)) t = Some y" using destroyed_fields(1) [of s h] by (simp add: h_io_def split: if_splits)
      then show "session_ok y" "framed y" using n(1,2) by blast+
    next
      fix a p assume "pheap (gs (h_world ?h)) a = Some p"
      then have "pheap (gs (h_world h)) a = Some p" by simp
      with n(3) [OF this] ne [OF this] show "\<exists>y. sessions (net (h_world ?h)) (p_session p) = Some y \<and> \<not> s_gameCleanupDone y"
        using destroyed_fields(1) [of s h] by (simp add: h_io_def)
    qed
    then show "world_ok (h_world ?h)" using world_okD(1) [OF host_okD(1) [OF ok]] by (simp add: world_ok_def)
    show "states_ok (gs (h_world ?h))" "g_FSM (gs (h_world ?h)) = InitFSM empty_FSM"
      using host_okD(2,3) [OF ok] by simp_all
    have "life s (jobQueue (h_io h)) = []" using host_okD(4) [OF ok, of s] life_ok_Some [OF x] d(1) by auto
    then show "life_ok (h_io ?h) (gs (h_world ?h)) t" for t
      using host_okD(4) [OF ok, of t] life_ok_cong [of "h_io ?h" t "h_io h"] by (cases "t = s") simp_all
    show "balance_ok (h_io ?h) fin t" for t
      using host_okD(5) [OF ok, of t] x d(2) st [of t] by (cases "t = s") (simp_all add: balance_ok_def cong: option.case_cong)
    have t: "sorted_wrt (<) (map fst (h_table h))" "distinct (map snd (h_table h))"
      "\<forall>u \<in> snd ` set (h_table h). sessions (h_io h) u \<noteq> None"
      using host_okD(6) [OF ok] unfolding table_ok_def by blast+
    show "table_ok (h_table ?h) (h_io ?h)"
      using t(3) table_remove_sorted [OF t(1), of s] table_remove_distinct [OF t(2), of s] table_remove_set [OF t(2), of s]
      by (simp add: table_ok_def)
    show "queue_ok (jobQueue (h_io ?h))" using host_okD(7) [OF ok] by simp
  qed
  then show ?thesis using TryDestroySession_destroys [OF x True] by blast
qed

end
