(* ===== verification/System_Facts.thy ===== *)
theory System_Facts
  imports System
begin

text \<open>
  Each event keeps the invariant \<open>host_ok\<close>, and the two events that can use freed memory do so
  exactly in the states described here.
\<close>

section \<open>A client is accepted\<close>

definition accepted :: "nat \<Rightarrow> sid \<Rightarrow> bytes \<Rightarrow> host \<Rightarrow> host" where
  "accepted sock s junk h = set_io (add_call (AssociatePort sock s)
     (EnqueueConnectJob s (put_session s (new_Session sock junk) (h_io h)))) (h\<lparr>h_table := table_emplace sock s (h_table h)\<rparr>)"

lemma accepted_fields:
  "sessions (h_io (accepted sock s junk h)) = (sessions (h_io h))(s \<mapsto> new_Session sock junk)"
  "jobQueue (h_io (accepted sock s junk h)) = jobQueue (h_io h) @ (if IsShuttingDown (h_io h) then [] else [ConnectJob s])"
  "gs (h_world (accepted sock s junk h)) = gs (h_world h)"
  "h_table (accepted sock s junk h) = table_emplace sock s (h_table h)"
  "started t (h_io (accepted sock s junk h)) = started t (h_io h)"
  by (simp_all add: accepted_def EnqueueConnectJob_def IsShuttingDown_def)

lemma accept_client_accepted: "accept_client sock s junk h = on_io (PostRecv s) (accepted sock s junk h)"
  by (simp add: accept_client_def AddSession_def accepted_def new_Session_def set_io_def h_io_def Let_def)

lemma table_emplace_sessions: "distinct (map snd t) \<Longrightarrow> s \<notin> snd ` set t \<Longrightarrow> distinct (map snd (table_emplace k s t))"
  by (induction k s t rule: table_emplace.induct) (auto dest!: table_emplace_keys)

lemma accepted_ok:
  assumes ok: "host_ok h fin" and s: "sessions (h_io h) s = None" and junk: "length junk = 8192"
  shows "host_ok (accepted sock s junk h) fin"
proof (rule host_okI)
  let ?h = "accepted sock s junk h" and ?x = "new_Session sock junk"
  note w = host_okD(1) [OF ok] and n = net_okD [OF world_okD(2) [OF host_okD(1) [OF ok]]]
  note new = new_Session_ok [OF junk, of sock] new_Session_framed [of sock junk]
  have "net_ok (h_world ?h)"
    unfolding net_ok_def
  proof (intro conjI allI impI)
    fix t y assume "sessions (net (h_world ?h)) t = Some y"
    then have "y = ?x \<or> sessions (net (h_world h)) t = Some y"
      using accepted_fields(1) [of sock s junk h] by (simp add: h_io_def split: if_splits)
    then show "session_ok y" "framed y" using n(1,2) new by blast+
  next
    fix a p assume "pheap (gs (h_world ?h)) a = Some p"
    then have "pheap (gs (h_world h)) a = Some p" by (simp add: accepted_fields)
    from n(3) [OF this] s show "\<exists>y. sessions (net (h_world ?h)) (p_session p) = Some y \<and> \<not> s_gameCleanupDone y"
      using accepted_fields(1) [of sock s junk h] by (auto simp: h_io_def)
  qed
  then show "world_ok (h_world ?h)" using world_okD(1) [OF w] by (simp add: world_ok_def accepted_fields)
  show "states_ok (gs (h_world ?h))" "g_FSM (gs (h_world ?h)) = InitFSM empty_FSM"
    using host_okD(2,3) [OF ok] by (simp_all add: accepted_fields)
  have p: "players (gs (h_world h)) s = None"
    using world_okD(4,5) [OF w, of s] s by (cases "players (gs (h_world h)) s") (auto simp: h_io_def)
  show "life_ok (h_io ?h) (gs (h_world ?h)) t" for t
  proof (cases "t = s")
    case True
    have "life s (jobQueue (h_io h)) = []" using host_okD(4) [OF ok, of s] s by simp
    then have "life s (jobQueue (h_io ?h)) = [] \<or> life s (jobQueue (h_io ?h)) = [ConnectJob s]"
      by (simp add: accepted_fields)
    moreover have "sessions (h_io ?h) s = Some ?x" by (simp add: accepted_fields)
    ultimately show ?thesis using True p by (auto simp: life_ok_Some new_Session_def accepted_fields(3))
  next
    case False
    with host_okD(4) [OF ok, of t] life_ok_cong [of "h_io ?h" t "h_io h"] show ?thesis by (auto simp: accepted_fields)
  qed
  show "balance_ok (h_io ?h) fin t" for t
    using host_okD(5) [OF ok, of t] s by (cases "t = s")
      (simp_all add: balance_ok_def accepted_fields new_Session_def cong: option.case_cong)
  have t: "sorted_wrt (<) (map fst (h_table h))" "distinct (map snd (h_table h))"
    "\<forall>u \<in> snd ` set (h_table h). sessions (h_io h) u \<noteq> None"
    using host_okD(6) [OF ok] unfolding table_ok_def by blast+
  have "s \<notin> snd ` set (h_table h)" using t(3) s by blast
  with t show "table_ok (h_table ?h) (h_io ?h)"
    using table_emplace_sorted [OF t(1)] table_emplace_sessions [OF t(2)]
    by (auto simp: table_ok_def accepted_fields dest!: table_emplace_keys)
  show "queue_ok (jobQueue (h_io ?h))" using host_okD(7) [OF ok] by (auto simp: queue_ok_def accepted_fields)
qed

lemma accept_client_ok:
  assumes ok: "host_ok h fin" and s: "sessions (h_io h) s = None" and junk: "length junk = 8192"
  shows "\<exists>h'. accept_client sock s junk h = Some h' \<and> host_ok h' fin"
proof -
  have "sessions (h_io (accepted sock s junk h)) s = Some (new_Session sock junk)" by (simp add: accepted_fields)
  from PostRecv_frame [OF this new_Session_ok [OF junk]] obtain n
    where n: "PostRecv s (h_io (accepted sock s junk h)) = Some n" "io_frame (h_io (accepted sock s junk h)) n" by blast
  from host_ok_frame [OF accepted_ok [OF assms] n(2)] n(1) show ?thesis by (auto simp: accept_client_accepted)
qed

section \<open>A completion arrives\<close>

lemma fill_buffer_effect:
  assumes "length d = BUFFER_SIZE"
  shows "io_effect s 0 n (fill_buffer s d n)"
proof -
  have "started t (fill_buffer s d n) = started t n" for t by (rule started_cong) (simp_all add: fill_buffer_def)
  moreover have "is_open t (fill_buffer s d n) = is_open t n" for t by (auto simp: is_open_def fill_buffer_def)
  then have "close_jobs n (fill_buffer s d n) []" by (simp add: close_jobs_Nil)
  moreover have "srvState (fill_buffer s d n) = srvState n" "sysResult (fill_buffer s d n) = sysResult n"
    "jobQueue (fill_buffer s d n) = jobQueue n" "trace (fill_buffer s d n) = trace n"
    by (simp_all add: fill_buffer_def)
  ultimately show ?thesis
    using assms by (simp add: io_effect_def) (auto simp: fill_buffer_def session_ok_def framed_def)
qed

lemma send_entry_effect:
  "sessions w s = Some x \<Longrightarrow> io_effect s (- 1) w (put_session s (x\<lparr>s_pendingIO := s_pendingIO x - 1\<rparr>) w)"
  by (auto simp: io_effect_def framed_def is_open_same simp del: is_open_simps(1) intro!: close_jobs_Nil)

definition finish :: "sid \<Rightarrow> (sid \<Rightarrow> nat) \<Rightarrow> sid \<Rightarrow> nat" where
  "finish s fin = fin(s := fin s + 1)"

lemma host_live:
  assumes "host_ok h fin" and "sessions (h_io h) s = Some x"
  shows "session_ok x" and "framed x"
  using net_okD(1,2) [OF world_okD(2) [OF host_okD(1) [OF assms(1)]]] assms(2) by (simp_all add: h_io_def)

lemma host_ok_complete:
  assumes ok: "host_ok h fin" and lt: "fin s < started s (h_io h)" and e: "io_effect s (- 1) (h_io h) n"
    and x: "sessions (h_io h) s = Some x"
  shows "host_ok (set_io n h) (finish s fin)"
proof (rule host_ok_effect [OF ok e])
  show "finish s fin t \<le> started t (h_io h)" for t
    using balance_le [OF host_okD(5) [OF ok], of t] lt by (simp add: finish_def)
  show "sessions (h_io h) s \<noteq> None \<or> (- 1 :: i32) = 0" using x by simp
qed (simp add: finish_def)

lemma recv_complete_ok:
  assumes ok: "host_ok h fin" and lt: "fin s < started s (h_io h)" and n: "unat n \<le> BUFFER_SIZE"
    and x: "sessions (h_io h) s = Some x"
  shows "\<exists>h'. step_worker \<lparr>c_key = Some s, c_overlapped = Some Recv, c_bytes = n, c_ret = ret\<rparr> h = Some h' \<and>
    host_ok h' (finish s fin)"
proof -
  obtain m where m: "OnRecvComplete s n ret (h_io h) = Some m" "io_effect s (- 1) (h_io h) m"
    using OnRecvComplete_total [OF x host_live [OF ok x] n] by blast
  have "sessions (h_io (set_io m h)) s \<noteq> None" using io_effectD(1) [OF m(2), of s] x by simp
  then obtain h' where "TryDestroySession (Some s) (set_io m h) = Some h'" "host_ok h' (finish s fin)"
    using TryDestroySession_ok [OF host_ok_complete [OF ok lt m(2) x]] by blast
  with m(1) show ?thesis by (simp add: step_worker_def worker_turn_recv)
qed

lemma send_complete_ok:
  assumes ok: "host_ok h fin" and lt: "fin s < started s (h_io h)" and x: "sessions (h_io h) s = Some x"
  shows "\<exists>h'. step_worker \<lparr>c_key = Some s, c_overlapped = Some Send, c_bytes = n, c_ret = ret\<rparr> h = Some h' \<and>
    host_ok h' (finish s fin)"
proof -
  obtain m where m: "OnSendComplete s n ret (h_io h) = Some m"
    "io_frame (put_session s (x\<lparr>s_pendingIO := s_pendingIO x - 1\<rparr>) (h_io h)) m"
    using OnSendComplete_total [OF x host_live(1) [OF ok x]] by blast
  have e: "io_effect s (- 1) (h_io h) m"
    using io_effect_trans [OF send_entry_effect [OF x] io_frame_effect [OF m(2)]] by simp
  have "sessions (h_io (set_io m h)) s \<noteq> None" using io_effectD(1) [OF e, of s] x by simp
  then obtain h' where "TryDestroySession (Some s) (set_io m h) = Some h'" "host_ok h' (finish s fin)"
    using TryDestroySession_ok [OF host_ok_complete [OF ok lt e x]] by blast
  with m(1) show ?thesis by (simp add: step_worker_def worker_turn_send)
qed

lemma host_ok_fill:
  assumes ok: "host_ok h fin" and d: "length d = BUFFER_SIZE"
  shows "host_ok (set_io (fill_buffer s d (h_io h)) h) fin"
  using host_ok_effect [OF ok fill_buffer_effect [OF d], of fin] balance_le [OF host_okD(5) [OF ok]] by simp

lemma started_fill [simp]: "started t (fill_buffer s d n) = started t n"
  by (rule started_cong) (simp_all add: fill_buffer_def)

lemma complete_ok:
  assumes ok: "host_ok h fin" and lt: "fin s < started s (h_io h)" and n: "unat n \<le> BUFFER_SIZE"
    and d: "length d = BUFFER_SIZE" and x: "sessions (h_io h) s = Some x"
  shows "\<exists>h'. step_worker \<lparr>c_key = Some s, c_overlapped = Some ty, c_bytes = n, c_ret = ret\<rparr>
      (if ty = Recv then set_io (fill_buffer s d (h_io h)) h else h) = Some h' \<and> host_ok h' (finish s fin)"
proof (cases ty)
  case Recv
  let ?h = "set_io (fill_buffer s d (h_io h)) h"
  have l: "fin s < started s (h_io ?h)" using lt by simp
  have "sessions (h_io ?h) s = Some (x\<lparr>s_recvBuf := d\<rparr>)" using x by (simp add: fill_buffer_def)
  from recv_complete_ok [OF host_ok_fill [OF ok d] l n this] Recv show ?thesis by simp
next
  case Send
  with send_complete_ok [OF ok lt x] show ?thesis by simp
qed

text \<open>A completion for freed memory, which only a counter that has wrapped lets happen.\<close>

lemma complete_freed:
  assumes "sessions (h_io h) s = None"
  shows "step_worker \<lparr>c_key = Some s, c_overlapped = Some ty, c_bytes = n, c_ret = ret\<rparr>
      (if ty = Recv then set_io (fill_buffer s d (h_io h)) h else h) = None"
  using assms by (cases ty)
    (simp_all add: step_worker_def worker_turn_def on_io_def OnRecvComplete_def OnSendComplete_def fill_buffer_def)

lemma status_ok:
  assumes ok: "host_ok h fin"
  shows "(step_worker \<lparr>c_key = Some s, c_overlapped = None, c_bytes = 0, c_ret = True\<rparr> h = None \<longleftrightarrow> sessions (h_io h) s = None) \<and>
    (\<forall>h'. step_worker \<lparr>c_key = Some s, c_overlapped = None, c_bytes = 0, c_ret = True\<rparr> h = Some h' \<longrightarrow> host_ok h' fin)"
proof (cases "sessions (h_io h) s")
  case None
  then show ?thesis by (simp add: step_worker_def worker_turn_status TryDestroySession_dead)
next
  case (Some x)
  with TryDestroySession_ok [OF ok Some] show ?thesis by (auto simp: step_worker_def worker_turn_status)
qed

section \<open>The game thread takes a job\<close>

definition pop_host :: "host \<Rightarrow> host" where
  "pop_host h = h\<lparr>h_world := pop_head (h_world h)\<rparr>"

lemma pop_host_fields [simp]:
  "h_world (pop_host h) = pop_head (h_world h)" "h_table (pop_host h) = h_table h"
  "sessions (h_io (pop_host h)) = sessions (h_io h)" "trace (h_io (pop_host h)) = trace (h_io h)"
  "sysResult (h_io (pop_host h)) = sysResult (h_io h)" "jobQueue (h_io (pop_host h)) = tl (jobQueue (h_io h))"
  "started t (h_io (pop_host h)) = started t (h_io h)"
  by (simp_all add: pop_host_def h_io_def pop_head_def started_def)

text \<open>A step of the game's half that changes the sessions only by \<open>io_frame\<close>.\<close>

lemma host_ok_world:
  assumes ok: "host_ok h fin" and f: "io_frame (h_io h) (net w)" and w: "world_ok w" "states_ok (gs w)"
    "g_FSM (gs w) = InitFSM empty_FSM" and p: "players (gs w) = players (gs (h_world h))"
  shows "host_ok (h\<lparr>h_world := w\<rparr>) fin"
proof (rule host_okI)
  note e = io_frame_effect [OF f]
  have n: "h_io (h\<lparr>h_world := w\<rparr>) = net w" by (simp add: h_io_def)
  show "world_ok (h_world (h\<lparr>h_world := w\<rparr>))" "states_ok (gs (h_world (h\<lparr>h_world := w\<rparr>)))"
    "g_FSM (gs (h_world (h\<lparr>h_world := w\<rparr>))) = InitFSM empty_FSM" using w by simp_all
  show "life_ok (h_io (h\<lparr>h_world := w\<rparr>)) (gs (h_world (h\<lparr>h_world := w\<rparr>))) t" for t
    unfolding n using life_ok_effect [OF host_okD(4) [OF ok, of t] e, where g' = "gs w"] p by simp
  show "balance_ok (h_io (h\<lparr>h_world := w\<rparr>)) fin t" for t
    unfolding n using balance_ok_effect [OF host_okD(5) [OF ok, of t] e, of fin] balance_le [OF host_okD(5) [OF ok, of t]] by simp
  show "table_ok (h_table (h\<lparr>h_world := w\<rparr>)) (h_io (h\<lparr>h_world := w\<rparr>))"
    unfolding n using table_ok_effect [OF host_okD(6) [OF ok] e] by simp
  show "queue_ok (jobQueue (h_io (h\<lparr>h_world := w\<rparr>)))"
    unfolding n using queue_ok_effect [OF host_okD(7) [OF ok] e] .
qed

text \<open>A job that is no connect and no disconnect can leave the queue.\<close>

lemma host_ok_pop:
  assumes ok: "host_ok h fin" and q: "jobQueue (h_io h) = job # q"
    and life: "\<And>t. life_ok (h_io (pop_host h)) (gs (h_world h)) t"
  shows "host_ok (pop_host h) fin"
proof (rule host_okI)
  show "life_ok (h_io (pop_host h)) (gs (h_world (pop_host h))) t" for t using life by simp
  show "balance_ok (h_io (pop_host h)) fin t" for t
    using host_okD(5) [OF ok, of t] by (simp add: balance_ok_def cong: option.case_cong)
  show "table_ok (h_table (pop_host h)) (h_io (pop_host h))" using host_okD(6) [OF ok] by (simp add: table_ok_def)
  show "queue_ok (jobQueue (h_io (pop_host h)))" using host_okD(7) [OF ok] q by (simp add: queue_ok_def)
qed (use host_okD(1-3) [OF ok] in simp_all)

lemma life_pop:
  assumes "life_ok (h_io h) g t" and "jobQueue (h_io h) = job # q" and "job \<noteq> ConnectJob t" "job \<noteq> DisconnectJob t"
  shows "life_ok (h_io (pop_host h)) g t"
  using assms life_ok_cong [of "h_io (pop_host h)" t "h_io h" g g] by simp

text \<open>The packet at the head of the queue that makes the game thread use freed memory.\<close>

definition head_crashes :: "env \<Rightarrow> world \<Rightarrow> bool" where
  "head_crashes e w \<longleftrightarrow> (case jobQueue (net w) of
     PacketJob s h b # q \<Rightarrow> packet_crashes e s \<lparr>header = h, body = b\<rparr> (pop_head w)
   | _ \<Rightarrow> False)"

lemma connect_at_head:
  assumes "life_ok n g s" and "jobQueue n = ConnectJob s # q"
  shows "\<exists>x. sessions n s = Some x \<and> \<not> s_gameCleanupDone x \<and> players g s = None \<and>
    life s q = (if s_state x = Connected then [] else [DisconnectJob s])"
proof (cases "sessions n s")
  case None
  with assms show ?thesis by simp
next
  case (Some x)
  with assms show ?thesis by (auto simp: life_ok_Some split: if_splits)
qed

lemma disconnect_at_head:
  assumes "life_ok n g s" and "jobQueue n = DisconnectJob s # q"
  shows "\<exists>x. sessions n s = Some x \<and> \<not> s_gameCleanupDone x \<and> s_state x \<noteq> Connected \<and> life s q = []"
proof (cases "sessions n s")
  case None
  with assms show ?thesis by simp
next
  case (Some x)
  with assms show ?thesis by (auto simp: life_ok_Some split: if_splits)
qed

lemma head_fits:
  assumes ok: "host_ok h fin" and q: "jobQueue (h_io h) = job # q" and a: "pheap (gs (h_world h)) (e_addr e) = None"
    and nc: "\<not> head_crashes e (h_world h)"
  shows "job_fits e (pop_head (h_world h)) job"
proof (cases job)
  case (PacketJob s ph b)
  with host_okD(7) [OF ok] q nc show ?thesis by (simp add: queue_ok_def head_crashes_def h_io_def)
next
  case (DisconnectJob s)
  with disconnect_at_head [OF host_okD(4) [OF ok, of s]] q show ?thesis by (auto simp: h_io_def)
next
  case (ConnectJob s)
  with connect_at_head [OF host_okD(4) [OF ok, of s]] q a show ?thesis by (auto simp: h_io_def)
qed simp

lemma packet_job_ok:
  assumes ok: "host_ok h fin" and q: "jobQueue (h_io h) = PacketJob s ph b # q"
    and fits: "job_fits e (pop_head (h_world h)) (PacketJob s ph b)"
  shows "\<exists>w. run_job e (PacketJob s ph b) (pop_head (h_world h)) = Some w \<and> host_ok (h\<lparr>h_world := w\<rparr>) fin"
proof -
  have pop: "host_ok (pop_host h) fin"
    using host_ok_pop [OF ok q] life_pop [OF host_okD(4) [OF ok] q] by simp
  let ?w = "pop_head (h_world h)"
  have "safe_on (OnPacket e s \<lparr>header = ph, body = b\<rparr>) ?w"
    using OnPacket_safe(2) [of ?w] host_okD(1) [OF ok] fits by simp
  then obtain w where w: "OnPacket e s \<lparr>header = ph, body = b\<rparr> ?w = Some w" "world_step ?w w" by (rule safe_onE)
  then have r: "run_job e (PacketJob s ph b) ?w = Some w" by simp
  have st: "states_ok (gs w)"
    using run_job_machine [OF _ _ _ fits r] host_okD(1-3) [OF pop] machine_stepD(1) by simp
  have n: "h_io (pop_host h) = net ?w" by (simp add: h_io_def)
  have "host_ok ((pop_host h)\<lparr>h_world := w\<rparr>) fin"
  proof (rule host_ok_world [OF pop _ _ st])
    show "io_frame (h_io (pop_host h)) (net w)" unfolding n using w(2) by (simp add: world_step_def)
    show "world_ok w" using world_step_ok [OF w(2)] host_okD(1) [OF ok] by simp
    show "g_FSM (gs w) = InitFSM empty_FSM" "players (gs w) = players (gs (h_world (pop_host h)))"
      using w(2) host_okD(3) [OF ok] by (simp_all add: world_step_def)
  qed
  with r show ?thesis by (simp add: pop_host_def)
qed

lemma shutdown_job_ok:
  assumes ok: "host_ok h fin" and q: "jobQueue (h_io h) = ShutdownJob # q"
  shows "\<exists>w. run_job e ShutdownJob (pop_head (h_world h)) = Some w \<and> host_ok (h\<lparr>h_world := w\<rparr>) fin"
proof -
  have pop: "host_ok (pop_host h) fin"
    using host_ok_pop [OF ok q] life_pop [OF host_okD(4) [OF ok] q] by simp
  let ?w = "pop_head (h_world h)"
  obtain w where w: "run_job e ShutdownJob ?w = Some w" "world_ok w"
    using run_job_safe [of ?w e ShutdownJob] host_okD(1) [OF ok] by auto
  from w(1) have g: "gs w = (gs (h_world h))\<lparr>running := False\<rparr>" "net w = net ?w" by auto
  have "host_ok ((pop_host h)\<lparr>h_world := w\<rparr>) fin"
  proof (rule host_ok_world [OF pop _ w(2)])
    show "io_frame (h_io (pop_host h)) (net w)" using g(2) by (simp add: h_io_def io_frame_refl)
    show "states_ok (gs w)" unfolding g(1) by (rule states_ok_cong [OF host_okD(2) [OF ok]]) (simp_all add: rooms_frame_same)
  qed (use g host_okD(3) [OF ok] in simp_all)
  with w(1) show ?thesis by (simp add: pop_host_def)
qed

lemma connect_job_ok:
  assumes ok: "host_ok h fin" and q: "jobQueue (h_io h) = ConnectJob s # q"
    and fits: "job_fits e (pop_head (h_world h)) (ConnectJob s)"
  shows "\<exists>w. run_job e (ConnectJob s) (pop_head (h_world h)) = Some w \<and> host_ok (h\<lparr>h_world := w\<rparr>) fin"
proof -
  let ?w = "pop_head (h_world h)"
  obtain w where w: "run_job e (ConnectJob s) ?w = Some w" "world_ok w"
    using run_job_safe [OF _ fits] host_okD(1) [OF ok] by auto
  from w(1) have g: "gs w = OnSessionConnected e s (gs (h_world h))" "net w = net ?w" by auto
  have st: "states_ok (gs w)"
    using run_job_machine [OF _ _ _ fits w(1)] host_okD(1-3) [OF ok] machine_stepD(1) by simp
  obtain x where x: "sessions (h_io h) s = Some x" "\<not> s_gameCleanupDone x" "players (gs (h_world h)) s = None"
    "life s q = (if s_state x = Connected then [] else [DisconnectJob s])"
    using connect_at_head [OF host_okD(4) [OF ok] q] by blast
  have n: "h_io (h\<lparr>h_world := w\<rparr>) = h_io (pop_host h)" using g(2) by (simp add: h_io_def)
  have "host_ok (h\<lparr>h_world := w\<rparr>) fin"
  proof (rule host_okI)
    show "life_ok (h_io (h\<lparr>h_world := w\<rparr>)) (gs (h_world (h\<lparr>h_world := w\<rparr>))) t" for t
    proof (cases "t = s")
      case True
      then show ?thesis unfolding n using x q by (simp add: life_ok_Some)
    next
      case False
      then have "players (gs w) t = players (gs (h_world h)) t"
        using g(1) x(3) by (simp add: OnSessionConnected_def Let_def)
      with life_pop [OF host_okD(4) [OF ok, of t] q] False show ?thesis unfolding n
        using life_ok_cong [OF refl refl, where g' = "gs w" and g = "gs (h_world h)" and s = t and n = "h_io (pop_host h)"]
        by simp
    qed
    show "g_FSM (gs (h_world (h\<lparr>h_world := w\<rparr>))) = InitFSM empty_FSM"
      using g(1) x(3) host_okD(3) [OF ok] by (simp add: OnSessionConnected_def Let_def)
    show "balance_ok (h_io (h\<lparr>h_world := w\<rparr>)) fin t" for t
      unfolding n using host_okD(5) [OF ok, of t] by (simp add: balance_ok_def cong: option.case_cong)
    show "table_ok (h_table (h\<lparr>h_world := w\<rparr>)) (h_io (h\<lparr>h_world := w\<rparr>))"
      unfolding n using host_okD(6) [OF ok] by (simp add: table_ok_def)
    show "queue_ok (jobQueue (h_io (h\<lparr>h_world := w\<rparr>)))"
      unfolding n using host_okD(7) [OF ok] q by (simp add: queue_ok_def)
  qed (use w(2) st in simp_all)
  with w(1) show ?thesis by blast
qed

lemma cleaned_io:
  "sessions (cleaned s n) t = (if t = s then map_option (\<lambda>x. x\<lparr>s_gameCleanupDone := True\<rparr>) (sessions n t) else sessions n t)"
  "jobQueue (cleaned s n) = jobQueue n" "started t (cleaned s n) = started t n"
proof -
  define f where "f = sessions (cleaned s n)"
  have "cleaned s n = add_call (PostStatus (Some s)) (n\<lparr>sessions := f\<rparr>)"
    by (simp add: f_def cleaned_def add_call_def)
  moreover have "started t (n\<lparr>sessions := f\<rparr>) = started t n" by (rule started_cong) simp_all
  ultimately show "started t (cleaned s n) = started t n" by simp
qed (simp_all add: cleaned_def)

lemma disconnect_job_ok:
  assumes ok: "host_ok h fin" and q: "jobQueue (h_io h) = DisconnectJob s # q"
    and fits: "job_fits e (pop_head (h_world h)) (DisconnectJob s)"
  shows "\<exists>w. run_job e (DisconnectJob s) (pop_head (h_world h)) = Some w \<and> host_ok (h\<lparr>h_world := w\<rparr>) fin"
proof -
  let ?w = "pop_head (h_world h)" and ?n = "h_io (pop_host h)"
  have n: "net ?w = ?n" by (simp add: h_io_def)
  have okw: "world_ok ?w" using host_okD(1) [OF ok] by simp
  obtain x where x: "sessions (h_io h) s = Some x" "\<not> s_gameCleanupDone x" "s_state x \<noteq> Connected" "life s q = []"
    using disconnect_at_head [OF host_okD(4) [OF ok] q] by blast
  then have "sessions (net ?w) s = Some x" unfolding n by simp
  from Game_OnSessionDisconnected_eq [OF okw this] obtain w1 where w1: "io_frame (net ?w) (net w1)"
    "players (gs w1) = (players (gs ?w))(s := None)" "Game_OnSessionDisconnected s ?w = Some (w1\<lparr>net := cleaned s (net w1)\<rparr>)"
    by blast
  define w where "w = w1\<lparr>net := cleaned s (net w1)\<rparr>"
  have r: "run_job e (DisconnectJob s) ?w = Some w" using w1(3) by (simp add: w_def)
  have gw: "gs w = gs w1" and nw: "net w = cleaned s (net w1)" by (simp_all add: w_def)
  have e: "io_effect s 0 ?n (net w1)" using io_frame_effect [OF w1(1)] n by (simp add: io_effect_def)
  have st: "states_ok (gs w)" using run_job_machine [OF okw _ _ fits r] host_okD(2,3) [OF ok] machine_stepD(1) by simp
  have io: "h_io (h\<lparr>h_world := w\<rparr>) = cleaned s (net w1)" by (simp add: h_io_def nw)
  have bal: "balance_ok (net w1) fin t" for t
    using balance_ok_effect [OF _ e, of fin t fin] host_okD(5) [OF ok, of t] balance_le [OF host_okD(5) [OF ok, of t]]
    by (simp add: balance_ok_def cong: option.case_cong)
  have "host_ok (h\<lparr>h_world := w\<rparr>) fin"
  proof (rule host_okI)
    show "world_ok (h_world (h\<lparr>h_world := w\<rparr>))" "g_FSM (gs (h_world (h\<lparr>h_world := w\<rparr>))) = InitFSM empty_FSM"
      using run_job_safe [OF okw fits] r host_okD(3) [OF ok] by auto
    show "states_ok (gs (h_world (h\<lparr>h_world := w\<rparr>)))" using st by simp
    show "life_ok (h_io (h\<lparr>h_world := w\<rparr>)) (gs (h_world (h\<lparr>h_world := w\<rparr>))) t" for t
    proof (cases "t = s")
      case True
      obtain js where js: "jobQueue (net w1) = q @ js" "close_jobs ?n (net w1) js"
        using io_effectD(2) [OF e] q by auto
      have nx: "sessions ?n s = Some x" using x(1) by simp
      from life_close_jobs [OF js(2), of s] is_open_session [OF nx] x(3) have "life s js = []" by simp
      moreover obtain x1 where "sessions (net w1) s = Some x1" "s_state x1 \<noteq> Connected"
        using io_effect_session [OF e nx] x(3) by auto
      ultimately show ?thesis unfolding io using True js(1) x(4) by (simp add: life_ok_Some cleaned_io)
    next
      case False
      have "life_ok ?n (gs (h_world h)) t" using life_pop [OF host_okD(4) [OF ok, of t] q] False by simp
      from life_ok_effect [OF this e, of "gs w1"] w1(2) False have l: "life_ok (net w1) (gs w1) t" by simp
      have "life_ok (cleaned s (net w1)) (gs w1) t = life_ok (net w1) (gs w1) t"
        by (rule life_ok_cong) (simp_all add: cleaned_io False)
      with l show ?thesis unfolding io by (simp add: gw)
    qed
    show "balance_ok (h_io (h\<lparr>h_world := w\<rparr>)) fin t" for t
      unfolding io using bal [of t] by (cases "t = s"; cases "sessions (net w1) t") (simp_all add: balance_ok_def cleaned_io)
    have same: "sessions (cleaned s (net w1)) u = None \<longleftrightarrow> sessions (h_io h) u = None" for u
      using io_effectD(1) [OF e, of u] by (simp add: cleaned_io)
    show "table_ok (h_table (h\<lparr>h_world := w\<rparr>)) (h_io (h\<lparr>h_world := w\<rparr>))"
      using host_okD(6) [OF ok] unfolding io table_ok_def same by simp
    have "queue_ok (jobQueue ?n)" using host_okD(7) [OF ok] q by (simp add: queue_ok_def)
    then have "queue_ok (jobQueue (net w1))" using e by (rule queue_ok_effect)
    then show "queue_ok (jobQueue (h_io (h\<lparr>h_world := w\<rparr>)))" unfolding io by (simp add: cleaned_io)
  qed
  with r show ?thesis by blast
qed

lemma game_iter_ok:
  assumes ok: "host_ok h fin" and a: "pheap (gs (h_world h)) (e_addr e) = None"
  shows "game_iter e (h_world h) = None \<longleftrightarrow> head_crashes e (h_world h)"
    and "\<not> head_crashes e (h_world h) \<Longrightarrow> \<exists>w. game_iter e (h_world h) = Some w \<and> host_ok (h\<lparr>h_world := w\<rparr>) fin"
proof -
  have "if head_crashes e (h_world h) then game_iter e (h_world h) = None
    else \<exists>w. game_iter e (h_world h) = Some w \<and> host_ok (h\<lparr>h_world := w\<rparr>) fin"
  proof (cases "jobQueue (h_io h)")
    case Nil
    then show ?thesis using ok by (simp add: game_iter_empty h_io_def head_crashes_def)
  next
    case (Cons job q)
    then have g: "game_iter e (h_world h) = run_job e job (pop_head (h_world h))" by (simp add: game_iter_job h_io_def)
    show ?thesis
    proof (cases "head_crashes e (h_world h)")
      case True
      then obtain s ph b where j: "job = PacketJob s ph b" "packet_crashes e s \<lparr>header = ph, body = b\<rparr> (pop_head (h_world h))"
        using Cons by (auto simp: head_crashes_def h_io_def split: GameJob.splits)
      have "packet_ok \<lparr>header = ph, body = b\<rparr>" using host_okD(7) [OF ok] Cons j(1) by (simp add: queue_ok_def)
      with j OnPacket_safe(1) [of "pop_head (h_world h)"] host_okD(1) [OF ok] g True show ?thesis by simp
    next
      case False
      note fits = head_fits [OF ok Cons a False]
      show ?thesis
      proof (cases job)
        case (PacketJob s ph b)
        with packet_job_ok [OF ok, of s ph b q e] Cons fits g False show ?thesis by simp
      next
        case (DisconnectJob s)
        with disconnect_job_ok [OF ok, of s q e] Cons fits g False show ?thesis by simp
      next
        case (ConnectJob s)
        with connect_job_ok [OF ok, of s q e] Cons fits g False show ?thesis by simp
      next
        case ShutdownJob
        with shutdown_job_ok [OF ok, of q e] Cons g False show ?thesis by simp
      qed
    qed
  qed
  then show "game_iter e (h_world h) = None \<longleftrightarrow> head_crashes e (h_world h)"
    and "\<not> head_crashes e (h_world h) \<Longrightarrow> \<exists>w. game_iter e (h_world h) = Some w \<and> host_ok (h\<lparr>h_world := w\<rparr>) fin"
    by (auto split: if_splits)
qed

section \<open>Shutdown\<close>

lemma host_ok_srvState:
  assumes "host_ok h fin"
  shows "host_ok (set_srvState st h) fin"
proof (rule host_okI)
  let ?h = "set_srvState st h"
  have f: "sessions (h_io ?h) = sessions (h_io h)" "jobQueue (h_io ?h) = jobQueue (h_io h)" "h_table ?h = h_table h"
    "gs (h_world ?h) = gs (h_world h)" and st: "started t (h_io ?h) = started t (h_io h)" for t
    by (simp_all add: set_srvState_def started_def)
  show "world_ok (h_world ?h)"
    using host_okD(1) [OF assms] f(1,4) by (simp add: world_ok_def net_ok_def h_io_def)
  show "states_ok (gs (h_world ?h))" "g_FSM (gs (h_world ?h)) = InitFSM empty_FSM"
    using host_okD(2,3) [OF assms] f(4) by simp_all
  show "life_ok (h_io ?h) (gs (h_world ?h)) t" for t
    using host_okD(4) [OF assms, of t] f life_ok_cong [of "h_io ?h" t "h_io h"] by simp
  show "balance_ok (h_io ?h) fin t" for t
    using host_okD(5) [OF assms, of t] f st [of t] balance_ok_cong [of "h_io ?h" t "h_io h"] by simp
  show "table_ok (h_table ?h) (h_io ?h)" using host_okD(6) [OF assms] f by (simp add: table_ok_def)
  show "queue_ok (jobQueue (h_io ?h))" using host_okD(7) [OF assms] f by simp
qed

text \<open>Telling and closing a list of live sessions.\<close>

lemma close_all_ok:
  assumes "host_ok h fin" and "\<forall>s \<in> snd ` set t. sessions (h_io h) s \<noteq> None"
  shows "\<exists>h'. for_each (\<lambda>(k, s) h. do {
       h1 \<leftarrow> on_io (SendPacket s (pkt PKT_SC_SHUTDOWN) None 0) h;
       on_io (RequestClose s) h1 }) t h = Some h' \<and> host_ok h' fin"
  using assms
proof (induction t arbitrary: h)
  case Nil
  then show ?case by simp
next
  case (Cons e t)
  obtain k s where e: "e = (k, s)" by (cases e)
  obtain x where x: "sessions (h_io h) s = Some x" using Cons.prems(2) e by auto
  have "session_ok x" using net_okD(1) [OF world_okD(2) [OF host_okD(1) [OF Cons.prems(1)]]] x by (simp add: h_io_def)
  note xo = x this
  obtain n1 where n1: "SendPacket s (pkt PKT_SC_SHUTDOWN) None 0 (h_io h) = Some n1" "io_frame (h_io h) n1"
    using SendPacket_frame [OF xo, of None _ 0] by auto
  obtain y where y: "sessions n1 s = Some y" "session_ok y"
    using io_frameD(4) [OF n1(2) x] xo(2) by (auto simp: session_frame_def)
  obtain n2 where n2: "RequestClose s n1 = Some n2" "io_frame n1 n2" using RequestClose_frame [OF y] by blast
  note f = io_frame_trans [OF n1(2) n2(2)]
  have "\<forall>u \<in> snd ` set t. sessions (h_io (set_io n2 h)) u \<noteq> None"
    using Cons.prems(2) io_frameD(3) [OF f] by simp
  from Cons.IH [OF host_ok_frame [OF Cons.prems(1) f] this] n1(1) n2(1) e show ?case by (auto simp: on_io_def)
qed

lemma GameServer_Shutdown_ok:
  assumes ok: "host_ok h fin"
  shows "\<exists>h'. GameServer_Shutdown failed h = Some h' \<and> host_ok h' fin"
proof (cases "srvState (h_io h) = Running")
  case False
  with ok show ?thesis by (simp add: GameServer_Shutdown_def)
next
  case True
  let ?h1 = "set_srvState ShuttingDown h"
  have ok1: "host_ok ?h1 fin" using host_ok_srvState [OF ok] .
  then have "\<forall>s \<in> snd ` set (h_table ?h1). sessions (h_io ?h1) s \<noteq> None"
    using host_okD(6) unfolding table_ok_def by blast
  from close_all_ok [OF ok1 this] obtain h2 where h2: "RequestShutdownAllSessions ?h1 = Some h2" "host_ok h2 fin"
    by (auto simp: RequestShutdownAllSessions_def)
  let ?n3 = "EnqueueShutdownJob (h_io h2)"
  have q: "host_ok (set_io ?n3 h2) fin"
  proof (rule host_okI)
    show "world_ok (h_world (set_io ?n3 h2))"
      using host_okD(1) [OF h2(2)] by (simp add: world_ok_def net_ok_def job_defs set_io_def h_io_def)
    show "life_ok (h_io (set_io ?n3 h2)) (gs (h_world (set_io ?n3 h2))) t" for t
      using host_okD(4) [OF h2(2), of t] life_ok_cong [of ?n3 t "h_io h2"] by (simp add: job_defs)
    show "balance_ok (h_io (set_io ?n3 h2)) fin t" for t
      using host_okD(5) [OF h2(2), of t] balance_ok_cong [of ?n3 t "h_io h2"] by (simp add: job_defs)
    show "table_ok (h_table (set_io ?n3 h2)) (h_io (set_io ?n3 h2))"
      using host_okD(6) [OF h2(2)] by (simp add: table_ok_def job_defs)
    show "queue_ok (jobQueue (h_io (set_io ?n3 h2)))" using host_okD(7) [OF h2(2)] by (simp add: queue_ok_def job_defs)
  qed (use host_okD(2,3) [OF h2(2)] in simp_all)
  have frame: "io_frame n (n\<lparr>trace := trace n @ replicate k (PostStatus None)\<rparr>)" for n k
  proof (induction k)
    case (Suc k)
    let ?n = "n\<lparr>trace := trace n @ replicate k (PostStatus None)\<rparr>"
    have "io_frame ?n (add_call (PostStatus None) ?n)" by (simp add: io_frame_def close_jobs_Nil option.rel_refl)
    moreover have "add_call (PostStatus None) ?n = n\<lparr>trace := trace n @ replicate (Suc k) (PostStatus None)\<rparr>"
      by (simp add: add_call_def replicate_append_same)
    ultimately show ?case using io_frame_trans [OF Suc] by simp
  qed simp
  have "host_ok (post_exit_signals (set_io ?n3 h2)) fin"
    unfolding post_exit_signals_eq by (rule host_ok_frame [OF q]) (rule frame)
  with q h2(1) True show ?thesis by (auto simp: GameServer_Shutdown_def StopWorkerThreads_def Let_def)
qed

lemma host_ok_flags: "host_ok h fin \<Longrightarrow> host_ok (h\<lparr>h_running := b, h_listen := l\<rparr>) fin"
  by (simp add: host_ok_def h_io_def)

lemma add_call_frame: "(\<And>t. \<not> io_of t c) \<Longrightarrow> io_frame n (add_call c n)"
  by (simp add: io_frame_def close_jobs_Nil option.rel_refl)

lemma SignalStop_ok:
  assumes "host_ok h fin"
  shows "host_ok (SignalStop h) fin"
proof -
  let ?h = "h\<lparr>h_running := False, h_listen := None\<rparr>"
  have "host_ok ?h fin" using host_ok_flags [OF assms] .
  moreover have "host_ok (set_io (add_call (CloseSocket k) (h_io ?h)) ?h) fin" for k
    by (rule host_ok_frame [OF host_ok_flags [OF assms]]) (simp add: add_call_frame)
  ultimately show ?thesis by (simp add: SignalStop_def Let_def split: option.splits)
qed

lemma ConsoleHandler_ok:
  assumes "host_ok h fin"
  shows "\<exists>r. ConsoleHandler failed ev h = Some r \<and> host_ok (snd r) fin"
proof -
  obtain h' where "GameServer_Shutdown failed (SignalStop h) = Some h'" "host_ok h' fin"
    using GameServer_Shutdown_ok [OF SignalStop_ok [OF assms]] by blast
  with assms show ?thesis by (cases "ev = CTRL_OTHER") (auto simp: ConsoleHandler_def)
qed

section \<open>Every reachable state\<close>

definition sys_ok :: "sys \<Rightarrow> bool" where
  "sys_ok y \<longleftrightarrow> host_ok (y_host y) (y_done y)"

lemma boot_ok: "world_ok (boot res)"
proof -
  have "game_wf (gs (boot res))"
    by (rule game_wfI) (auto simp: boot_def Init_def new_GameServer_def new_Room_def split: if_splits)
  then show ?thesis by (simp add: world_ok_def net_ok_def boot_def Init_def new_GameServer_def)
qed

lemma sys_init_ok: "sys_ok (sys_init res workers)"
  unfolding sys_ok_def
proof (rule host_okI)
  show "world_ok (h_world (y_host (sys_init res workers)))" by (simp add: sys_init_def boot_ok)
qed (simp_all add: sys_init_def boot_def Init_def new_GameServer_def states_ok_def h_io_def balance_ok_def table_ok_def queue_ok_def started_def)

definition fault :: "event \<Rightarrow> sys \<Rightarrow> bool" where
  "fault ev y \<longleftrightarrow> (case ev of
     EvComplete s ty n ret d \<Rightarrow> sessions (h_io (y_host y)) s = None
   | EvStatus s \<Rightarrow> sessions (h_io (y_host y)) s = None
   | EvGame e \<Rightarrow> head_crashes e (h_world (y_host y))
   | _ \<Rightarrow> False)"

lemma sys_exec_ok:
  assumes ok: "sys_ok y" and en: "enabled ev y"
  shows "(sys_exec ev y = None \<longleftrightarrow> fault ev y) \<and> (\<forall>y'. sys_exec ev y = Some y' \<longrightarrow> sys_ok y')"
proof (cases ev)
  case (EvAccept sock s junk)
  with accept_client_ok [of "y_host y" "y_done y" s junk sock] ok en show ?thesis by (auto simp: sys_ok_def fault_def)
next
  case (EvComplete s ty n ret d)
  show ?thesis
  proof (cases "sessions (h_io (y_host y)) s")
    case None
    with complete_freed [OF None, of ty n ret d] EvComplete show ?thesis by (simp add: fault_def Let_def)
  next
    case (Some x)
    with complete_ok [of "y_host y" "y_done y" s n d x ty ret] ok en EvComplete show ?thesis
      by (auto simp: sys_ok_def fault_def finish_def Let_def)
  qed
next
  case (EvStatus s)
  with status_ok [of "y_host y" "y_done y" s] ok show ?thesis by (auto simp: sys_ok_def fault_def)
next
  case (EvGame e)
  with game_iter_ok [of "y_host y" "y_done y" e] ok en show ?thesis
    by (cases "head_crashes e (h_world (y_host y))") (auto simp: sys_ok_def fault_def)
next
  case (EvConsole failed c)
  with ConsoleHandler_ok [of "y_host y" "y_done y" failed c] ok show ?thesis by (auto simp: sys_ok_def fault_def)
qed

lemma sys_reach_ok: "sys_reach y \<Longrightarrow> sys_ok y"
proof (induction rule: sys_reach.induct)
  case (step y y')
  from step.hyps(2) obtain ev where "enabled ev y" "sys_exec ev y = Some y'" by (rule sys_stepE)
  with sys_exec_ok step.IH show ?case by blast
qed (rule sys_init_ok)

end
