(* ===== verification/System_Properties.thy ===== *)
theory System_Properties
  imports System_Facts Network_Properties
begin

text \<open>
  Theorems about every reachable state of the whole server: where a step can use freed memory,
  the accounting of outstanding I/O, the jobs of a session in the queue, the cross references of
  players and rooms, the release of a session by its last event, and a session that a shutdown
  does not reach.
\<close>

section \<open>A run of one client\<close>

text \<open>Accepted, connected, hung up and cleaned up; the witnesses below stand on this run.\<close>

lemma sys_reachI: "sys_reach y \<Longrightarrow> enabled ev y \<Longrightarrow> sys_exec ev y = Some y' \<Longrightarrow> sys_reach y'"
  by (rule sys_reach.step) (auto intro: sys_step.intros)

lemma run_accept:
  assumes "length junk = 8192"
  shows "\<exists>y. sys_reach y \<and> sessions (h_io (y_host y)) = [6 \<mapsto> (new_Session 10 junk)\<lparr>s_recvPosted := True, s_pendingIO := 1\<rparr>] \<and>
    jobQueue (h_io (y_host y)) = [ConnectJob 6] \<and> gs (h_world (y_host y)) = gs (boot (\<lambda>_. IoStarted)) \<and> y_done y = (\<lambda>_. 0) \<and>
    started 6 (h_io (y_host y)) = 1 \<and> trace (h_io (y_host y)) = [AssociatePort 10 6, WSARecv 6] \<and> y_statuses y = (\<lambda>_. 0) \<and>
    srvState (h_io (y_host y)) = Running \<and> (\<forall>i. sysResult (h_io (y_host y)) i = IoStarted) \<and> h_table (y_host y) = [(10, 6)] \<and>
    h_listen (y_host y) = Some 1"
proof -
  let ?y = "sys_init (\<lambda>_. IoStarted) [8, 9]" and ?ev = "EvAccept 10 6 junk"
  have io: "h_io (y_host ?y) = net (boot (\<lambda>_. IoStarted))" by (simp add: sys_init_def h_io_def)
  have nb: "net (boot (\<lambda>_. IoStarted)) =
      \<lparr>sessions = Map.empty, srvState = Running, jobQueue = [], trace = [], sysResult = (\<lambda>_. IoStarted)\<rparr>"
    by (simp add: boot_def Init_def)
  have en: "enabled ?ev ?y" using assms io nb by (simp add: sys_init_def)
  have "sysResult (h_io (y_host ?y)) (length (trace (h_io (y_host ?y))) + 1) = IoStarted" by (simp add: io nb)
  note acc = accept_client_eq [OF this, of 10 6 junk]
  let ?h = "the (accept_client 10 6 junk (y_host ?y))"
  have "sys_exec ?ev ?y = Some (?y\<lparr>y_host := ?h\<rparr>)" using acc by simp
  from sys_reachI [OF sys_reach.init en this] have "sys_reach (?y\<lparr>y_host := ?h\<rparr>)" .
  then show ?thesis
    by (intro exI [of _ "?y\<lparr>y_host := ?h\<rparr>"])
      (simp add: acc io nb IsShuttingDown_def push_job_def Push_def, simp add: sys_init_def started_def upt_rec)
qed

lemma run_hangup:
  "\<exists>y x. sys_reach y \<and> sessions (h_io (y_host y)) 6 = Some x \<and> s_gameCleanupDone x \<and> y_done y 6 = started 6 (h_io (y_host y)) \<and>
    enabled (EvStatus 6) y \<and> s_state x = Closed \<and> sessions (h_io (y_host y)) 7 = None \<and> h_table (y_host y) = [(10, 6)] \<and>
    srvState (h_io (y_host y)) = Running \<and> (\<forall>i. sysResult (h_io (y_host y)) i = IoStarted)"
proof -
  obtain junk :: bytes where junk: "length junk = 8192" using Ex_list_of_length by blast
  obtain d :: bytes where d: "length d = BUFFER_SIZE" using Ex_list_of_length by blast
  let ?x = "(new_Session 10 junk)\<lparr>s_recvPosted := True, s_pendingIO := 1\<rparr>" and ?g = "gs (boot (\<lambda>_. IoStarted))"
  obtain y1 where y1: "sys_reach y1" "sessions (h_io (y_host y1)) = [6 \<mapsto> ?x]" "jobQueue (h_io (y_host y1)) = [ConnectJob 6]"
    "gs (h_world (y_host y1)) = ?g" "y_done y1 = (\<lambda>_. 0)" "started 6 (h_io (y_host y1)) = 1" "y_statuses y1 = (\<lambda>_. 0)"
    "trace (h_io (y_host y1)) = [AssociatePort 10 6, WSARecv 6]"
    "srvState (h_io (y_host y1)) = Running" "\<forall>i. sysResult (h_io (y_host y1)) i = IoStarted" "h_table (y_host y1) = [(10, 6)]"
    using run_accept [OF junk] by (elim exE conjE) (rule that)
  have g: "pheap ?g = Map.empty" "players ?g = Map.empty" "running ?g" by (simp_all add: boot_def Init_def new_GameServer_def)
  let ?w2 = "\<lparr>net = (h_io (y_host y1))\<lparr>jobQueue := []\<rparr>, gs = OnSessionConnected demo_env 6 ?g\<rparr>"
  let ?y2 = "y1\<lparr>y_host := (y_host y1)\<lparr>h_world := ?w2\<rparr>\<rparr>"
  have "game_iter demo_env (h_world (y_host y1)) = Some ?w2"
    using y1(3,4) by (simp add: game_iter_def on_game_def h_io_def)
  then have "sys_exec (EvGame demo_env) y1 = Some ?y2" by simp
  from sys_reachI [OF y1(1) _ this] have y2: "sys_reach ?y2" using y1(4) g by simp
  let ?n2 = "fill_buffer 6 d (net ?w2)" and ?x2 = "?x\<lparr>s_recvBuf := d\<rparr>"
  have n2: "sessions ?n2 6 = Some ?x2" using y1(2) by (simp add: fill_buffer_def)
  let ?x3 = "?x2\<lparr>s_recvPosted := False, s_pendingIO := 0\<rparr>"
  have x3: "session_ok ?x3" "s_state ?x3 = Connected" "s_sock ?x3 = Some 10"
    using new_Session_ok [OF junk, of 10] d by (simp_all add: session_ok_def new_Session_def)
  let ?n3 = "push_job (DisconnectJob 6) (add_call (CloseSocket 10) (put_session 6 (closed_session ?x3) (put_session 6 ?x3 ?n2)))"
  have "RequestClose 6 (put_session 6 ?x3 ?n2) = Some ?n3"
    using RequestClose_open [of "put_session 6 ?x3 ?n2" 6 ?x3] x3 by simp
  then have rc: "OnRecvComplete 6 0 True ?n2 = Some ?n3" using n2 by (simp add: OnRecvComplete_def new_Session_def)
  let ?h2 = "set_io ?n2 (y_host ?y2)" and ?h3 = "set_io ?n3 (y_host ?y2)"
  have "TryDestroySession (Some 6) ?h3 = Some ?h3"
    by (rule TryDestroySession_keeps [of _ _ "closed_session ?x3"]) (simp_all add: destroyable_def closed_session_def new_Session_def)
  then have w3: "step_worker \<lparr>c_key = Some 6, c_overlapped = Some Recv, c_bytes = 0, c_ret = True\<rparr> ?h2 = Some ?h3"
    using worker_turn_recv [of "\<lparr>c_key = Some 6, c_overlapped = Some Recv, c_bytes = 0, c_ret = True\<rparr>" 6 ?h2 ?n3] rc
    by (simp add: step_worker_def)
  let ?y3 = "?y2\<lparr>y_host := ?h3, y_done := (y_done ?y2)(6 := y_done ?y2 6 + 1)\<rparr>"
  have h2: "h_io (y_host ?y2) = net ?w2" by (simp add: h_io_def)
  have "enabled (EvComplete 6 Recv 0 True d) ?y2" using y1(5,6) d h2 by (simp add: started_def)
  moreover have "sys_exec (EvComplete 6 Recv 0 True d) ?y2 = Some ?y3" using w3 h2 by simp
  ultimately have y3: "sys_reach ?y3" using sys_reachI [OF y2] by blast
  let ?g3 = "OnSessionConnected demo_env 6 ?g"
  let ?n4 = "add_call (PostStatus (Some 6)) (put_session 6 ((closed_session ?x3)\<lparr>s_gameCleanupDone := True\<rparr>) (?n3\<lparr>jobQueue := []\<rparr>))"
  let ?w4 = "\<lparr>net = ?n4, gs = drop_player 6 20 ?g3\<rparr>"
  have "jobQueue (net (h_world ?h3)) = [DisconnectJob 6]"
    by (simp add: set_io_def) (simp add: fill_buffer_def)
  moreover have "Game_OnSessionDisconnected 6 (h_world ?h3\<lparr>net := ?n3\<lparr>jobQueue := []\<rparr>\<rparr>) = Some ?w4"
    using g by (simp add: Game_OnSessionDisconnected_def OnSessionConnected_def Let_def remove_player_def LeaveRoom_def on_net_def
        MarkGameCleanupDone_def drop_player_def new_Player_def set_io_def)
  ultimately have g4: "game_iter (demo_env\<lparr>e_addr := 21\<rparr>) (h_world ?h3) = Some ?w4"
    by (simp add: game_iter_def set_io_def)
  let ?y4 = "?y3\<lparr>y_host := (y_host ?y3)\<lparr>h_world := ?w4\<rparr>\<rparr>"
  have "gs (h_world ?h3) = ?g3" by simp
  then have "enabled (EvGame (demo_env\<lparr>e_addr := 21\<rparr>)) ?y3" using g by (simp add: OnSessionConnected_def Let_def)
  moreover have "sys_exec (EvGame (demo_env\<lparr>e_addr := 21\<rparr>)) ?y3 = Some ?y4" using g4 by simp
  ultimately have y4: "sys_reach ?y4" using sys_reachI [OF y3] by blast
  have h4: "h_io (y_host ?y4) = ?n4" by (simp add: h_io_def)
  have st: "started 6 (put_session 6 z (?n3\<lparr>jobQueue := []\<rparr>)) = 1" for z
  proof -
    have "started 6 (put_session 6 z (?n3\<lparr>jobQueue := []\<rparr>)) = started 6 ?n3" by (rule started_cong) simp_all
    also have "\<dots> = started 6 ?n2" by simp
    also have "\<dots> = started 6 (h_io (y_host y1))" by (rule started_cong) (simp_all add: fill_buffer_def)
    finally show ?thesis using y1(6) by simp
  qed
  have "sessions (h_io (y_host ?y4)) 6 = Some ((closed_session ?x3)\<lparr>s_gameCleanupDone := True\<rparr>)" unfolding h4 by simp
  moreover have "y_done ?y4 6 = started 6 (h_io (y_host ?y4))" unfolding h4 using st y1(5) by simp
  moreover have "enabled (EvStatus 6) ?y4" using h4 y1(7) by simp
  moreover have "sessions (h_io (y_host ?y4)) 7 = None" unfolding h4 using y1(2) by (simp add: fill_buffer_def)
  moreover have "srvState (h_io (y_host ?y4)) = Running" "\<forall>i. sysResult (h_io (y_host ?y4)) i = IoStarted"
    unfolding h4 using y1(9,10) by (simp_all add: fill_buffer_def)
  moreover have "h_table (y_host ?y4) = [(10, 6)]" using y1(11) by simp
  moreover have "s_state ((closed_session ?x3)\<lparr>s_gameCleanupDone := True\<rparr>) = Closed" by (simp add: closed_session_def)
  ultimately show ?thesis using y4
    by (intro exI [of _ ?y4] exI [of _ "(closed_session ?x3)\<lparr>s_gameCleanupDone := True\<rparr>"]) simp
qed

section \<open>Memory safety\<close>

lemma head_crashes_iff:
  "head_crashes e w \<longleftrightarrow> (\<exists>s h b q. jobQueue (net w) = PacketJob s h b # q \<and>
     packet_crashes e s \<lparr>header = h, body = b\<rparr> (pop_head w))"
proof (cases "jobQueue (net w)")
  case (Cons j q)
  then show ?thesis by (cases j) (simp_all add: head_crashes_def)
qed (simp add: head_crashes_def)

text \<open>Operations in flight of a session whose 32-bit counter is zero: none, or at least \<open>2^32\<close>.\<close>

lemma flight_mod:
  assumes "(d :: nat) \<le> n"
  shows "unat (of_nat n - of_nat d :: i32) = (n - d) mod 2 ^ 32"
proof -
  have "of_nat n - of_nat d = (of_nat (n - d) :: i32)" using assms by (simp add: of_nat_diff)
  then show ?thesis by (simp add: unsigned_of_nat take_bit_eq_mod)
qed

lemma balance_flight:
  assumes "balance_ok n fin s"
  shows "fin s \<le> started s n"
    and "case sessions n s of None \<Rightarrow> (started s n - fin s) mod 2 ^ 32 = 0
      | Some x \<Rightarrow> unat (s_pendingIO x) = (started s n - fin s) mod 2 ^ 32"
proof -
  show le: "fin s \<le> started s n" using balance_le [OF assms] .
  note m = flight_mod [OF le]
  show "case sessions n s of None \<Rightarrow> (started s n - fin s) mod 2 ^ 32 = 0
      | Some x \<Rightarrow> unat (s_pendingIO x) = (started s n - fin s) mod 2 ^ 32"
  proof (cases "sessions n s")
    case None
    then have "of_nat (started s n) - of_nat (fin s) = (0 :: i32)" using assms by (simp add: balance_ok_def)
    with m None show ?thesis by simp
  next
    case (Some x)
    with m assms show ?thesis by (simp add: balance_ok_def)
  qed
qed

text \<open>C3: In every reachable state of the server, whatever the order in which clients are accepted,
  operations complete and jobs run, a step uses freed memory in three cases only: the cleanup status
  of a session that is already freed is dequeued; the game thread takes a JOIN_ROOM that makes a
  room under a number that is taken, or past the last number of its signed counter; or an operation
  of a freed session completes, which needs at least \<open>2^32\<close> operations of the session in flight, so
  that its 32-bit pending counter has wrapped to zero.\<close>

theorem reachable_steps_fault_only_in_three_ways:
  assumes "sys_reach y" and "enabled ev y"
  shows "sys_exec ev y = None \<longleftrightarrow>
    (\<exists>s. ev = EvStatus s \<and> sessions (h_io (y_host y)) s = None) \<or>
    (\<exists>e s h b q. ev = EvGame e \<and> jobQueue (h_io (y_host y)) = PacketJob s h b # q \<and>
       packet_crashes e s \<lparr>header = h, body = b\<rparr> (pop_head (h_world (y_host y)))) \<or>
    (\<exists>s ty n ret d. ev = EvComplete s ty n ret d \<and> sessions (h_io (y_host y)) s = None \<and>
       2 ^ 32 \<le> started s (h_io (y_host y)) - y_done y s)"
proof -
  note ok = sys_reach_ok [OF assms(1)]
  have wrapped: "2 ^ 32 \<le> started s (h_io (y_host y)) - y_done y s"
    if h: "ev = EvComplete s ty n ret d" "sessions (h_io (y_host y)) s = None" for s ty n ret d
  proof -
    have "(started s (h_io (y_host y)) - y_done y s) mod 2 ^ 32 = 0"
      using balance_flight(2) [OF host_okD(5) [OF ok [unfolded sys_ok_def], of s]] h(2) by simp
    moreover have "0 < started s (h_io (y_host y)) - y_done y s" using assms(2) h(1) by simp
    ultimately show ?thesis using mod_less not_less by (metis less_irrefl)
  qed
  have "fault ev y \<longleftrightarrow> (\<exists>s. ev = EvStatus s \<and> sessions (h_io (y_host y)) s = None) \<or>
    (\<exists>e s h b q. ev = EvGame e \<and> jobQueue (h_io (y_host y)) = PacketJob s h b # q \<and>
       packet_crashes e s \<lparr>header = h, body = b\<rparr> (pop_head (h_world (y_host y)))) \<or>
    (\<exists>s ty n ret d. ev = EvComplete s ty n ret d \<and> sessions (h_io (y_host y)) s = None \<and>
       2 ^ 32 \<le> started s (h_io (y_host y)) - y_done y s)"
    using wrapped by (cases ev) (auto simp: fault_def head_crashes_iff h_io_def)
  with sys_exec_ok [OF ok assms(2), THEN conjunct1] show ?thesis by (rule trans)
qed

theorem reachable_steps_fault_only_in_three_ways_witness:
  "\<exists>y. sys_reach y \<and> sys_exec (EvStatus 6) y \<noteq> None"
proof -
  obtain y x where "sys_reach y" "enabled (EvStatus 6) y" "sessions (h_io (y_host y)) 6 = Some x" using run_hangup by blast
  with reachable_steps_fault_only_in_three_ways [of y "EvStatus 6"] show ?thesis by auto
qed

section \<open>Outstanding operations\<close>

text \<open>C4: In every reachable state the pending counter of a live session is the number of its operations
  that were started and have not completed, modulo \<open>2^32\<close>, and a freed session has a multiple of
  \<open>2^32\<close> of them in flight. So while a session has fewer than \<open>2^32\<close> operations in flight its counter
  is exactly their number, and when it is freed nothing is in flight: no completion arrives for
  freed memory.\<close>

theorem pending_counter_is_outstanding_io:
  assumes "sys_reach y"
  shows "let flight = started s (h_io (y_host y)) - y_done y s in
    y_done y s \<le> started s (h_io (y_host y)) \<and>
    (case sessions (h_io (y_host y)) s of
       None \<Rightarrow> flight mod 2 ^ 32 = 0
     | Some x \<Rightarrow> unat (s_pendingIO x) = flight mod 2 ^ 32) \<and>
    (flight < 2 ^ 32 \<longrightarrow> (case sessions (h_io (y_host y)) s of
       None \<Rightarrow> flight = 0
     | Some x \<Rightarrow> unat (s_pendingIO x) = flight))"
proof -
  note b = balance_flight [OF host_okD(5) [OF sys_reach_ok [OF assms, unfolded sys_ok_def], of s]]
  show ?thesis
  proof (cases "sessions (h_io (y_host y)) s")
    case None
    with b have "(started s (h_io (y_host y)) - y_done y s) mod 2 ^ 32 = 0" by simp
    moreover from this have "started s (h_io (y_host y)) - y_done y s < 2 ^ 32 \<longrightarrow> started s (h_io (y_host y)) - y_done y s = 0"
      using mod_less by metis
    ultimately show ?thesis using b(1) None by (simp only: Let_def option.case simp_thms)
  next
    case (Some x)
    with b show ?thesis by (simp add: Let_def)
  qed
qed

theorem pending_counter_is_outstanding_io_witness:
  "\<exists>y x. sys_reach y \<and> y_done y 6 < started 6 (h_io (y_host y)) \<and> sessions (h_io (y_host y)) 6 = Some x \<and> unat (s_pendingIO x) = 1"
proof -
  obtain junk :: bytes where "length junk = 8192" using Ex_list_of_length by blast
  from run_accept [OF this] obtain y where y: "sys_reach y" "y_done y = (\<lambda>_. 0)" "started 6 (h_io (y_host y)) = 1"
    "\<exists>x. sessions (h_io (y_host y)) 6 = Some x" by auto
  from pending_counter_is_outstanding_io [OF y(1), of 6] y show ?thesis
    by (intro exI [of _ y]) (auto simp: Let_def)
qed

section \<open>The jobs of a session\<close>

text \<open>C5: In every reachable state the connect and disconnect jobs of a session wait in the queue in
  that order and at most once each; a session that is closed and not cleaned up has exactly its
  disconnect job ahead (behind its connect job, if that still waits), and a session that is cleaned
  up or freed has no connect or disconnect job left, so the game thread never takes a connect or
  disconnect job of a freed session. (Packet jobs can be left: they name the session only as a key.)\<close>

theorem session_jobs_are_in_order:
  assumes "sys_reach y"
  shows "let q = filter (\<lambda>j. j = ConnectJob s \<or> j = DisconnectJob s) (jobQueue (h_io (y_host y))) in
    case sessions (h_io (y_host y)) s of
      None \<Rightarrow> q = []
    | Some x \<Rightarrow>
        if s_gameCleanupDone x then q = [] \<and> s_state x \<noteq> Connected
        else if s_state x = Connected then q = [] \<or> q = [ConnectJob s]
        else q = [DisconnectJob s] \<or> q = [ConnectJob s, DisconnectJob s]"
  using host_okD(4) [OF sys_reach_ok [OF assms, unfolded sys_ok_def], of s]
  by (auto simp: life_ok_def life_def Let_def split: option.splits if_splits)

theorem session_jobs_are_in_order_witness:
  "\<exists>y x. sys_reach y \<and> sessions (h_io (y_host y)) 6 = Some x \<and> s_state x \<noteq> Connected \<and> DisconnectJob 6 \<notin> set (jobQueue (h_io (y_host y)))"
proof -
  obtain y x where y: "sys_reach y" "sessions (h_io (y_host y)) 6 = Some x" "s_gameCleanupDone x" using run_hangup by blast
  from session_jobs_are_in_order [OF y(1), of 6] y show ?thesis
    by (intro exI [of _ y] exI [of _ x]) (auto simp: Let_def filter_empty_conv)
qed

section \<open>Players and rooms\<close>

text \<open>C7: In every reachable state the tables of the game are typed as the code assumes: a session's
  player exists, belongs to it, and its session is alive and not cleaned up; a player is a member
  of exactly the room it names; a room lists no player twice; and a player's state fits its place.\<close>

theorem reachable_tables_are_consistent:
  assumes "sys_reach y"
  shows "let g = gs (h_world (y_host y)) in
    (\<forall>s a. players g s = Some a \<longleftrightarrow> (\<exists>p. pheap g a = Some p \<and> p_session p = s)) \<and>
    (\<forall>a p. pheap g a = Some p \<longrightarrow> player_state_ok g p \<and>
       (\<exists>x. sessions (h_io (y_host y)) (p_session p) = Some x \<and> \<not> s_gameCleanupDone x) \<and>
       (\<forall>k. p_room p = Some k \<longleftrightarrow> (\<exists>r. rooms g k = Some r \<and> a \<in> set (r_players r)))) \<and>
    (\<forall>k r. rooms g k = Some r \<longrightarrow> distinct (r_players r) \<and> (\<forall>a \<in> set (r_players r). pheap g a \<noteq> None))"
proof -
  let ?g = "gs (h_world (y_host y))"
  note ok = sys_reach_ok [OF assms, unfolded sys_ok_def]
  note wf = world_okD(1) [OF host_okD(1) [OF ok]] and net = net_okD(3) [OF world_okD(2) [OF host_okD(1) [OF ok]]]
  have "players ?g s = Some a \<longleftrightarrow> (\<exists>p. pheap ?g a = Some p \<and> p_session p = s)" for s a
    using game_wfD(1,2) [OF wf] by blast
  moreover have "player_state_ok ?g p" "\<exists>x. sessions (h_io (y_host y)) (p_session p) = Some x \<and> \<not> s_gameCleanupDone x"
    if "pheap ?g a = Some p" for a p
    using host_okD(2) [OF ok] net [OF that] that by (auto simp: states_ok_def h_io_def)
  moreover have "p_room p = Some k \<longleftrightarrow> (\<exists>r. rooms ?g k = Some r \<and> a \<in> set (r_players r))" if "pheap ?g a = Some p" for a p k
    using game_wfD(3,4) [OF wf] that by fastforce
  moreover have "distinct (r_players r) \<and> (\<forall>a \<in> set (r_players r). pheap ?g a \<noteq> None)" if "rooms ?g k = Some r" for k r
    using game_wfD(3,5) [OF wf that] by blast
  ultimately show ?thesis unfolding Let_def by blast
qed

theorem reachable_tables_are_consistent_witness:
  "\<exists>y r. sys_reach y \<and> rooms (gs (h_world (y_host y))) 1 = Some r \<and> distinct (r_players r)"
proof -
  let ?y = "sys_init (\<lambda>_. IoStarted) []"
  have r: "rooms (gs (h_world (y_host ?y))) 1 = Some (new_Room 1)"
    by (simp add: sys_init_def boot_def Init_def new_GameServer_def)
  from reachable_tables_are_consistent [OF sys_reach.init, of "\<lambda>_. IoStarted" "[]"] r
  have "distinct (r_players (new_Room 1))" unfolding Let_def by blast
  with r show ?thesis using sys_reach.init by blast
qed

section \<open>The end of a session\<close>

lemma OnRecvComplete_after_close:
  "sessions w s = Some x \<Longrightarrow> s_state x \<noteq> Connected \<Longrightarrow> OnRecvComplete s n ret w = Some (recv_entry s x w)"
  by (simp add: OnRecvComplete_def Let_def recv_entry_def RequestClose_def)

lemma OnSendComplete_after_close:
  "sessions w s = Some x \<Longrightarrow> s_state x \<noteq> Connected \<Longrightarrow>
    OnSendComplete s n ret w = Some (put_session s (x\<lparr>s_pendingIO := s_pendingIO x - 1\<rparr>) w)"
  by (simp add: OnSendComplete_def Let_def RequestClose_def)

definition freed :: "sid \<Rightarrow> host \<Rightarrow> bool" where
  "freed s h \<longleftrightarrow> sessions (h_io h) s = None \<and> s \<notin> snd ` set (h_table h)"

lemma destroyed_freed: "distinct (map snd (h_table h)) \<Longrightarrow> freed s (destroyed s h)"
  by (auto simp: freed_def table_remove_set)

lemma last_completion_frees:
  assumes x: "sessions (h_io h) s = Some x" "s_gameCleanupDone x" "s_state x \<noteq> Connected" "s_pendingIO x = 1" "\<not> s_destroying x"
    and t: "distinct (map snd (h_table h))"
  shows "\<exists>h'. step_worker \<lparr>c_key = Some s, c_overlapped = Some ty, c_bytes = n, c_ret = ret\<rparr> h = Some h' \<and> freed s h'"
proof (cases ty)
  case Recv
  let ?h = "set_io (recv_entry s x (h_io h)) h"
  have "TryDestroySession (Some s) ?h = Some (destroyed s ?h)"
    by (rule TryDestroySession_destroys [of _ _ "x\<lparr>s_recvPosted := False, s_pendingIO := 0\<rparr>"])
      (use x in \<open>simp_all add: recv_entry_def destroyable_def\<close>)
  with Recv OnRecvComplete_after_close [OF x(1,3), of n ret] destroyed_freed [of ?h s] t show ?thesis
    by (simp add: step_worker_def worker_turn_recv)
next
  case Send
  let ?h = "set_io (put_session s (x\<lparr>s_pendingIO := s_pendingIO x - 1\<rparr>) (h_io h)) h"
  have "TryDestroySession (Some s) ?h = Some (destroyed s ?h)"
    by (rule TryDestroySession_destroys [of _ _ "x\<lparr>s_pendingIO := 0\<rparr>"]) (use x in \<open>simp_all add: destroyable_def\<close>)
  with Send OnSendComplete_after_close [OF x(1,3), of n ret] destroyed_freed [of ?h s] t show ?thesis
    by (simp add: step_worker_def worker_turn_send)
qed

text \<open>C6: A session does not leak: once the game thread has cleaned it up, the completion of its last
  outstanding operation, or the cleanup status when nothing is outstanding, frees it and takes it
  out of the table.\<close>

theorem last_event_frees_the_session:
  assumes "sys_reach y" and "sessions (h_io (y_host y)) s = Some x" and "s_gameCleanupDone x"
    and "(\<exists>ty n ret d. ev = EvComplete s ty n ret d) \<and> started s (h_io (y_host y)) = y_done y s + 1 \<or>
      ev = EvStatus s \<and> started s (h_io (y_host y)) = y_done y s"
  shows "\<exists>y'. sys_exec ev y = Some y' \<and> sessions (h_io (y_host y')) s = None \<and> s \<notin> snd ` set (h_table (y_host y'))"
proof -
  note ok = sys_reach_ok [OF assms(1), unfolded sys_ok_def]
  have x: "s_state x \<noteq> Connected" "s_pendingIO x = of_nat (started s (h_io (y_host y))) - of_nat (y_done y s)" "\<not> s_destroying x"
    using host_okD(4,5) [OF ok, of s] assms(2,3) by (simp_all add: life_ok_Some balance_ok_def)
  have t: "distinct (map snd (h_table (y_host y)))" using host_okD(6) [OF ok] by (simp add: table_ok_def)
  from assms(4) show ?thesis
  proof (elim disjE conjE exE)
    fix ty n ret d assume ev: "ev = EvComplete s ty n ret d" and one: "started s (h_io (y_host y)) = y_done y s + 1"
    let ?h = "if ty = Recv then set_io (fill_buffer s d (h_io (y_host y))) (y_host y) else y_host y"
    obtain x' where "sessions (h_io ?h) s = Some x'" "s_gameCleanupDone x'" "s_state x' \<noteq> Connected" "s_pendingIO x' = 1"
      "\<not> s_destroying x'"
      using assms(2,3) x one by (cases ty) (auto simp: fill_buffer_def)
    moreover have "distinct (map snd (h_table ?h))" using t by simp
    ultimately obtain h' where "step_worker \<lparr>c_key = Some s, c_overlapped = Some ty, c_bytes = n, c_ret = ret\<rparr> ?h = Some h'" "freed s h'"
      using last_completion_frees by blast
    with ev show ?thesis by (simp add: Let_def freed_def)
  next
    assume ev: "ev = EvStatus s" and none: "started s (h_io (y_host y)) = y_done y s"
    have "TryDestroySession (Some s) (y_host y) = Some (destroyed s (y_host y))"
      by (rule TryDestroySession_destroys [OF assms(2)]) (use assms(3) x none in \<open>simp add: destroyable_def\<close>)
    with ev destroyed_freed [OF t, of s] show ?thesis by (simp add: step_worker_def worker_turn_status freed_def)
  qed
qed

theorem last_event_frees_the_session_witness:
  "\<exists>y y'. sys_reach y \<and> sys_exec (EvStatus 6) y = Some y' \<and> sessions (h_io (y_host y')) 6 = None"
proof -
  obtain y x where y: "sys_reach y" "sessions (h_io (y_host y)) 6 = Some x" "s_gameCleanupDone x"
    "y_done y 6 = started 6 (h_io (y_host y))" using run_hangup by blast
  from last_event_frees_the_session [OF y(1-3), of "EvStatus 6"] y show ?thesis by auto
qed

section \<open>A socket number that comes back\<close>

text \<open>C30: A socket number that is still in the table hides the new session: when, in a reachable state of
  the running server, the operating system gives a new client the number of a socket whose session is
  not destroyed yet, then the client, at a fresh address, is accepted and open but is in no table, so
  a shutdown does not reach it: the session is left open as it was, it is sent no notice, and no
  disconnect job is queued for it.\<close>

theorem reused_socket_hides_the_session:
  assumes "sys_reach y" and "enabled (EvAccept k s junk) y" and "k \<in> fst ` set (h_table (y_host y))"
    and "srvState (h_io (y_host y)) = Running"
    and "sysResult (h_io (y_host y)) (length (trace (h_io (y_host y))) + 1) = IoStarted"
  shows "\<exists>h1 h2 x cs js. accept_client k s junk (y_host y) = Some h1 \<and> sessions (h_io h1) s = Some x \<and> s_state x = Connected \<and>
    h_table h1 = h_table (y_host y) \<and> s \<notin> snd ` set (h_table h1) \<and>
    GameServer_Shutdown failed h1 = Some h2 \<and> sessions (h_io h2) s = Some x \<and>
    trace (h_io h2) = trace (h_io h1) @ cs \<and> (\<forall>d. WSASend s d \<notin> set cs) \<and>
    jobQueue (h_io h2) = jobQueue (h_io h1) @ js \<and> DisconnectJob s \<notin> set js"
proof -
  note ok = sys_reach_ok [OF assms(1), unfolded sys_ok_def]
  have t: "sorted_wrt (<) (map fst (h_table (y_host y)))" "distinct (map snd (h_table (y_host y)))"
    "\<forall>u \<in> snd ` set (h_table (y_host y)). sessions (h_io (y_host y)) u \<noteq> None"
    using host_okD(6) [OF ok] unfolding table_ok_def by blast+
  have fresh: "sessions (h_io (y_host y)) s = None" using assms(2) by simp
  have s: "s \<notin> snd ` set (h_table (y_host y))" using t(3) fresh by blast
  let ?x = "(new_Session k junk)\<lparr>s_recvPosted := True, s_pendingIO := 1\<rparr>"
  obtain h1 where h1: "accept_client k s junk (y_host y) = Some h1" "h_table h1 = h_table (y_host y)"
    "sessions (h_io h1) = (sessions (h_io (y_host y)))(s \<mapsto> ?x)" "srvState (h_io h1) = Running"
    using accept_client_eq [OF assms(5), of k s junk] table.add_taken [OF t(1) assms(3), of s] assms(4) by simp
  have live: "\<exists>z. sessions (h_io h1) u = Some z \<and> session_ok z" if "u \<in> snd ` set (h_table h1)" for u
    using t(3) that s net_okD(1) [OF world_okD(2) [OF host_okD(1) [OF ok]], of u] h1(2,3) by (auto simp: h_io_def)
  have d: "distinct (map snd (h_table h1))" using t(2) h1(2) by simp
  have s1: "s \<notin> snd ` set (h_table h1)" using s h1(2) by simp
  from shutdown_effect [OF h1(4) d live, of failed] obtain h2 where h2: "GameServer_Shutdown failed h1 = Some h2"
    "trace (h_io h2) = trace (h_io h1) @ concat (map (\<lambda>s. [WSASend s (packet_bytes 1000 []), CloseSocket (sock_of (h_io h1) s)])
        (filter (\<lambda>s. is_open s (h_io h1)) (map snd (h_table h1)))) @ replicate (length (h_workers h1)) (PostStatus None)"
    "jobQueue (h_io h2) = jobQueue (h_io h1) @ map DisconnectJob (filter (\<lambda>s. is_open s (h_io h1)) (map snd (h_table h1))) @ [ShutdownJob]"
    "\<forall>u. u \<notin> snd ` set (h_table h1) \<longrightarrow> sessions (h_io h2) u = sessions (h_io h1) u"
    by blast
  have "sessions (h_io h2) s = Some ?x" using h2(4) s1 h1(3) by simp
  moreover have "\<forall>d. WSASend s d \<notin> set (concat (map (\<lambda>s. [WSASend s (packet_bytes 1000 []), CloseSocket (sock_of (h_io h1) s)])
        (filter (\<lambda>s. is_open s (h_io h1)) (map snd (h_table h1)))) @ replicate (length (h_workers h1)) (PostStatus None))"
    using s1 by auto
  moreover have "DisconnectJob s \<notin> set (map DisconnectJob (filter (\<lambda>s. is_open s (h_io h1)) (map snd (h_table h1))) @ [ShutdownJob])"
    using s1 by auto
  moreover have "sessions (h_io h1) s = Some ?x" "s_state ?x = Connected" using h1(3) by (simp_all add: new_Session_def)
  ultimately show ?thesis using h1(1,2) s1 h2(1-3) by blast
qed

theorem reused_socket_hides_the_session_witness:
  "\<exists>y old h1 h2 x. sys_reach y \<and> (10, 6) \<in> set (h_table (y_host y)) \<and> sessions (h_io (y_host y)) 6 = Some old \<and> s_state old = Closed \<and>
    accept_client 10 7 (replicate 8192 0) (y_host y) = Some h1 \<and> GameServer_Shutdown (\<lambda>_. False) h1 = Some h2 \<and>
    sessions (h_io h2) 7 = Some x \<and> s_state x = Connected"
proof -
  obtain y old where y: "sys_reach y" "sessions (h_io (y_host y)) 6 = Some old" "s_state old = Closed"
    "sessions (h_io (y_host y)) 7 = None" "h_table (y_host y) = [(10, 6)]" "srvState (h_io (y_host y)) = Running"
    "\<forall>i. sysResult (h_io (y_host y)) i = IoStarted"
    using run_hangup by blast
  have "enabled (EvAccept 10 7 (replicate 8192 0)) y" using y(4) by simp
  from reused_socket_hides_the_session [OF y(1) this _ y(6), of "\<lambda>_. False"] y(5,7) obtain h1 h2 x where
    "accept_client 10 7 (replicate 8192 0) (y_host y) = Some h1" "GameServer_Shutdown (\<lambda>_. False) h1 = Some h2"
    "sessions (h_io h2) 7 = Some x" "s_state x = Connected" by auto
  with y(1-3,5) show ?thesis by (intro exI [of _ y] exI [of _ old] exI [of _ h1] exI [of _ h2] exI [of _ x]) simp
qed

end
