(* ===== verification/Races.thy ===== *)
theory Races
  imports System_Properties
begin

text \<open>
  Interleavings inside a worker's turn. The transition system of theory System takes a completion
  handler and the attempt to destroy the session that follows it as one step; the code does not:
  between them, and inside the handler after the pending count was taken back, another worker may
  run. The handler \<open>OnRecvComplete\<close> is split at that point, and the theorems exhibit the two
  orders of steps in which a worker uses the session another worker has deleted.
\<close>

section \<open>The handlers, split after the pending count\<close>

text \<open>The two atomic updates of \<open>OnRecvComplete\<close>, and what follows them.\<close>

definition recv_first :: "sid \<Rightarrow> io \<Rightarrow> io option" where
  "recv_first s w = do {
     x \<leftarrow> sessions w s;
     Some (put_session s (x\<lparr>s_recvPosted := False, s_pendingIO := s_pendingIO x - 1\<rparr>) w)
   }"

definition recv_second :: "sid \<Rightarrow> u32 \<Rightarrow> bool \<Rightarrow> io \<Rightarrow> io option" where
  "recv_second s n success w =
     (if \<not> success \<or> n = 0 then RequestClose s w
      else do {
        x \<leftarrow> sessions w s;
        if s_state x \<noteq> Connected then Some w
        else do {
          (ok, r) \<leftarrow> rb_Write (s_recvRing x) (s_recvBuf x) (sint n);
          let w2 = upd_ring s r w;
          if \<not> ok then RequestClose s w2
          else do {
            (returned, w3) \<leftarrow> recv_loop s w2;
            if returned then Some w3 else PostRecv s w3
          }
        }
      })"

text \<open>Run without interruption the halves are the handler.\<close>

lemma recv_halves: "OnRecvComplete s n success w = do { w1 \<leftarrow> recv_first s w; recv_second s n success w1 }"
  by (cases "sessions w s") (simp_all add: OnRecvComplete_def recv_first_def recv_second_def Let_def)

lemma recv_second_freed: "sessions w s = None \<Longrightarrow> recv_second s n success w = None"
  by (simp add: recv_second_def RequestClose_def)

section \<open>A session with two operations in flight that is cleaned up\<close>

text \<open>Accepted, told of the shutdown and closed by it, connected and cleaned up by the game thread.\<close>

lemma started_all:
  assumes "\<forall>i. sysResult w i = IoStarted"
  shows "started s w = length (filter (io_of s) (trace w))"
proof -
  have "filter (io_of s) (trace w) = filter (io_of s) (map ((!) (trace w)) [0..<length (trace w)])" by (simp only: map_nth)
  also have "\<dots> = map ((!) (trace w)) (filter (\<lambda>i. io_of s (trace w ! i)) [0..<length (trace w)])"
    by (simp only: filter_map comp_def)
  finally show ?thesis using assms by (simp add: started_def)
qed

lemma filter_replicate_none: "filter (io_of s) (replicate k (PostStatus u)) = []"
  by (induction k) simp_all

lemma run_shutdown:
  "\<exists>y x. sys_reach y \<and> sessions (h_io (y_host y)) 6 = Some x \<and> s_gameCleanupDone x \<and> s_pendingIO x = 2"
proof -
  obtain junk :: bytes where junk: "length junk = 8192" using Ex_list_of_length by blast
  let ?x = "(new_Session 10 junk)\<lparr>s_recvPosted := True, s_pendingIO := 1\<rparr>" and ?g = "gs (boot (\<lambda>_. IoStarted))"
  obtain y1 where y1: "sys_reach y1" "sessions (h_io (y_host y1)) = [6 \<mapsto> ?x]" "jobQueue (h_io (y_host y1)) = [ConnectJob 6]"
    "gs (h_world (y_host y1)) = ?g" "y_done y1 = (\<lambda>_. 0)" "trace (h_io (y_host y1)) = [AssociatePort 10 6, WSARecv 6]"
    "srvState (h_io (y_host y1)) = Running" "\<forall>i. sysResult (h_io (y_host y1)) i = IoStarted" "h_table (y_host y1) = [(10, 6)]"
    "h_listen (y_host y1) = Some 1"
    using run_accept [OF junk] by (elim exE conjE) (rule that)
  have g: "pheap ?g = Map.empty" "players ?g = Map.empty" "running ?g" by (simp_all add: boot_def Init_def new_GameServer_def)
  let ?hs = "set_srvState ShuttingDown (SignalStop (y_host y1))"
  have hs: "sessions (h_io ?hs) 6 = Some ?x" "sysResult (h_io ?hs) i = IoStarted" "h_table ?hs = [(10, 6)]"
    "jobQueue (h_io ?hs) = [ConnectJob 6]" "trace (h_io ?hs) = [AssociatePort 10 6, WSARecv 6, CloseSocket 1]" "gs (h_world ?hs) = ?g" for i
    using y1 by (simp_all add: set_srvState_def SignalStop_def Let_def)
  have x: "session_ok ?x" using new_Session_ok [OF junk] by simp
  have "s_state ?x = Connected" by (simp add: new_Session_def)
  then have op: "is_open 6 (h_io ?hs)" using is_open_session [OF hs(1)] by simp
  obtain h2 c where h2: "RequestShutdownAllSessions ?hs = Some h2"
    "trace (h_io h2) = [AssociatePort 10 6, WSARecv 6, CloseSocket 1, WSASend 6 shutdown_notice, c]" "\<not> io_of 6 c"
    "jobQueue (h_io h2) = [ConnectJob 6, DisconnectJob 6]" "sysResult (h_io h2) = sysResult (h_io ?hs)" "gs (h_world h2) = ?g"
    "\<exists>x. sessions (h_io h2) 6 = Some x"
    using shutdown_all [of "h_table ?hs" ?hs, folded RequestShutdownAllSessions_def] hs x op by auto
  let ?h3 = "snd (StopWorkerThreads (\<lambda>_. False) (set_io (EnqueueShutdownJob (h_io h2)) h2))"
  let ?y2 = "y1\<lparr>y_host := ?h3\<rparr>"
  have "srvState (h_io (SignalStop (y_host y1))) = Running" using y1(7,10) by (simp add: SignalStop_def Let_def)
  then have "sys_exec (EvConsole (\<lambda>_. False) CTRL_C_EVENT) y1 = Some ?y2"
    using h2(1) by (simp add: ConsoleHandler_def GameServer_Shutdown_def Let_def)
  from sys_reachI [OF y1(1) _ this] have y2: "sys_reach ?y2" by simp
  obtain k where h3: "h_io ?h3 = (push_job ShutdownJob (h_io h2))\<lparr>trace := trace (h_io h2) @ replicate k (PostStatus None)\<rparr>"
    "gs (h_world ?h3) = ?g"
  proof (cases "h_workers h2 = []")
    case True
    then show ?thesis using that [of 0] h2(6) by (simp add: StopWorkerThreads_def job_defs)
  next
    case False
    then show ?thesis using that [of "length (h_workers h2)"] h2(6) by (simp add: StopWorkerThreads_def post_exit_signals_eq job_defs)
  qed
  let ?n3 = "(h_io ?h3)\<lparr>jobQueue := [DisconnectJob 6, ShutdownJob]\<rparr>"
  let ?w3 = "\<lparr>net = ?n3, gs = OnSessionConnected demo_env 6 ?g\<rparr>" and ?e = "demo_env\<lparr>e_addr := 21\<rparr>"
  let ?y3 = "?y2\<lparr>y_host := ?h3\<lparr>h_world := ?w3\<rparr>\<rparr>"
  have q3: "jobQueue (net (h_world ?h3)) = [ConnectJob 6, DisconnectJob 6, ShutdownJob]"
    using h3(1) h2(4) by (simp add: h_io_def)
  have "game_iter demo_env (h_world ?h3) = Some ?w3"
    using h3(2) q3 by (simp add: game_iter_def on_game_def h_io_def)
  then have "sys_exec (EvGame demo_env) ?y2 = Some ?y3" by simp
  from sys_reachI [OF y2 _ this] have y3: "sys_reach ?y3" using h3(2) g by simp
  obtain x2 where x2: "sessions ?n3 6 = Some x2" using h2(7) h3(1) by auto
  let ?n4 = "add_call (PostStatus (Some 6)) (put_session 6 (x2\<lparr>s_gameCleanupDone := True\<rparr>) (?n3\<lparr>jobQueue := [ShutdownJob]\<rparr>))"
  let ?w4 = "\<lparr>net = ?n4, gs = drop_player 6 20 (OnSessionConnected demo_env 6 ?g)\<rparr>"
  have "game_iter ?e ?w3 = Some ?w4"
    using g x2 by (simp add: game_iter_def Game_OnSessionDisconnected_def OnSessionConnected_def Let_def remove_player_def LeaveRoom_def
        on_net_def MarkGameCleanupDone_def drop_player_def new_Player_def)
  then have "sys_exec (EvGame ?e) ?y3 = Some (?y3\<lparr>y_host := (y_host ?y3)\<lparr>h_world := ?w4\<rparr>\<rparr>)" (is "_ = Some ?y4") by simp
  moreover have "enabled (EvGame ?e) ?y3" using g by (simp add: OnSessionConnected_def Let_def)
  ultimately have y4: "sys_reach ?y4" using sys_reachI [OF y3] by blast
  have n4: "h_io (y_host ?y4) = ?n4" by (simp add: h_io_def)
  have "started 6 ?n4 = 2"
    using h2(2,3,5) hs(2) h3(1) by (simp add: started_all filter_replicate_none)
  then have "started 6 (h_io (y_host ?y4)) = 2" unfolding n4 .
  moreover have s4: "sessions (h_io (y_host ?y4)) 6 = Some (x2\<lparr>s_gameCleanupDone := True\<rparr>)" unfolding n4 by simp
  moreover have "y_done ?y4 = (\<lambda>_. 0)" using y1(5) by simp
  ultimately have "s_pendingIO (x2\<lparr>s_gameCleanupDone := True\<rparr>) = 2"
    using host_okD(5) [OF sys_reach_ok [OF y4, unfolded sys_ok_def], of 6] by (simp add: balance_ok_def)
  with y4 s4 show ?thesis
    by (intro exI [of _ ?y4] exI [of _ "x2\<lparr>s_gameCleanupDone := True\<rparr>"]) simp
qed

lemma cleaned_is_closed:
  assumes "sys_reach y" and "sessions (h_io (y_host y)) s = Some x" and "s_gameCleanupDone x"
  shows "s_state x \<noteq> Connected" and "\<not> s_destroying x"
  using host_okD(4,5) [OF sys_reach_ok [OF assms(1), unfolded sys_ok_def], of s] assms(2,3)
  by (simp_all add: life_ok_Some balance_ok_def)

section \<open>The races\<close>

text \<open>C8: Two completions race to destroy their session: in a reachable state in which a receive and a send
  of a cleaned-up session are still in flight, one worker handles the receive, and before it tries
  to destroy the session a second worker handles the send and destroys it; the first worker's
  attempt then reads freed memory. Run one after the other the two turns are safe.\<close>

theorem two_completions_race_to_destroy:
  assumes "sys_reach y" and "sessions (h_io (y_host y)) s = Some x" and "s_gameCleanupDone x" and "s_pendingIO x = 2"
  shows "(\<exists>h1 h2 h3. on_io (OnRecvComplete s n1 ret1) (y_host y) = Some h1 \<and> on_io (OnSendComplete s n2 ret2) h1 = Some h2 \<and>
      TryDestroySession (Some s) h2 = Some h3 \<and> TryDestroySession (Some s) h3 = None) \<and>
    WorkerThread [\<lparr>c_key = Some s, c_overlapped = Some Recv, c_bytes = n1, c_ret = ret1\<rparr>,
      \<lparr>c_key = Some s, c_overlapped = Some Send, c_bytes = n2, c_ret = ret2\<rparr>] (y_host y) \<noteq> None"
proof -
  let ?h = "y_host y" and ?n = "h_io (y_host y)"
  note closed = cleaned_is_closed [OF assms(1-3)]
  let ?x1 = "x\<lparr>s_recvPosted := False, s_pendingIO := 1\<rparr>" and ?n1 = "recv_entry s x (h_io (y_host y))"
  have x1: "sessions ?n1 s = Some ?x1" using assms(4) by (simp add: recv_entry_def)
  let ?h1 = "set_io ?n1 ?h"
  have r: "OnRecvComplete s n1 ret1 ?n = Some ?n1" using OnRecvComplete_after_close [OF assms(2) closed(1)] by simp
  let ?n2 = "put_session s (?x1\<lparr>s_pendingIO := 0\<rparr>) ?n1" and ?h2 = "set_io (put_session s (?x1\<lparr>s_pendingIO := 0\<rparr>) ?n1) ?h"
  have w: "OnSendComplete s n2 ret2 ?n1 = Some ?n2" using OnSendComplete_after_close [OF x1] closed(1) by simp
  have d: "TryDestroySession (Some s) ?h2 = Some (destroyed s ?h2)"
    by (rule TryDestroySession_destroys [of _ _ "?x1\<lparr>s_pendingIO := 0\<rparr>"]) (use closed assms(3) in \<open>simp_all add: destroyable_def\<close>)
  have k: "TryDestroySession (Some s) ?h1 = Some ?h1"
    by (rule TryDestroySession_keeps [of _ _ ?x1]) (use x1 closed in \<open>simp_all add: destroyable_def\<close>)
  have t1: "worker_turn \<lparr>c_key = Some s, c_overlapped = Some Recv, c_bytes = n1, c_ret = ret1\<rparr> ?h = Some (True, ?h1)"
    using r k by (simp add: worker_turn_recv)
  have t2: "worker_turn \<lparr>c_key = Some s, c_overlapped = Some Send, c_bytes = n2, c_ret = ret2\<rparr> ?h1 = Some (True, destroyed s ?h2)"
    using w d by (simp add: worker_turn_send)
  have "on_io (OnRecvComplete s n1 ret1) ?h = Some ?h1" "on_io (OnSendComplete s n2 ret2) ?h1 = Some ?h2"
    using r w by (simp_all add: on_io_def)
  moreover have "TryDestroySession (Some s) (destroyed s ?h2) = None" by (rule TryDestroySession_dead) simp
  ultimately show ?thesis using d t1 t2 by (intro conjI exI [of _ ?h1] exI [of _ ?h2] exI [of _ "destroyed s ?h2"]) simp_all
qed

theorem two_completions_race_to_destroy_witness:
  "\<exists>y h1 h2 h3. sys_reach y \<and> on_io (OnRecvComplete 6 0 False) (y_host y) = Some h1 \<and> on_io (OnSendComplete 6 0 False) h1 = Some h2 \<and>
    TryDestroySession (Some 6) h2 = Some h3 \<and> TryDestroySession (Some 6) h3 = None"
proof -
  obtain y x where y: "sys_reach y" "sessions (h_io (y_host y)) 6 = Some x" "s_gameCleanupDone x" "s_pendingIO x = 2"
    using run_shutdown by blast
  from two_completions_race_to_destroy [OF this, of 0 False 0 False] y(1) show ?thesis by blast
qed

text \<open>C9: The receive handler takes back its pending count before it is done with the session: when the game
  thread has cleaned the session up and the receive is its last operation, the worker that
  dequeues the cleanup status between the two destroys the session, and what is left of the
  handler uses freed memory, whatever the completion reported.\<close>

theorem receive_handler_races_with_destruction:
  assumes "sys_reach y" and "sessions (h_io (y_host y)) s = Some x" and "s_gameCleanupDone x" and "s_pendingIO x = 1"
  shows "\<exists>w1 h2. recv_first s (h_io (y_host y)) = Some w1 \<and> TryDestroySession (Some s) (set_io w1 (y_host y)) = Some h2 \<and>
    recv_second s n success (h_io h2) = None \<and> OnRecvComplete s n success (h_io (y_host y)) \<noteq> None"
proof -
  note closed = cleaned_is_closed [OF assms(1-3)]
  let ?x1 = "x\<lparr>s_recvPosted := False, s_pendingIO := 0\<rparr>"
  let ?w1 = "put_session s ?x1 (h_io (y_host y))"
  let ?h1 = "set_io ?w1 (y_host y)"
  have "recv_first s (h_io (y_host y)) = Some ?w1" using assms(2,4) by (simp add: recv_first_def)
  moreover have "TryDestroySession (Some s) ?h1 = Some (destroyed s ?h1)"
    by (rule TryDestroySession_destroys [of _ _ ?x1]) (use closed assms(3) in \<open>simp_all add: destroyable_def\<close>)
  moreover have "recv_second s n success (h_io (destroyed s ?h1)) = None" by (rule recv_second_freed) simp
  moreover have "OnRecvComplete s n success (h_io (y_host y)) \<noteq> None"
    using OnRecvComplete_after_close [OF assms(2) closed(1)] by simp
  ultimately show ?thesis by blast
qed

text \<open>The state after the send of \<open>run_shutdown\<close> has completed.\<close>

lemma run_last_receive:
  "\<exists>y x. sys_reach y \<and> sessions (h_io (y_host y)) 6 = Some x \<and> s_gameCleanupDone x \<and> s_pendingIO x = 1"
proof -
  obtain y x where y: "sys_reach y" "sessions (h_io (y_host y)) 6 = Some x" "s_gameCleanupDone x" "s_pendingIO x = 2"
    using run_shutdown by blast
  note closed = cleaned_is_closed [OF y(1-3)]
  obtain d :: bytes where d: "length d = BUFFER_SIZE" using Ex_list_of_length by blast
  have "y_done y 6 < started 6 (h_io (y_host y))"
    using balance_flight [OF host_okD(5) [OF sys_reach_ok [OF y(1), unfolded sys_ok_def], of 6]] y(2,4)
    by (cases "y_done y 6 = started 6 (h_io (y_host y))") simp_all
  then have en: "enabled (EvComplete 6 Send 0 False d) y" using d by simp
  let ?h = "set_io (put_session 6 (x\<lparr>s_pendingIO := 1\<rparr>) (h_io (y_host y))) (y_host y)"
  have "OnSendComplete 6 0 False (h_io (y_host y)) = Some (put_session 6 (x\<lparr>s_pendingIO := 1\<rparr>) (h_io (y_host y)))"
    using OnSendComplete_after_close [OF y(2) closed(1)] y(4) by simp
  moreover have "TryDestroySession (Some 6) ?h = Some ?h"
    by (rule TryDestroySession_keeps [of _ _ "x\<lparr>s_pendingIO := 1\<rparr>"]) (use closed in \<open>simp_all add: destroyable_def\<close>)
  ultimately have "step_worker \<lparr>c_key = Some 6, c_overlapped = Some Send, c_bytes = 0, c_ret = False\<rparr> (y_host y) = Some ?h"
    by (simp add: step_worker_def worker_turn_send)
  then have "sys_exec (EvComplete 6 Send 0 False d) y = Some (y\<lparr>y_host := ?h, y_done := (y_done y)(6 := y_done y 6 + 1)\<rparr>)" by simp
  from sys_reachI [OF y(1) en this] y(3) show ?thesis
    by (intro exI [of _ "y\<lparr>y_host := ?h, y_done := (y_done y)(6 := y_done y 6 + 1)\<rparr>"] exI [of _ "x\<lparr>s_pendingIO := 1\<rparr>"]) simp
qed

theorem receive_handler_races_with_destruction_witness:
  "\<exists>y w1 h2. sys_reach y \<and> recv_first 6 (h_io (y_host y)) = Some w1 \<and> TryDestroySession (Some 6) (set_io w1 (y_host y)) = Some h2 \<and>
    recv_second 6 0 False (h_io h2) = None"
proof -
  obtain y x where y: "sys_reach y" "sessions (h_io (y_host y)) 6 = Some x" "s_gameCleanupDone x" "s_pendingIO x = 1"
    using run_last_receive by blast
  from receive_handler_races_with_destruction [OF this, of 0 False] y(1) show ?thesis by blast
qed

end
