(* ===== verification/Client.thy ===== *)
theory Client
  imports Packet
begin

text \<open>
  client.cpp, the console client: its byte helpers, sending and receiving over a stream socket,
  the packets it sends, the parser of chat packets, the receive thread and the command loop.

  \<open>cnet\<close> is the client's end of the connection. \<open>sendRes i k\<close> is what the i-th \<open>send\<close> of k bytes
  returns; \<open>c_in\<close> is what the peer sends until it closes and \<open>recvRes i\<close> how many of those
  bytes are at hand at the i-th \<open>recv\<close>, 0 when it finds the connection closed or failed. A line
  printed on the console is a constructor of \<open>shown\<close>. \<open>None\<close> is a memory error, an overflow of
  \<open>int\<close>, or a loop that does not end.
\<close>

datatype shown =
    ShowChat bytes bytes
  | ShowBadChat
  | ShowDisconnected
  | ShowBadSize u16
  | ShowCut
  | ShowShutdown
  | ShowKick
  | ShowUnknown u16 int
  | ShowSizeInvalid int
  | ShowUnknownCommand
  | ShowSendFailed
  | ShowMe bytes
  | ShowHelp
  | ShowCleared
  | ShowLoginFailed
  | ShowEnterFailed
  | ShowJoined bytes i32

record cnet =
  c_out :: bytes
  c_sends :: nat
  sendRes :: "nat \<Rightarrow> int \<Rightarrow> int"
  c_in :: bytes
  c_recvs :: nat
  recvRes :: "nat \<Rightarrow> nat"
  c_shown :: "shown list"

text \<open>\<open>PrintLine\<close>.\<close>

definition show_line :: "shown \<Rightarrow> cnet \<Rightarrow> cnet" where
  "show_line l n = n\<lparr>c_shown := c_shown n @ [l]\<rparr>"

section \<open>Text\<close>

definition is_blank :: "u8 \<Rightarrow> bool" where
  "is_blank c \<longleftrightarrow> c = 32 \<or> c = 9 \<or> c = 13 \<or> c = 10"

text \<open>\<open>find_first_not_of\<close> and \<open>find_last_not_of\<close>: the position, \<open>None\<close> for \<open>npos\<close>.\<close>

fun find_first_not :: "(u8 \<Rightarrow> bool) \<Rightarrow> bytes \<Rightarrow> nat option" where
  "find_first_not P [] = None"
| "find_first_not P (c # cs) = (if P c then map_option Suc (find_first_not P cs) else Some 0)"

definition find_last_not :: "(u8 \<Rightarrow> bool) \<Rightarrow> bytes \<Rightarrow> nat option" where
  "find_last_not P cs = map_option (\<lambda>i. length cs - 1 - i) (find_first_not P (rev cs))"

definition Trim :: "bytes \<Rightarrow> bytes" where
  "Trim v = (case find_first_not is_blank v of
     None \<Rightarrow> []
   | Some b \<Rightarrow> (case find_last_not is_blank v of None \<Rightarrow> [] | Some e \<Rightarrow> take (e - b + 1) (drop b v)))"

definition ToLowerAscii :: "bytes \<Rightarrow> bytes" where
  "ToLowerAscii v = map (\<lambda>ch. if 65 \<le> ch \<and> ch \<le> 90 then ch - 65 + 97 else ch) v"

section \<open>Integers in buffers\<close>

definition ReadUInt16LE :: "bytes \<Rightarrow> int \<Rightarrow> u16 option" where
  "ReadUInt16LE buffer offset =
     (if 0 \<le> offset \<and> nat offset + 1 < length buffer
      then Some (ucast ((ucast (buffer ! nat offset) :: i32) OR push_bit 8 (ucast (buffer ! (nat offset + 1)))))
      else None)"

definition ReadUInt32LE :: "bytes \<Rightarrow> int \<Rightarrow> u32 option" where
  "ReadUInt32LE buffer offset =
     (if 0 \<le> offset \<and> nat offset + 3 < length buffer
      then Some ((ucast (buffer ! nat offset) :: i32) OR push_bit 8 (ucast (buffer ! (nat offset + 1))) OR
        push_bit 16 (ucast (buffer ! (nat offset + 2))) OR push_bit 24 (ucast (buffer ! (nat offset + 3))))
      else None)"

definition WriteUInt16LE :: "bytes \<Rightarrow> int \<Rightarrow> u16 \<Rightarrow> bytes option" where
  "WriteUInt16LE buffer offset v =
     (if 0 \<le> offset \<and> nat offset + 1 < length buffer
      then Some (buffer[nat offset := ucast (v AND 0xFF), nat offset + 1 := ucast (drop_bit 8 v AND 0xFF)])
      else None)"

text \<open>The shifts of \<open>int32_t\<close> are arithmetic.\<close>

definition WriteInt32LE :: "bytes \<Rightarrow> int \<Rightarrow> i32 \<Rightarrow> bytes option" where
  "WriteInt32LE buffer offset v =
     (if 0 \<le> offset \<and> nat offset + 3 < length buffer
      then Some (buffer[nat offset := ucast (v AND 0xFF), nat offset + 1 := ucast (signed_drop_bit 8 v AND 0xFF),
        nat offset + 2 := ucast (signed_drop_bit 16 v AND 0xFF), nat offset + 3 := ucast (signed_drop_bit 24 v AND 0xFF)])
      else None)"

section \<open>The socket\<close>

definition SOCKET_ERROR :: int where
  "SOCKET_ERROR = -1"

definition net_send :: "bytes \<Rightarrow> int \<Rightarrow> cnet \<Rightarrow> int \<times> cnet" where
  "net_send data len n =
     (let r = sendRes n (c_sends n) len in
      (r, n\<lparr>c_sends := c_sends n + 1, c_out := c_out n @ take (nat r) data\<rparr>))"

text \<open>\<open>SendAll\<close>: the loop ends only if the network takes bytes; its result is \<open>None\<close> otherwise.\<close>

partial_function (option) send_loop :: "bytes \<Rightarrow> int \<Rightarrow> int \<Rightarrow> cnet \<Rightarrow> (bool \<times> cnet) option" where
  "send_loop data len sentTotal n =
     (if sentTotal < len then
        let (sent, n1) = net_send (drop (nat sentTotal) data) (len - sentTotal) n in
        if sent = SOCKET_ERROR \<or> sent = 0 then Some (False, n1)
        else send_loop data len (sentTotal + sent) n1
      else Some (True, n))"

definition SendAll :: "bytes \<Rightarrow> int \<Rightarrow> cnet \<Rightarrow> (bool \<times> cnet) option" where
  "SendAll data len n = send_loop data len 0 n"

definition net_recv :: "int \<Rightarrow> cnet \<Rightarrow> bytes \<times> cnet" where
  "net_recv len n =
     (let got = take (min (nat len) (recvRes n (c_recvs n))) (c_in n) in
      (got, n\<lparr>c_recvs := c_recvs n + 1, c_in := drop (length got) (c_in n)\<rparr>))"

function recv_all_loop :: "bytes \<Rightarrow> int \<Rightarrow> int \<Rightarrow> cnet \<Rightarrow> (bool \<times> bytes \<times> cnet) option" where
  "recv_all_loop buffer len recvTotal n =
     (if recvTotal < len then
        let (got, n1) = net_recv (len - recvTotal) n; recvBytes = int (length got) in
        if recvBytes \<le> 0 then Some (False, buffer, n1)
        else (case memcpy buffer recvTotal got 0 (size_of_int recvBytes) of
            None \<Rightarrow> None
          | Some buffer1 \<Rightarrow> recv_all_loop buffer1 len (recvTotal + recvBytes) n1)
      else Some (True, buffer, n))"
  by pat_completeness auto
termination
  by (relation "measure (\<lambda>(buffer, len, recvTotal, n). nat (len - recvTotal))") auto

declare recv_all_loop.simps [simp del]

definition RecvAll :: "bytes \<Rightarrow> int \<Rightarrow> cnet \<Rightarrow> (bool \<times> bytes \<times> cnet) option" where
  "RecvAll buffer len n = recv_all_loop buffer len 0 n"

section \<open>Requests\<close>

definition int_ok :: "int \<Rightarrow> bool" where
  "int_ok i \<longleftrightarrow> - (2 ^ 31) \<le> i \<and> i < 2 ^ 31"

definition int_of_size :: "nat \<Rightarrow> int" where
  "int_of_size k = sint (of_nat k :: i32)"

text \<open>\<open>SendPacket\<close> of the client.\<close>

definition client_SendPacket :: "u16 \<Rightarrow> bytes option \<Rightarrow> int \<Rightarrow> cnet \<Rightarrow> (bool \<times> cnet) option" where
  "client_SendPacket pktId data bodyLen n =
     (let packetSize = 4 + bodyLen in
      if \<not> int_ok packetSize then None
      else if packetSize < 4 \<or> packetSize > 4096 then Some (False, show_line (ShowSizeInvalid packetSize) n)
      else do {
        p1 \<leftarrow> WriteUInt16LE (replicate (nat packetSize) 0) 0 (word_of_int packetSize);
        p2 \<leftarrow> WriteUInt16LE p1 2 pktId;
        packet \<leftarrow> (if bodyLen > 0 \<and> data \<noteq> None then memcpy p2 4 (the data) 0 (size_of_int bodyLen) else Some p2);
        SendAll packet (int_of_size (length packet)) n
      })"

definition SendStringPacket :: "u16 \<Rightarrow> bytes \<Rightarrow> cnet \<Rightarrow> (bool \<times> cnet) option" where
  "SendStringPacket pktId txt n = client_SendPacket pktId (Some txt) (int_of_size (length txt)) n"

definition SendLogin :: "bytes \<Rightarrow> cnet \<Rightarrow> (bool \<times> cnet) option" where
  "SendLogin nickname n = SendStringPacket (pkt PKT_CS_LOGIN) nickname n"

definition SendEnterRoom :: "i32 \<Rightarrow> cnet \<Rightarrow> (bool \<times> cnet) option" where
  "SendEnterRoom roomId n = do {
     b \<leftarrow> WriteInt32LE (replicate 4 0) 0 roomId;
     client_SendPacket (pkt PKT_CS_ENTER_ROOM) (Some b) (int_of_size (length b)) n
   }"

definition client_SendChat :: "bytes \<Rightarrow> cnet \<Rightarrow> (bool \<times> cnet) option" where
  "client_SendChat message n = (if message = [] then Some (False, n) else SendStringPacket (pkt PKT_CS_CHAT) message n)"

section \<open>Chat packets\<close>

text \<open>The outer \<open>None\<close> is a read outside the body, the inner one the result \<open>false\<close>.\<close>

definition ParseServerChat :: "bytes \<Rightarrow> (u32 \<times> bytes \<times> bytes) option option" where
  "ParseServerChat data =
     (if length data < 8 then Some None
      else let size = int_of_size (length data) in do {
        senderId \<leftarrow> ReadUInt32LE data 0;
        nameLen \<leftarrow> ReadUInt16LE data 4;
        if 6 + uint nameLen + 2 > size then Some None
        else do {
          senderName \<leftarrow> read_bytes (drop 6 data) (unat nameLen);
          let offset = 6 + uint nameLen;
          msgLen \<leftarrow> ReadUInt16LE data offset;
          let offset = offset + 2;
          if offset + uint msgLen > size then Some None
          else do {
            message \<leftarrow> read_bytes (drop (nat offset) data) (unat msgLen);
            Some (Some (senderId, senderName, message))
          }
        }
      })"

section \<open>The receive thread\<close>

text \<open>What a packet shows; the flag is whether the thread goes on.\<close>

definition show_packet :: "u16 \<Rightarrow> bytes \<Rightarrow> int \<Rightarrow> cnet \<Rightarrow> (bool \<times> cnet) option" where
  "show_packet pktId bd bodySize n =
     (if pktId = pkt PKT_SC_CHAT then do {
        r \<leftarrow> ParseServerChat bd;
        (case r of
           None \<Rightarrow> Some (True, show_line ShowBadChat n)
         | Some (senderId, senderName, message) \<Rightarrow>
             let name = (if senderName = [] then ascii ''Player '' @ dec_string (unat senderId) else senderName) in
             Some (True, show_line (ShowChat name message) n))
      }
      else if pktId = pkt PKT_SC_SHUTDOWN then Some (False, show_line ShowShutdown n)
      else if pktId = pkt PKT_SC_KICK then Some (False, show_line ShowKick n)
      else Some (True, show_line (ShowUnknown pktId bodySize) n))"

definition recv_packet :: "cnet \<Rightarrow> (bool \<times> cnet) option" where
  "recv_packet n = do {
     (ok, hdr, n1) \<leftarrow> RecvAll (replicate 4 0) 4 n;
     if \<not> ok then Some (False, show_line ShowDisconnected n1)
     else do {
       pktSize \<leftarrow> ReadUInt16LE hdr 0;
       pktId \<leftarrow> ReadUInt16LE hdr 2;
       if uint pktSize < 4 \<or> uint pktSize > 4096 then Some (False, show_line (ShowBadSize pktSize) n1)
       else do {
         let bodySize = uint pktSize - 4;
         (ok, bd, n2) \<leftarrow> (if bodySize > 0 then RecvAll (replicate (nat bodySize) 0) bodySize n1 else Some (True, [], n1));
         if \<not> ok then Some (False, show_line ShowCut n2)
         else show_packet pktId bd bodySize n2
       }
     }
   }"

text \<open>
  What \<open>RecvAll\<close> does: it moves bytes from the front of the stream into the buffer, and succeeds
  exactly when it has filled it.
\<close>

definition recv_rest :: "cnet \<Rightarrow> cnet \<Rightarrow> bytes \<Rightarrow> bool" where
  "recv_rest n n' got \<longleftrightarrow> c_in n = got @ c_in n' \<and> c_shown n' = c_shown n \<and> c_out n' = c_out n \<and> recvRes n' = recvRes n"

lemma net_recv_rest:
  assumes "net_recv k n = (got, n1)"
  shows "recv_rest n n1 got" and "length got \<le> nat k" and "c_recvs n1 = Suc (c_recvs n)"
    and "length got = min (min (nat k) (recvRes n (c_recvs n))) (length (c_in n))"
proof -
  have g: "got = take (min (nat k) (recvRes n (c_recvs n))) (c_in n)" "c_in n1 = drop (length got) (c_in n)"
    "c_shown n1 = c_shown n" "c_out n1 = c_out n" "recvRes n1 = recvRes n" "c_recvs n1 = Suc (c_recvs n)"
    using assms by (auto simp: net_recv_def Let_def)
  have "got @ drop (length got) (c_in n) = c_in n"
    using g(1) by (metis append_take_drop_id append_eq_conv_conj)
  with g show "recv_rest n n1 got" by (simp add: recv_rest_def)
  show "length got \<le> nat k" "c_recvs n1 = Suc (c_recvs n)"
    "length got = min (min (nat k) (recvRes n (c_recvs n))) (length (c_in n))"
    using g by auto
qed

lemma recv_rest_trans: "recv_rest n m a \<Longrightarrow> recv_rest m k b \<Longrightarrow> recv_rest n k (a @ b)"
  by (simp add: recv_rest_def)

lemma recv_all_loop_correct:
  assumes "0 \<le> recvTotal" and "recvTotal \<le> len" and "length buffer = nat len" and "len < 2 ^ 31"
  shows "\<exists>ok got n'. recv_all_loop buffer len recvTotal n =
      Some (ok, take (nat recvTotal) buffer @ got @ drop (nat recvTotal + length got) buffer, n') \<and>
    recv_rest n n' got \<and> (ok \<longleftrightarrow> int (length got) = len - recvTotal) \<and> int (length got) \<le> len - recvTotal \<and>
    (\<not> ok \<longrightarrow> (\<forall>i. 0 < recvRes n i) \<longrightarrow> c_in n' = [])"
  using assms
proof (induction buffer len recvTotal n rule: recv_all_loop.induct)
  case (1 buffer len recvTotal n)
  show ?case
  proof (cases "recvTotal < len")
    case False
    then have "recvTotal = len" using "1.prems" by simp
    then show ?thesis
      by (subst recv_all_loop.simps) (auto simp: recv_rest_def)
  next
    case True
    note lt = True
    obtain got n1 where r: "net_recv (len - recvTotal) n = (got, n1)" by (cases "net_recv (len - recvTotal) n")
    note nr = net_recv_rest [OF r]
    show ?thesis
    proof (cases "got = []")
      case True
      then have "recv_all_loop buffer len recvTotal n = Some (False, buffer, n1)"
        using r \<open>recvTotal < len\<close> by (subst recv_all_loop.simps) (simp add: Let_def)
      moreover have "c_in n1 = []" if "\<forall>i. 0 < recvRes n i"
      proof -
        have "0 < recvRes n (c_recvs n)" "0 < nat (len - recvTotal)" using that \<open>recvTotal < len\<close> by auto
        then have "c_in n = []" using nr(4) True by (auto simp: min_def split: if_splits)
        then show ?thesis using nr(1) by (simp add: recv_rest_def)
      qed
      ultimately show ?thesis using nr(1) True \<open>recvTotal < len\<close>
        by (intro exI [of _ False] exI [of _ "[]"] exI [of _ n1]) simp
    next
      case False
      let ?k = "int (length got)"
      let ?b = "take (nat recvTotal) buffer @ got @ drop (nat recvTotal + length got) buffer"
      have k: "0 < ?k" "?k \<le> len - recvTotal" using False nr(2) lt by auto
      then have u: "unat (size_of_int ?k) = length got" using "1.prems" by (simp add: unat_size_of_int)
      then have mem: "memcpy buffer recvTotal got 0 (size_of_int ?k) = Some ?b"
        using k "1.prems" by (simp add: memcpy_def nat_le_iff)
      have nk: "\<not> ?k \<le> 0" using k(1) by linarith
      have step: "recv_all_loop buffer len recvTotal n = recv_all_loop ?b len (recvTotal + ?k) n1"
        by (subst recv_all_loop.simps) (simp only: lt r nk mem Let_def if_True if_False prod.case option.case)
      have len_b: "length ?b = nat len" using k "1.prems" by (simp add: nat_le_iff)
      obtain ok got2 n2 where ih: "recv_all_loop ?b len (recvTotal + ?k) n1 =
          Some (ok, take (nat (recvTotal + ?k)) ?b @ got2 @ drop (nat (recvTotal + ?k) + length got2) ?b, n2)"
        "recv_rest n1 n2 got2" "ok \<longleftrightarrow> int (length got2) = len - (recvTotal + ?k)" "int (length got2) \<le> len - (recvTotal + ?k)"
        "\<not> ok \<longrightarrow> (\<forall>i. 0 < recvRes n1 i) \<longrightarrow> c_in n2 = []"
        using "1.IH" [OF lt r [symmetric] refl refl nk mem] k len_b "1.prems" by auto
      have nt: "nat (recvTotal + ?k) = nat recvTotal + length got" using "1.prems" by (simp add: nat_add_distrib)
      have le: "nat recvTotal + length got \<le> length buffer" using k "1.prems" by (simp add: nat_le_iff)
      have "take (nat (recvTotal + ?k)) ?b @ got2 @ drop (nat (recvTotal + ?k) + length got2) ?b =
          take (nat recvTotal) buffer @ (got @ got2) @ drop (nat recvTotal + length (got @ got2)) buffer"
        using le by (simp add: nt ac_simps)
      with step ih(1) have res: "recv_all_loop buffer len recvTotal n =
          Some (ok, take (nat recvTotal) buffer @ (got @ got2) @ drop (nat recvTotal + length (got @ got2)) buffer, n2)"
        by (simp only:)
      have "recvRes n1 = recvRes n" using nr(1) by (simp add: recv_rest_def)
      with ih(3-5) have fin: "ok \<longleftrightarrow> int (length (got @ got2)) = len - recvTotal" "int (length (got @ got2)) \<le> len - recvTotal"
        "\<not> ok \<longrightarrow> (\<forall>i. 0 < recvRes n i) \<longrightarrow> c_in n2 = []" by auto
      show ?thesis
        by (rule exI [of _ ok], rule exI [of _ "got @ got2"], rule exI [of _ n2], intro conjI)
          (fact res recv_rest_trans [OF nr(1) ih(2)] fin)+
    qed
  qed
qed

lemma RecvAll_correct:
  assumes "length buffer = k" and "k < 2 ^ 31"
  shows "\<exists>ok got n'. RecvAll buffer (int k) n = Some (ok, got @ drop (length got) buffer, n') \<and>
    recv_rest n n' got \<and> (ok \<longleftrightarrow> length got = k) \<and> length got \<le> k \<and>
    (\<not> ok \<longrightarrow> (\<forall>i. 0 < recvRes n i) \<longrightarrow> c_in n' = [])"
proof -
  have "length buffer = nat (int k)" "int k < 2 ^ 31" using assms by simp_all
  from recv_all_loop_correct [OF order_refl of_nat_0_le_iff this, of n] obtain ok got n' where
    "recv_all_loop buffer (int k) 0 n = Some (ok, take (nat 0) buffer @ got @ drop (nat 0 + length got) buffer, n')"
    "recv_rest n n' got" "ok \<longleftrightarrow> int (length got) = int k - 0" "int (length got) \<le> int k - 0"
    "\<not> ok \<longrightarrow> (\<forall>i. 0 < recvRes n i) \<longrightarrow> c_in n' = []" by blast
  then show ?thesis
    by (intro exI [of _ ok] exI [of _ got] exI [of _ n']) (simp add: RecvAll_def)
qed

lemma show_line_fields [simp]:
  "c_in (show_line l n) = c_in n" "c_out (show_line l n) = c_out n" "recvRes (show_line l n) = recvRes n"
  "sendRes (show_line l n) = sendRes n" "c_sends (show_line l n) = c_sends n" "c_shown (show_line l n) = c_shown n @ [l]"
  by (simp_all add: show_line_def)

definition chat_line :: "(u32 \<times> bytes \<times> bytes) option \<Rightarrow> shown" where
  "chat_line r = (case r of None \<Rightarrow> ShowBadChat
     | Some (i, nm, msg) \<Rightarrow> ShowChat (if nm = [] then ascii ''Player '' @ dec_string (unat i) else nm) msg)"

lemma show_packet_eq:
  "show_packet i b k n =
     (if i = 3 then map_option (\<lambda>r. (True, show_line (chat_line r) n)) (ParseServerChat b)
      else if i = 1000 then Some (False, show_line ShowShutdown n)
      else if i = 1001 then Some (False, show_line ShowKick n)
      else Some (True, show_line (ShowUnknown i k) n))"
proof (cases "ParseServerChat b")
  case None
  then show ?thesis by (simp add: show_packet_def)
next
  case (Some r)
  then show ?thesis by (cases r) (auto simp: show_packet_def chat_line_def Let_def)
qed

lemma show_packet_in: "show_packet i b k n = Some (go, n') \<Longrightarrow> c_in n' = c_in n"
  by (auto simp: show_packet_eq split: if_split_asm)

lemma ReadUInt16LE_eq: "0 \<le> k \<Longrightarrow> nat k + 1 < length b \<Longrightarrow> ReadUInt16LE b k = Some (of_le16 (drop (nat k) b))"
proof -
  have "(ucast ((ucast (x :: u8) :: i32) OR push_bit 8 (ucast (y :: u8))) :: u16) = ucast x OR push_bit 8 (ucast y)" for x y
    by (rule bit_word_eqI) (auto simp: bit_simps)
  then show "0 \<le> k \<Longrightarrow> nat k + 1 < length b \<Longrightarrow> ReadUInt16LE b k = Some (of_le16 (drop (nat k) b))"
    by (simp add: ReadUInt16LE_def of_le16_def)
qed

lemma ReadUInt32LE_eq: "0 \<le> k \<Longrightarrow> nat k + 3 < length b \<Longrightarrow> ReadUInt32LE b k = Some (of_le32 (drop (nat k) b))"
  by (simp add: ReadUInt32LE_def of_le32_def)

lemma RecvAll_zeros:
  assumes "k < 2 ^ 31"
  shows "\<exists>got n'. RecvAll (replicate k 0) (int k) n = Some (length got = k, got @ replicate (k - length got) 0, n') \<and>
    recv_rest n n' got \<and> length got \<le> k \<and> (length got < k \<longrightarrow> (\<forall>i. 0 < recvRes n i) \<longrightarrow> c_in n' = [])"
  using RecvAll_correct [of "replicate k 0" k n] assms by auto

text \<open>One packet of the receive thread, by what the stream holds.\<close>

lemma recv_packet_reads:
  obtains (short) got n1 where "recv_rest n n1 got" "length got < 4" "recv_packet n = Some (False, show_line ShowDisconnected n1)"
      "(\<forall>i. 0 < recvRes n i) \<Longrightarrow> c_in n1 = []"
    | (bad) hd n1 where "recv_rest n n1 hd" "length hd = 4"
      "unat (h_size (header_of hd)) < 4 \<or> 4096 < unat (h_size (header_of hd))"
      "recv_packet n = Some (False, show_line (ShowBadSize (h_size (header_of hd))) n1)"
    | (cut) hd bd n2 where "recv_rest n n2 (hd @ bd)" "length hd = 4" "length bd + 4 < unat (h_size (header_of hd))"
      "unat (h_size (header_of hd)) \<le> 4096" "recv_packet n = Some (False, show_line ShowCut n2)"
      "(\<forall>i. 0 < recvRes n i) \<Longrightarrow> c_in n2 = []"
    | (packet) hd bd n2 where "recv_rest n n2 (hd @ bd)" "length hd = 4" "unat (h_size (header_of hd)) = 4 + length bd"
      "length bd \<le> 4092" "recv_packet n = show_packet (h_id (header_of hd)) bd (int (length bd)) n2"
proof -
  obtain hd n1 where h: "RecvAll (replicate 4 0) 4 n = Some (length hd = 4, hd @ replicate (4 - length hd) 0, n1)"
    "recv_rest n n1 hd" "length hd \<le> 4" "length hd < 4 \<longrightarrow> (\<forall>i. 0 < recvRes n i) \<longrightarrow> c_in n1 = []"
    using RecvAll_zeros [of 4 n] by auto
  show thesis
  proof (cases "length hd = 4")
    case False
    then show thesis using short [of n1 hd] h by (simp add: recv_packet_def)
  next
    case True
    let ?sz = "h_size (header_of hd)"
    have rd: "ReadUInt16LE hd 0 = Some ?sz" "ReadUInt16LE hd 2 = Some (h_id (header_of hd))"
      using True by (simp_all add: ReadUInt16LE_eq header_of_def)
    have u: "uint ?sz = int (unat ?sz)" by simp
    show thesis
    proof (cases "unat ?sz < 4 \<or> 4096 < unat ?sz")
      case True
      then have "uint ?sz < 4 \<or> 4096 < uint ?sz" unfolding u by linarith
      then show thesis using bad [of n1 hd] h \<open>length hd = 4\<close> True rd by (simp add: recv_packet_def)
    next
      case False
      then obtain k where sz: "unat ?sz = 4 + k" using le_iff_add [of 4 "unat ?sz"] by auto
      then have k: "\<not> (uint ?sz < 4 \<or> 4096 < uint ?sz)" "uint ?sz - 4 = int k" "nat (int k) = k" "k \<le> 4092"
        using False unfolding u by linarith+
      then have lt: "k < 2 ^ 31" by simp
      obtain bd n2 where b: "RecvAll (replicate k 0) (int k) n1 = Some (length bd = k, bd @ replicate (k - length bd) 0, n2)"
        "recv_rest n1 n2 bd" "length bd \<le> k" "length bd < k \<longrightarrow> (\<forall>i. 0 < recvRes n1 i) \<longrightarrow> c_in n2 = []"
        using RecvAll_zeros [OF lt, of n1] by blast
      have rest: "recv_rest n n2 (hd @ bd)" using recv_rest_trans [OF h(2) b(2)] .
      have rr: "recvRes n1 = recvRes n" using h(2) by (simp add: recv_rest_def)
      have step0: "recv_packet n = (if uint ?sz < 4 \<or> 4096 < uint ?sz then Some (False, show_line (ShowBadSize ?sz) n1) else do {
          (ok, bd, n2) \<leftarrow> (if uint ?sz - 4 > 0 then RecvAll (replicate (nat (uint ?sz - 4)) 0) (uint ?sz - 4) n1 else Some (True, [], n1));
          if \<not> ok then Some (False, show_line ShowCut n2)
          else show_packet (h_id (header_of hd)) bd (uint ?sz - 4) n2 })"
        using h(1) True rd by (simp add: recv_packet_def Let_def)
      have step: "recv_packet n = do {
          (ok, bd, n2) \<leftarrow> (if int k > 0 then RecvAll (replicate k 0) (int k) n1 else Some (True, [], n1));
          if \<not> ok then Some (False, show_line ShowCut n2)
          else show_packet (h_id (header_of hd)) bd (int k) n2 }"
        unfolding step0 if_not_P [OF k(1)] k(2,3) by (rule refl)
      show thesis
      proof (cases "length bd = k")
        case True
        have "recv_packet n = show_packet (h_id (header_of hd)) bd (int k) n2"
        proof (cases "k = 0")
          case True
          moreover have "RecvAll [] 0 n1 = Some (True, [], n1)" by (simp add: RecvAll_def recv_all_loop.simps)
          ultimately have "bd = []" "n2 = n1" using b(1,3) by simp_all
          then show ?thesis unfolding step using True by simp
        next
          case False
          then show ?thesis unfolding step using b(1) \<open>length bd = k\<close> by simp
        qed
        then show thesis using packet [OF rest \<open>length hd = 4\<close>] True sz k(4) by simp
      next
        case False
        then have "0 < k" using b(3) by linarith
        then have "recv_packet n = Some (False, show_line ShowCut n2)" unfolding step using b(1) False by simp
        then show thesis using cut [OF rest \<open>length hd = 4\<close>] False b(3,4) sz k(4) rr by auto
      qed
    qed
  qed
qed

text \<open>Every packet takes at least its header from the stream, so the receive loop ends.\<close>

lemma recv_packet_progress:
  assumes "recv_packet n = Some (True, n')"
  shows "length (c_in n') < length (c_in n)"
proof (cases n rule: recv_packet_reads)
  case (packet hd bd n2)
  then have "c_in n' = c_in n2" using assms show_packet_in by metis
  then show ?thesis using packet(1,2) by (simp add: recv_rest_def)
qed (use assms in auto)

text \<open>
  \<open>RecvThread\<close>: \<open>stopped i\<close> is whether the other thread has cleared \<open>running\<close> before the i-th test.
\<close>

function RecvThread :: "(nat \<Rightarrow> bool) \<Rightarrow> nat \<Rightarrow> cnet \<Rightarrow> cnet option" where
  "RecvThread stopped i n =
     (if stopped i then Some n
      else (case recv_packet n of
          None \<Rightarrow> None
        | Some (goes_on, n1) \<Rightarrow> if goes_on then RecvThread stopped (Suc i) n1 else Some n1))"
  by pat_completeness auto
termination
  by (relation "measure (\<lambda>(stopped, i, n). length (c_in n))") (auto dest: recv_packet_progress)

declare RecvThread.simps [simp del]

section \<open>The console\<close>

definition AskString :: "bytes \<Rightarrow> bytes \<Rightarrow> bytes" where
  "AskString defaultValue line = (let input = Trim line in if input = [] then defaultValue else input)"

text \<open>
  \<open>std::stoi\<close>: white space, a sign, digits; what follows is ignored. \<open>None\<close> is an exception: no
  digits, or a value outside \<open>int\<close>.
\<close>

definition digits_value :: "bytes \<Rightarrow> int" where
  "digits_value ds = foldl (\<lambda>v d. 10 * v + (uint d - 48)) 0 ds"

definition stoi :: "bytes \<Rightarrow> int option" where
  "stoi s =
     (let t = dropWhile (\<lambda>c. c = 32 \<or> (9 \<le> c \<and> c \<le> 13)) s;
          neg = (t \<noteq> [] \<and> hd t = 45);
          u = (if t \<noteq> [] \<and> (hd t = 45 \<or> hd t = 43) then tl t else t);
          ds = takeWhile (\<lambda>c. 48 \<le> c \<and> c \<le> 57) u;
          v = (if neg then - digits_value ds else digits_value ds)
      in if ds = [] \<or> \<not> int_ok v then None else Some v)"

text \<open>The loop over the lines typed; at the end of the input \<open>getline\<close> leaves an empty line.\<close>

fun AskInt :: "int \<Rightarrow> bytes list \<Rightarrow> int \<times> bytes list" where
  "AskInt defaultValue [] = (defaultValue, [])"
| "AskInt defaultValue (line # rest) =
     (let input = Trim line in
      if input = [] then (defaultValue, rest)
      else (case stoi input of Some v \<Rightarrow> (v, rest) | None \<Rightarrow> AskInt defaultValue rest))"

definition is_quit :: "bytes \<Rightarrow> bool" where
  "is_quit command \<longleftrightarrow> command = ascii ''/quit'' \<or> command = ascii ''/exit'' \<or> command = ascii ''quit'' \<or> command = ascii ''exit''"

text \<open>The command loop, over the lines typed.\<close>

fun command_loop :: "(nat \<Rightarrow> bool) \<Rightarrow> nat \<Rightarrow> bytes list \<Rightarrow> cnet \<Rightarrow> cnet option" where
  "command_loop stopped i [] n = Some n"
| "command_loop stopped i (line # rest) n =
     (if stopped i then Some n
      else let msg = Trim line in
        if msg = [] then command_loop stopped (Suc i) rest n
        else let command = ToLowerAscii msg in
          if is_quit command then Some n
          else if command = ascii ''/help'' then command_loop stopped (Suc i) rest (show_line ShowHelp n)
          else if command = ascii ''/clear'' \<or> command = ascii ''cls'' then
            command_loop stopped (Suc i) rest (show_line ShowCleared n)
          else if hd msg = 47 then command_loop stopped (Suc i) rest (show_line ShowUnknownCommand n)
          else (case client_SendChat msg n of
              None \<Rightarrow> None
            | Some (ok, n1) \<Rightarrow>
                if \<not> ok then Some (show_line ShowSendFailed n1)
                else command_loop stopped (Suc i) rest (show_line (ShowMe msg) n1)))"

text \<open>\<open>main\<close> once connected: login, entering the room, then the command loop.\<close>

definition client_main :: "bytes \<Rightarrow> i32 \<Rightarrow> (nat \<Rightarrow> bool) \<Rightarrow> bytes list \<Rightarrow> cnet \<Rightarrow> cnet option" where
  "client_main nickname roomId stopped input n = do {
     (ok, n1) \<leftarrow> SendLogin nickname n;
     if \<not> ok then Some (show_line ShowLoginFailed n1)
     else do {
       (ok, n2) \<leftarrow> SendEnterRoom roomId n1;
       if \<not> ok then Some (show_line ShowEnterFailed n2)
       else command_loop stopped 0 input (show_line (ShowJoined nickname roomId) n2)
     }
   }"

end
