(* ===== verification/Client_Properties.thy ===== *)
theory Client_Properties
  imports Client Game_Properties
begin

text \<open>
  The console client against the server: its requests are packets the server cuts out of the
  stream and knows, and the chat packets of the server are shown as they were sent, however the
  network cuts the stream. The receive thread ends and is memory safe on every stream.
\<close>

section \<open>Sending\<close>

text \<open>What Winsock documents of \<open>send\<close>: an error, or a number of bytes that was asked for.\<close>

definition sends_ok :: "cnet \<Rightarrow> bool" where
  "sends_ok n \<longleftrightarrow> (\<forall>i k. 0 < k \<longrightarrow> sendRes n i k = SOCKET_ERROR \<or> (0 \<le> sendRes n i k \<and> sendRes n i k \<le> k))"

definition sends_all :: "cnet \<Rightarrow> bool" where
  "sends_all n \<longleftrightarrow> (\<forall>i k. 0 < k \<longrightarrow> 0 < sendRes n i k \<and> sendRes n i k \<le> k)"

lemma sends_all_ok: "sends_all n \<Longrightarrow> sends_ok n"
  by (auto simp: sends_all_def sends_ok_def dest: less_imp_le)

text \<open>The connection after some bytes were taken.\<close>

definition sent_rest :: "cnet \<Rightarrow> cnet \<Rightarrow> bytes \<Rightarrow> bool" where
  "sent_rest n n' out \<longleftrightarrow> c_out n' = c_out n @ out \<and> c_shown n' = c_shown n \<and> c_in n' = c_in n \<and>
     sendRes n' = sendRes n \<and> recvRes n' = recvRes n"

lemma sent_rest_trans: "sent_rest n m a \<Longrightarrow> sent_rest m k b \<Longrightarrow> sent_rest n k (a @ b)"
  by (simp add: sent_rest_def)

lemma sent_rest_sends: "sent_rest n n' out \<Longrightarrow> sends_ok n' = sends_ok n" "sent_rest n n' out \<Longrightarrow> sends_all n' = sends_all n"
  by (simp_all add: sent_rest_def sends_ok_def sends_all_def)

lemma net_send_rest: "net_send d k n = (r, n1) \<Longrightarrow> sent_rest n n1 (take (nat r) d) \<and> r = sendRes n (c_sends n) k"
  by (auto simp: net_send_def sent_rest_def Let_def)

lemma send_loop_correct:
  assumes "sends_ok n" and "len = int (length data)" and "t \<le> length data"
  shows "\<exists>ok k n'. send_loop data len (int t) n = Some (ok, n') \<and> t \<le> k \<and> k \<le> length data \<and>
    sent_rest n n' (take (k - t) (drop t data)) \<and> (ok \<longleftrightarrow> k = length data) \<and> (sends_all n \<longrightarrow> ok)"
  using assms(1,3)
proof (induction "length data - t" arbitrary: t n rule: less_induct)
  case less
  show ?case
  proof (cases "t < length data")
    case False
    then have "t = length data" using less.prems(2) by simp
    then show ?thesis using assms(2) by (subst send_loop.simps) (auto simp: sent_rest_def)
  next
    case True
    obtain r n1 where r: "net_send (drop t data) (len - int t) n = (r, n1)" by (cases "net_send (drop t data) (len - int t) n")
    note nr = net_send_rest [OF r]
    have lt: "int t < len" "0 < len - int t" using True assms(2) by simp_all
    then have res: "r = SOCKET_ERROR \<or> (0 \<le> r \<and> r \<le> len - int t)" "sends_all n \<longrightarrow> 0 < r \<and> r \<le> len - int t"
      using nr less.prems(1) by (auto simp: sends_ok_def sends_all_def)
    show ?thesis
    proof (cases "r = SOCKET_ERROR \<or> r = 0")
      case failed: True
      then have n0: "nat r = 0" by (auto simp: SOCKET_ERROR_def)
      have "send_loop data len (int t) n = Some (False, n1)"
        by (subst send_loop.simps) (use lt(1) r failed in \<open>simp only: if_True nat_int Let_def prod.case\<close>)
      moreover have "\<not> sends_all n" using res(2) failed by (auto simp: SOCKET_ERROR_def)
      ultimately show ?thesis using nr n0 True by (intro exI [of _ False] exI [of _ t] exI [of _ n1]) simp
    next
      case ok: False
      then have rr: "0 < r" "r \<le> len - int t" using res(1) by auto
      let ?t = "t + nat r"
      have t: "int ?t = int t + r" "?t \<le> length data" "length data - ?t < length data - t"
        using rr assms(2) True by auto
      have step: "send_loop data len (int t) n = send_loop data len (int ?t) n1"
        unfolding t(1)
        by (subst send_loop.simps) (use lt(1) r ok in \<open>simp only: if_True if_False nat_int Let_def prod.case\<close>)
      have s1: "sent_rest n n1 (take (nat r) (drop t data))" using nr by (rule conjunct1)
      have "sends_ok n1" using less.prems(1) sent_rest_sends [OF s1] by simp
      from less.hyps [OF t(3) this t(2)] obtain ok k n' where ih: "send_loop data len (int ?t) n1 = Some (ok, n')"
        "?t \<le> k" "k \<le> length data" "sent_rest n1 n' (take (k - ?t) (drop ?t data))" "ok \<longleftrightarrow> k = length data"
        "sends_all n1 \<longrightarrow> ok" by blast
      have "take (nat r) (drop t data) @ take (k - ?t) (drop ?t data) = take (k - t) (drop t data)"
        using ih(2) take_add [of "nat r" "k - ?t" "drop t data"] by (simp add: add.commute)
      then have "sent_rest n n' (take (k - t) (drop t data))" using sent_rest_trans [OF s1 ih(4)] by simp
      then show ?thesis using step ih sent_rest_sends [OF s1] by (intro exI [of _ ok] exI [of _ k] exI [of _ n']) auto
    qed
  qed
qed

text \<open>Every byte, or a proper prefix and failure.\<close>

lemma SendAll_correct:
  assumes "sends_ok n"
  shows "\<exists>ok k n'. SendAll data (int (length data)) n = Some (ok, n') \<and> k \<le> length data \<and>
    sent_rest n n' (take k data) \<and> (ok \<longleftrightarrow> k = length data) \<and> (sends_all n \<longrightarrow> ok)"
  using send_loop_correct [OF assms refl le0, of data] by (auto simp: SendAll_def)

section \<open>Requests\<close>

lemma int_of_size_small: "k < 2 ^ 31 \<Longrightarrow> int_of_size k = int k"
  by (simp add: int_of_size_def signed_of_nat signed_take_bit_int_eq_self)

lemma write_le16: "WriteUInt16LE (a # b # cs) 0 v = Some (le16 v @ cs)"
proof -
  have "ucast (v AND 0xFF) = (ucast v :: u8)" "ucast (drop_bit 8 v AND 0xFF) = (ucast (drop_bit 8 v) :: u8)"
    by (rule mask_byte)+
  then show ?thesis by (simp add: WriteUInt16LE_def le16_def)
qed

lemma write_le16_at2: "WriteUInt16LE (a # b # c # d # cs) 2 v = Some (a # b # le16 v @ cs)"
proof -
  have "ucast (v AND 0xFF) = (ucast v :: u8)" "ucast (drop_bit 8 v AND 0xFF) = (ucast (drop_bit 8 v) :: u8)"
    by (rule mask_byte)+
  moreover have "nat 2 = Suc (Suc 0)" "Suc (Suc 0) + 1 = Suc (Suc (Suc 0))" by simp_all
  ultimately show ?thesis by (simp add: WriteUInt16LE_def le16_def)
qed

lemma write_le32: "WriteInt32LE (replicate 4 0) 0 v = Some (le32 v)"
proof -
  have "ucast (signed_drop_bit k v AND 0xFF) = (ucast (drop_bit k v) :: u8)" if "k \<le> 24" for k
    unfolding mask_byte using that by (intro bit_word_eqI) (auto simp: bit_simps bit_signed_drop_bit_iff)
  then show ?thesis
    by (simp add: WriteInt32LE_def le32_def mask_byte numeral_eq_Suc)
qed

text \<open>A request goes out as one packet, or not at all when it is too long.\<close>

lemma client_SendPacket_sent:
  assumes "sends_ok n" and "length b \<le> 4092"
  shows "\<exists>ok k n'. client_SendPacket pid (Some b) (int (length b)) n = Some (ok, n') \<and> k \<le> 4 + length b \<and>
    sent_rest n n' (take k (packet_bytes pid b)) \<and> (ok \<longleftrightarrow> k = 4 + length b) \<and> (sends_all n \<longrightarrow> ok)"
proof -
  let ?m = "length b"
  have z: "replicate (nat (4 + int ?m)) 0 = (0 :: u8) # 0 # 0 # 0 # replicate ?m 0"
    by (simp add: nat_add_distrib numeral_eq_Suc)
  have u: "unat (size_of_int (int ?m)) = ?m" using assms(2) by (simp add: unat_size_of_int)
  have h: "word_of_int (4 + int ?m) = (of_nat (4 + ?m) :: u16)" by simp
  have cp: "memcpy (le16 (of_nat (4 + ?m)) @ le16 pid @ replicate ?m 0) 4 b 0 (size_of_int (int ?m)) = Some (packet_bytes pid b)"
    using u by (simp add: memcpy_def packet_bytes_def header_bytes_def)
  have w: "WriteUInt16LE (replicate (nat (4 + int ?m)) 0) 0 (word_of_int (4 + int ?m)) =
      Some (le16 (of_nat (4 + ?m)) @ 0 # 0 # replicate ?m 0)"
    unfolding z h by (rule write_le16)
  have w2: "WriteUInt16LE (le16 (of_nat (4 + ?m)) @ 0 # 0 # replicate ?m 0) 2 pid =
      Some (le16 (of_nat (4 + ?m)) @ le16 pid @ replicate ?m 0)"
    using write_le16_at2 [of _ _ 0 0 "replicate ?m 0" pid] by (simp add: le16_def del: of_nat_add)
  have "client_SendPacket pid (Some b) (int ?m) n = SendAll (packet_bytes pid b) (int (length (packet_bytes pid b))) n"
  proof (cases "b = []")
    case True
    then show ?thesis using w w2 assms(2)
      by (simp add: client_SendPacket_def int_ok_def int_of_size_small packet_bytes_def header_bytes_def)
  next
    case False
    have "int_ok (4 + int ?m)" "int_of_size (length (packet_bytes pid b)) = int (length (packet_bytes pid b))"
      using assms(2) by (simp_all add: int_ok_def int_of_size_small)
    moreover have "\<not> (4 + int ?m < 4 \<or> 4 + int ?m > 4096)" "0 < int ?m \<and> Some b \<noteq> None" using assms(2) False by simp_all
    ultimately show ?thesis using w w2 cp
      by (simp only: client_SendPacket_def Let_def option.sel bind.bind_lunit if_True if_False HOL.simp_thms)
  qed
  then show ?thesis using SendAll_correct [OF assms(1), of "packet_bytes pid b"] by simp
qed

lemma client_SendPacket_too_long:
  assumes "4092 < k" and "k < 2 ^ 30"
  shows "client_SendPacket pid b (int k) n = Some (False, show_line (ShowSizeInvalid (4 + int k)) n)"
  using assms by (simp add: client_SendPacket_def int_ok_def Let_def)

lemma SendStringPacket_sent:
  assumes "sends_ok n" and "length b \<le> 4092"
  shows "\<exists>ok k n'. SendStringPacket pid b n = Some (ok, n') \<and> k \<le> 4 + length b \<and>
    sent_rest n n' (take k (packet_bytes pid b)) \<and> (ok \<longleftrightarrow> k = 4 + length b) \<and> (sends_all n \<longrightarrow> ok)"
  using client_SendPacket_sent [OF assms, of pid] assms(2) by (simp add: SendStringPacket_def int_of_size_small)

lemma SendEnterRoom_sent:
  assumes "sends_ok n"
  shows "\<exists>ok k n'. SendEnterRoom r n = Some (ok, n') \<and> k \<le> 8 \<and> sent_rest n n' (take k (packet_bytes 4 (le32 r))) \<and>
    (ok \<longleftrightarrow> k = 8) \<and> (sends_all n \<longrightarrow> ok)"
  using client_SendPacket_sent [OF assms, of "le32 r" 4] by (simp add: SendEnterRoom_def write_le32 int_of_size_small)

text \<open>When the network takes everything, a request is exactly its packet.\<close>

lemma SendStringPacket_all:
  assumes "sends_all n" and "length b \<le> 4092"
  shows "\<exists>n'. SendStringPacket pid b n = Some (True, n') \<and> sent_rest n n' (packet_bytes pid b)"
  using SendStringPacket_sent [OF sends_all_ok [OF assms(1)] assms(2), of pid] assms(1) by auto

lemma SendEnterRoom_all:
  assumes "sends_all n"
  shows "\<exists>n'. SendEnterRoom r n = Some (True, n') \<and> sent_rest n n' (packet_bytes 4 (le32 r))"
  using SendEnterRoom_sent [OF sends_all_ok [OF assms], of r] assms by auto

section \<open>What the user types\<close>

lemma find_first_not_eq: "find_first_not P v = (if dropWhile P v = [] then None else Some (length (takeWhile P v)))"
  by (induction v) auto

lemma takeWhile_shorter: "\<exists>x \<in> set xs. \<not> P x \<Longrightarrow> length (takeWhile P xs) < length xs"
  by (induction xs) auto

lemma Trim_eq: "Trim v = rev (dropWhile is_blank (rev (dropWhile is_blank v)))"
proof (cases "dropWhile is_blank v = []")
  case True
  show ?thesis unfolding Trim_def find_first_not_eq True by simp
next
  case False
  let ?b = "length (takeWhile is_blank v)" and ?e = "length (takeWhile is_blank (rev v))"
  have c: "hd (dropWhile is_blank v) \<in> set (dropWhile is_blank v)" "\<not> is_blank (hd (dropWhile is_blank v))"
    using hd_in_set [OF False] hd_dropWhile [OF False] by auto
  have "\<exists>c \<in> set v. \<not> is_blank c" using False by (simp only: dropWhile_eq_Nil_conv) blast
  then have r: "dropWhile is_blank (rev v) \<noteq> []" by (simp only: dropWhile_eq_Nil_conv set_rev) blast
  have d: "drop ?b v = dropWhile is_blank v" by (rule dropWhile_eq_drop [symmetric])
  have tr: "takeWhile is_blank (rev v) = takeWhile is_blank (rev (dropWhile is_blank v))"
  proof -
    have "rev v = rev (dropWhile is_blank v) @ rev (takeWhile is_blank v)"
      by (metis rev_append takeWhile_dropWhile_id)
    moreover have "takeWhile is_blank (rev (dropWhile is_blank v) @ rev (takeWhile is_blank v)) =
        takeWhile is_blank (rev (dropWhile is_blank v))"
      using c takeWhile_append1 [of "hd (dropWhile is_blank v)" "rev (dropWhile is_blank v)" is_blank] by simp
    ultimately show ?thesis by simp
  qed
  have bl: "?b + length (dropWhile is_blank v) = length v"
    by (metis length_append takeWhile_dropWhile_id)
  have el: "?e < length (dropWhile is_blank v)"
    unfolding tr using takeWhile_shorter [of "rev (dropWhile is_blank v)" is_blank] c by auto
  have "Trim v = take (length v - 1 - ?e - ?b + 1) (dropWhile is_blank v)"
    using False r by (simp add: Trim_def find_last_not_def find_first_not_eq d)
  also have "length v - 1 - ?e - ?b + 1 = length (dropWhile is_blank v) - ?e" using bl el by linarith
  also have "take (length (dropWhile is_blank v) - ?e) (dropWhile is_blank v) =
      rev (drop ?e (rev (dropWhile is_blank v)))" by (simp add: rev_drop)
  also have "drop ?e (rev (dropWhile is_blank v)) = dropWhile is_blank (rev (dropWhile is_blank v))"
    unfolding tr by (rule dropWhile_eq_drop [symmetric])
  finally show ?thesis .
qed

text \<open>The messages among the lines typed, up to the command that ends the session.\<close>

fun spoken :: "bytes list \<Rightarrow> bytes list" where
  "spoken [] = []"
| "spoken (line # rest) =
     (let msg = Trim line; command = ToLowerAscii msg in
      if msg = [] then spoken rest
      else if is_quit command then []
      else if command = ascii ''cls'' \<or> hd msg = 47 then spoken rest
      else msg # spoken rest)"

lemma encode_mk_packet: "encode_packet (mk_packet i b) = packet_bytes (pkt i) b"
  by (simp add: encode_packet_def mk_packet_def packet_bytes_def)

lemma slash_commands: "ToLowerAscii msg = ascii ''/help'' \<or> ToLowerAscii msg = ascii ''/clear'' \<Longrightarrow> hd msg = 47"
proof -
  assume "ToLowerAscii msg = ascii ''/help'' \<or> ToLowerAscii msg = ascii ''/clear''"
  then have h: "(if 65 \<le> hd msg \<and> hd msg \<le> 90 then hd msg - 65 + 97 else hd msg) = 47"
    by (cases msg) (auto simp: ToLowerAscii_def ascii_def of_char_def)
  show "hd msg = 47"
  proof (cases "65 \<le> hd msg \<and> hd msg \<le> 90")
    case True
    with h have "hd msg + 32 = 47" by simp
    then have "hd msg = 47 - 32" by (simp only: eq_diff_eq)
    with True show ?thesis by simp
  next
    case False
    with h show ?thesis by (simp only: if_not_P if_False)
  qed
qed

lemma command_loop_sends:
  assumes "sends_all n" and "\<And>i. \<not> stopped i" and "\<forall>m \<in> set (spoken ls). length m \<le> 4092"
  shows "\<exists>n'. command_loop stopped i ls n = Some n' \<and>
    c_out n' = c_out n @ concat (map (\<lambda>m. packet_bytes 2 m) (spoken ls)) \<and> sends_all n'"
  using assms(1,3)
proof (induction ls arbitrary: i n)
  case Nil
  then show ?case by simp
next
  case (Cons l ls)
  let ?m = "Trim l" and ?c = "ToLowerAscii (Trim l)"
  have show_ok: "sends_all (show_line x m) = sends_all m" for x m by (simp add: sends_all_def)
  have cmd: "\<exists>x. command_loop stopped i (l # ls) n = command_loop stopped (Suc i) ls (show_line x n)"
    if "?m \<noteq> []" "\<not> is_quit ?c" "?c = ascii ''cls'' \<or> hd ?m = 47"
  proof -
    consider "?c = ascii ''/help''" | "?c \<noteq> ascii ''/help''" "?c = ascii ''/clear'' \<or> ?c = ascii ''cls''"
      | "?c \<noteq> ascii ''/help''" "?c \<noteq> ascii ''/clear''" "?c \<noteq> ascii ''cls''" by blast
    then show ?thesis
    proof cases
      case 1
      then show ?thesis using that assms(2) by (intro exI [of _ ShowHelp]) (simp add: Let_def)
    next
      case 2
      then show ?thesis using that assms(2) by (intro exI [of _ ShowCleared]) (simp add: Let_def)
    next
      case 3
      then show ?thesis using that assms(2) by (intro exI [of _ ShowUnknownCommand]) (simp add: Let_def)
    qed
  qed
  consider (blank) "?m = []" | (quit) "?m \<noteq> []" "is_quit ?c"
    | (command) x where "?m \<noteq> []" "\<not> is_quit ?c" "?c = ascii ''cls'' \<or> hd ?m = 47"
        "command_loop stopped i (l # ls) n = command_loop stopped (Suc i) ls (show_line x n)"
    | (chat) "?m \<noteq> []" "\<not> is_quit ?c" "?c \<noteq> ascii ''cls''" "hd ?m \<noteq> 47"
    using cmd by blast
  then show ?case
  proof cases
    case blank
    then show ?thesis using Cons.IH [of n "Suc i"] Cons.prems assms(2) by simp
  next
    case quit
    then show ?thesis using Cons.prems assms(2) by (auto simp: Let_def)
  next
    case command
    then have sp: "spoken (l # ls) = spoken ls" by (auto simp: Let_def)
    with Cons.IH [of "show_line x n" "Suc i"] Cons.prems show ?thesis unfolding command(4) by (simp add: show_ok)
  next
    case chat
    then have sp: "spoken (l # ls) = ?m # spoken ls" by (simp add: Let_def)
    then have len: "length ?m \<le> 4092" using Cons.prems(2) by simp
    obtain n1 where n1: "client_SendChat ?m n = Some (True, n1)" "sent_rest n n1 (packet_bytes 2 ?m)"
      using SendStringPacket_all [OF Cons.prems(1) len, of "pkt PKT_CS_CHAT"] chat by (auto simp: client_SendChat_def)
    let ?n2 = "show_line (ShowMe ?m) n1"
    have c: "?c \<noteq> ascii ''/help''" "?c \<noteq> ascii ''/clear''" using chat slash_commands [of ?m] by blast+
    have step: "command_loop stopped i (l # ls) n = command_loop stopped (Suc i) ls ?n2"
      using chat c n1(1) assms(2) by (simp add: Let_def)
    have "sends_all ?n2" using Cons.prems(1) sent_rest_sends(2) [OF n1(2)] by (simp add: show_ok)
    with Cons.IH [of ?n2 "Suc i"] Cons.prems(2) sp obtain n' where n': "command_loop stopped (Suc i) ls ?n2 = Some n'"
      "c_out n' = c_out ?n2 @ concat (map (\<lambda>m. packet_bytes 2 m) (spoken ls))" "sends_all n'" by auto
    have "c_out n1 = c_out n @ packet_bytes 2 ?m" using n1(2) by (simp add: sent_rest_def)
    with n' sp show ?thesis unfolding step by simp
  qed
qed

text \<open>What the requests of a session are on the wire: login, room, then the messages typed.\<close>

lemma client_main_sends:
  assumes "sends_all n" and "c_out n = []" and "length nickname \<le> 4092" and "\<forall>m \<in> set (spoken input). length m \<le> 4092"
  shows "\<exists>n'. client_main nickname room (\<lambda>_. False) input n = Some n' \<and>
    frames (c_out n') = (mk_packet PKT_CS_LOGIN nickname # mk_packet PKT_CS_ENTER_ROOM (le32 room) #
      map (mk_packet PKT_CS_CHAT) (spoken input), [], False) \<and>
    list_all (\<lambda>p. packet_ok p \<and> IsKnownPacketId (h_id (header p))) (fst (frames (c_out n')))"
proof -
  obtain n1 where n1: "SendLogin nickname n = Some (True, n1)" "sent_rest n n1 (packet_bytes (pkt PKT_CS_LOGIN) nickname)"
    using SendStringPacket_all [OF assms(1,3), of "pkt PKT_CS_LOGIN"] by (auto simp: SendLogin_def)
  have a1: "sends_all n1" using sent_rest_sends(2) [OF n1(2)] assms(1) by simp
  obtain n2 where n2: "SendEnterRoom room n1 = Some (True, n2)" "sent_rest n1 n2 (packet_bytes 4 (le32 room))"
    using SendEnterRoom_all [OF a1, of room] by blast
  let ?n3 = "show_line (ShowJoined nickname room) n2"
  have "sends_all ?n3" using sent_rest_sends(2) [OF n2(2)] a1 by (simp add: sends_all_def)
  from command_loop_sends [OF this _ assms(4), of "\<lambda>_. False" 0] obtain n' where n': "command_loop (\<lambda>_. False) 0 input ?n3 = Some n'"
    "c_out n' = c_out ?n3 @ concat (map (\<lambda>m. packet_bytes 2 m) (spoken input))" by auto
  let ?ps = "mk_packet PKT_CS_LOGIN nickname # mk_packet PKT_CS_ENTER_ROOM (le32 room) # map (mk_packet PKT_CS_CHAT) (spoken input)"
  have run: "client_main nickname room (\<lambda>_. False) input n = Some n'"
    using n1(1) n2(1) n'(1) by (simp add: client_main_def)
  have "c_out n' = concat (map encode_packet ?ps) @ []"
    using n1(2) n2(2) n'(2) assms(2) by (simp add: sent_rest_def encode_mk_packet comp_def)
  moreover have ok: "list_all packet_ok ?ps" using assms(3,4) by (auto simp: list_all_iff mk_packet_ok)
  moreover have "frames (concat (map encode_packet ?ps) @ []) = (?ps, [], False)"
    unfolding frames_encode_all [OF ok] by (simp add: frames_wait)
  ultimately have fr: "frames (c_out n') = (?ps, [], False)" by (simp only:)
  have "list_all (\<lambda>p. packet_ok p \<and> IsKnownPacketId (h_id (header p))) ?ps"
    using ok by (auto simp: list_all_iff IsKnownPacketId_def)
  with run fr show ?thesis by (intro exI [of _ n']) (simp only: fst_conv simp_thms)
qed

definition demo_cnet :: cnet where
  "demo_cnet = \<lparr>c_out = [], c_sends = 0, sendRes = (\<lambda>i k. if even i then 1 else k), c_in = [], c_recvs = 0,
     recvRes = (\<lambda>i. i + 1), c_shown = []\<rparr>"

section \<open>Receiving\<close>

text \<open>The parser as a decision: the two lengths must fit the body; bytes behind the message are ignored.\<close>

lemma ParseServerChat_eq:
  assumes "length d < 2 ^ 31"
  shows "ParseServerChat d = Some (
    if length d < 8 then None
    else let nl = unat (of_le16 (drop 4 d)) in
      if length d < 8 + nl then None
      else let ml = unat (of_le16 (drop (6 + nl) d)) in
        if length d < 8 + nl + ml then None
        else Some (of_le32 d, take nl (drop 6 d), take ml (drop (8 + nl) d)))"
proof (cases "length d < 8")
  case True
  then show ?thesis by (simp add: ParseServerChat_def)
next
  case False
  let ?nl = "of_le16 (drop 4 d)"
  have sz: "int_of_size (length d) = int (length d)" using assms by (simp add: int_of_size_small)
  have r: "ReadUInt32LE d 0 = Some (of_le32 d)" "ReadUInt16LE d 4 = Some ?nl"
    using False by (simp_all add: ReadUInt32LE_eq ReadUInt16LE_eq)
  have u: "uint ?nl = int (unat ?nl)" by simp
  show ?thesis
  proof (cases "length d < 8 + unat ?nl")
    case True
    then have "6 + uint ?nl + 2 > int (length d)" unfolding u by linarith
    then show ?thesis using False True r sz by (simp add: ParseServerChat_def Let_def)
  next
    case nl: False
    let ?ml = "of_le16 (drop (6 + unat ?nl) d)"
    have c: "\<not> 6 + uint ?nl + 2 > int (length d)" using nl unfolding u by linarith
    have o: "nat (6 + uint ?nl) = 6 + unat ?nl" "nat (6 + uint ?nl + 2) = 8 + unat ?nl" unfolding u by linarith+
    have r2: "ReadUInt16LE d (6 + uint ?nl) = Some ?ml"
      using ReadUInt16LE_eq [of "6 + uint ?nl" d] nl o(1) by simp
    have v: "uint ?ml = int (unat ?ml)" by simp
    have rb: "read_bytes (drop 6 d) (unat ?nl) = Some (take (unat ?nl) (drop 6 d))" using nl by simp
    have p: "ParseServerChat d = (if 6 + uint ?nl + 2 + uint ?ml > int (length d) then Some None
        else do { message \<leftarrow> read_bytes (drop (8 + unat ?nl) d) (unat ?ml); Some (Some (of_le32 d, take (unat ?nl) (drop 6 d), message)) })"
      using False by (simp only: ParseServerChat_def sz r r2 rb Let_def bind.bind_lunit if_False if_not_P [OF c] o)
    have g: "(6 + uint ?nl + 2 + uint ?ml > int (length d)) = (length d < 8 + unat ?nl + unat ?ml)"
      unfolding u v by linarith
    show ?thesis
    proof (cases "length d < 8 + unat ?nl + unat ?ml")
      case True
      then show ?thesis unfolding p g using False nl by (simp add: Let_def)
    next
      case ml: False
      then have "read_bytes (drop (8 + unat ?nl) d) (unat ?ml) = Some (take (unat ?ml) (drop (8 + unat ?nl) d))" by simp
      then show ?thesis unfolding p g if_not_P [OF ml] using False nl ml by (simp only: Let_def bind.bind_lunit if_False)
    qed
  qed
qed

lemma ParseServerChat_layout:
  assumes "length nm < 65536" and "length msg < 65536"
  shows "ParseServerChat (chat_layout i nm msg) = Some (Some (i, nm, msg))"
proof -
  let ?d = "chat_layout i nm msg"
  have l: "unat (of_nat (length nm) :: u16) = length nm" "unat (of_nat (length msg) :: u16) = length msg"
    using assms by (simp_all add: unat_of_nat_small)
  have d: "of_le32 ?d = i" "of_le16 (drop 4 ?d) = of_nat (length nm)"
    "of_le16 (drop (6 + length nm) ?d) = of_nat (length msg)" "take (length nm) (drop 6 ?d) = nm"
    "take (length msg) (drop (8 + length nm) ?d) = msg"
    by (simp_all add: chat_layout_def codec_simps)
  have "length ?d < 2 ^ 31" using assms by simp
  then show ?thesis by (simp add: ParseServerChat_eq d l Let_def)
qed

lemma le32_of_le32: "length bs = 4 \<Longrightarrow> le32 (of_le32 bs) = bs"
proof -
  assume "length bs = 4"
  then obtain a b c d where bs: "bs = [a, b, c, d]" by (auto simp: length_Suc_conv numeral_eq_Suc)
  let ?w = "ucast a OR push_bit 8 (ucast b) OR push_bit 16 (ucast c) OR push_bit 24 (ucast d) :: u32"
  have "ucast ?w = a" "ucast (drop_bit 8 ?w) = b" "ucast (drop_bit 16 ?w) = c" "ucast (drop_bit 24 ?w) = d"
    by (rule bit_word_eqI; auto simp: bit_simps dest: bit_imp_le_length)+
  then show ?thesis by (simp add: le32_def of_le32_def bs)
qed

text \<open>C22: The client's parser of chat packets never reads outside the body, whatever the bytes are, and
  accepts exactly the bodies that begin with the layout the server writes: it returns a sender, a
  name and a message precisely when the body is their layout, possibly with bytes behind it.\<close>

theorem chat_parser_is_exact:
  assumes "length d < 2 ^ 31"
  shows "ParseServerChat d \<noteq> None \<and> (ParseServerChat d = Some (Some (i, nm, msg)) \<longleftrightarrow>
    length nm < 65536 \<and> length msg < 65536 \<and> (\<exists>rest. d = chat_layout i nm msg @ rest))"
proof -
  note eq = ParseServerChat_eq [OF assms]
  have "ParseServerChat d = Some (Some (i, nm, msg))" if b: "length nm < 65536" "length msg < 65536" "d = chat_layout i nm msg @ rest" for rest
  proof -
    have l: "unat (of_nat (length nm) :: u16) = length nm" "unat (of_nat (length msg) :: u16) = length msg"
      using b by (simp_all add: unat_of_nat_small)
    have "of_le32 d = i" "of_le16 (drop 4 d) = of_nat (length nm)" "of_le16 (drop (6 + length nm) d) = of_nat (length msg)"
      "take (length nm) (drop 6 d) = nm" "take (length msg) (drop (8 + length nm) d) = msg" "8 + length nm + length msg \<le> length d"
      by (simp_all add: b(3) chat_layout_def codec_simps)
    then show ?thesis by (simp add: eq l Let_def)
  qed
  moreover have "length nm < 65536 \<and> length msg < 65536 \<and> (\<exists>rest. d = chat_layout i nm msg @ rest)"
    if p: "ParseServerChat d = Some (Some (i, nm, msg))"
  proof -
    let ?nl = "of_le16 (drop 4 d)" and ?ml = "of_le16 (drop (6 + unat (of_le16 (drop 4 d))) d)"
    have r: "8 + unat ?nl + unat ?ml \<le> length d" "i = of_le32 d" "nm = take (unat ?nl) (drop 6 d)"
      "msg = take (unat ?ml) (drop (8 + unat ?nl) d)"
      using p by (auto simp: eq Let_def split: if_split_asm)
    have len: "length nm = unat ?nl" "length msg = unat ?ml" using r by simp_all
    have "le32 i = take 4 d" using le32_of_le32 [of "take 4 d"] r(1,2) by simp
    moreover have "le16 (of_nat (length nm)) = take 2 (drop 4 d)"
      using le16_of_le16 [of "take 2 (drop 4 d)"] r(1) by (simp add: len)
    moreover have "le16 (of_nat (length msg)) = take 2 (drop (6 + unat ?nl) d)"
      using le16_of_le16 [of "take 2 (drop (6 + unat ?nl) d)"] r(1) by (simp add: len)
    moreover have "take 4 d @ take 2 (drop 4 d) @ take (unat ?nl) (drop 6 d) @ take 2 (drop (6 + unat ?nl) d) @
        take (unat ?ml) (drop (8 + unat ?nl) d) @ drop (8 + unat ?nl + unat ?ml) d = d"
    proof -
      have c: "take b (drop a x) @ drop e x = drop a x" if "e = a + b" for a b e and x :: bytes
        using append_take_drop_id [of b "drop a x"] that by (simp add: add.commute)
      have "take (unat ?ml) (drop (8 + unat ?nl) d) @ drop (8 + unat ?nl + unat ?ml) d = drop (8 + unat ?nl) d"
        "take 2 (drop (6 + unat ?nl) d) @ drop (8 + unat ?nl) d = drop (6 + unat ?nl) d"
        "take (unat ?nl) (drop 6 d) @ drop (6 + unat ?nl) d = drop 6 d" "take 2 (drop 4 d) @ drop 6 d = drop 4 d"
        by (rule c; simp)+
      then show ?thesis by (simp only: append_take_drop_id)
    qed
    ultimately have "d = chat_layout i nm msg @ drop (8 + unat ?nl + unat ?ml) d"
      by (simp add: chat_layout_def r(3,4) [symmetric])
    then show ?thesis using len by (metis unat_u16_less)
  qed
  moreover have "ParseServerChat d \<noteq> None" by (simp add: eq)
  ultimately show ?thesis by blast
qed

theorem chat_parser_is_exact_witness:
  "ParseServerChat (chat_layout 7 [65] [72, 105] @ [9]) = Some (Some (7, [65], [72, 105])) \<and>
    ParseServerChat [1, 0, 0, 0, 200, 0, 65, 66] \<noteq> Some (Some (1, [65], []))"
  using chat_parser_is_exact [of "chat_layout 7 [65] [72, 105] @ [9]" 7 "[65]" "[72, 105]"]
    chat_parser_is_exact [of "[1, 0, 0, 0, 200, 0, 65, 66]" 1 "[65]" "[]"]
  by (auto simp: chat_layout_def le32_def le16_def)

lemma recv_packet_total: "\<exists>go n'. recv_packet n = Some (go, n') \<and> c_out n' = c_out n"
proof (cases n rule: recv_packet_reads)
  case (packet hd bd n2)
  have "length bd < 2 ^ 31" using packet(4) by simp
  then obtain r where "ParseServerChat bd = Some r" using chat_parser_is_exact [of bd] by fast
  then show ?thesis using packet(1,5) by (auto simp: show_packet_eq recv_rest_def)
qed (auto simp: recv_rest_def)

text \<open>C19: The client's receive thread is memory safe and ends on every stream: whatever bytes arrive, cut in
  whatever pieces, and whenever the other thread clears the running flag, it returns without
  reading or writing outside a buffer, and sends nothing.\<close>

theorem receive_thread_is_safe:
  "\<exists>n'. RecvThread stopped i n = Some n' \<and> c_out n' = c_out n"
proof (induction stopped i n rule: RecvThread.induct)
  case (1 stopped i n)
  obtain go n1 where n1: "recv_packet n = Some (go, n1)" "c_out n1 = c_out n" using recv_packet_total by blast
  show ?case
  proof (cases "stopped i \<or> \<not> go")
    case True
    then show ?thesis using n1 by (subst RecvThread.simps) auto
  next
    case False
    then obtain n' where "RecvThread stopped (Suc i) n1 = Some n'" "c_out n' = c_out n1"
      using "1.IH" [of "(go, n1)" go n1] n1(1) by auto
    then show ?thesis using False n1 by (subst RecvThread.simps) simp
  qed
qed

lemma recv_packet_next:
  assumes "\<forall>i. 0 < recvRes n i" and "c_in n = packet_bytes pid b @ rest" and "length b \<le> 4092"
  shows "\<exists>n2. recv_packet n = show_packet pid b (int (length b)) n2 \<and> c_in n2 = rest \<and> c_shown n2 = c_shown n \<and>
    recvRes n2 = recvRes n"
proof -
  have sz: "unat (of_nat (4 + length b) :: u16) = 4 + length b"
    using assms(3) by (intro unat_of_nat_small) simp
  have hd: "header_of hd = \<lparr>h_size = of_nat (4 + length b), h_id = pid\<rparr> \<and> b @ rest = r"
    if "hd @ r = packet_bytes pid b @ rest" "length hd = 4" for hd r
  proof -
    have "hd = header_bytes \<lparr>h_size = of_nat (4 + length b), h_id = pid\<rparr>" "b @ rest = r"
      using that append_eq_append_conv [of hd "header_bytes \<lparr>h_size = of_nat (4 + length b), h_id = pid\<rparr>" r "b @ rest"]
      by (simp_all add: packet_bytes_def del: of_nat_add)
    then show ?thesis using header_of_bytes [of _ "[]"] by (simp del: of_nat_add)
  qed
  show ?thesis
  proof (cases n rule: recv_packet_reads)
    case (short got n1)
    then have "length (c_in n) < 4" using assms(1) by (simp add: recv_rest_def)
    then show ?thesis using assms(2) by simp
  next
    case (bad h n1)
    then have "header_of h = \<lparr>h_size = of_nat (4 + length b), h_id = pid\<rparr>"
      using hd [of h "c_in n1"] assms(2) by (simp add: recv_rest_def)
    then show ?thesis using bad(3) sz assms(3) by (simp del: of_nat_add)
  next
    case (cut h bd n2)
    then have "header_of h = \<lparr>h_size = of_nat (4 + length b), h_id = pid\<rparr> \<and> b @ rest = bd"
      using hd [of h bd] assms(1,2) by (simp add: recv_rest_def)
    then show ?thesis using cut(3) sz by (auto simp del: of_nat_add)
  next
    case (packet h bd n2)
    then have h: "header_of h = \<lparr>h_size = of_nat (4 + length b), h_id = pid\<rparr> \<and> b @ rest = bd @ c_in n2"
      using hd [of h "bd @ c_in n2"] assms(2) by (simp add: recv_rest_def)
    then have "unat (h_size (header_of h)) = 4 + length b" using sz by (simp only: PacketHeader.select_convs)
    then have "length bd = length b" using packet(3) by linarith
    then have "bd = b \<and> c_in n2 = rest" using conjunct2 [OF h] append_eq_append_conv [of bd b "c_in n2" rest] by metis
    then have "bd = b" "c_in n2 = rest" by blast+
    moreover have "recvRes n2 = recvRes n" "c_shown n2 = c_shown n" using packet(1) by (simp_all add: recv_rest_def)
    moreover have "h_id (header_of h) = pid" using h by (simp del: of_nat_add)
    ultimately show ?thesis using packet(5) by (intro exI [of _ n2]) simp
  qed
qed

text \<open>The receive thread on a stream of chat packets, by induction on the packets.\<close>

lemma RecvThread_shows:
  assumes "\<forall>i. 0 < recvRes n i" and "\<forall>(j, nm, msg) \<in> set chats. length nm + length msg \<le> 4084"
    and "c_in n = concat (map (\<lambda>(j, nm, msg). packet_bytes 3 (chat_layout j nm msg)) chats)"
  shows "\<exists>n'. RecvThread (\<lambda>_. False) k n = Some n' \<and> c_shown n' = c_shown n @
    map (\<lambda>(j, nm, msg). ShowChat (if nm = [] then ascii ''Player '' @ dec_string (unat j) else nm) msg) chats @ [ShowDisconnected]"
  using assms
proof (induction chats arbitrary: n k)
  case Nil
  show ?case
  proof (cases n rule: recv_packet_reads)
    case (short got n1)
    then show ?thesis by (subst RecvThread.simps) (simp add: recv_rest_def)
  qed (use Nil in \<open>auto simp: recv_rest_def\<close>)
next
  case (Cons c chats)
  obtain j nm msg where c: "c = (j, nm, msg)" by (cases c) auto
  have len: "length (chat_layout j nm msg) \<le> 4092" "length nm < 65536" "length msg < 65536" using Cons.prems(2) c by auto
  have inp: "c_in n = packet_bytes 3 (chat_layout j nm msg) @ concat (map (\<lambda>(j, nm, msg). packet_bytes 3 (chat_layout j nm msg)) chats)"
    using Cons.prems(3) c by simp
  obtain n2 where n2: "recv_packet n = show_packet 3 (chat_layout j nm msg) (int (length (chat_layout j nm msg))) n2"
    "c_in n2 = concat (map (\<lambda>(j, nm, msg). packet_bytes 3 (chat_layout j nm msg)) chats)" "c_shown n2 = c_shown n" "recvRes n2 = recvRes n"
    using recv_packet_next [OF Cons.prems(1) inp len(1)] by blast
  let ?l = "ShowChat (if nm = [] then ascii ''Player '' @ dec_string (unat j) else nm) msg"
  have rp: "recv_packet n = Some (True, show_line ?l n2)"
    using n2(1) ParseServerChat_layout [OF len(2,3), of j] by (simp add: show_packet_eq chat_line_def)
  have "\<forall>i. 0 < recvRes (show_line ?l n2) i" "c_in (show_line ?l n2) = concat (map (\<lambda>(j, nm, msg). packet_bytes 3 (chat_layout j nm msg)) chats)"
    using Cons.prems(1) n2 by simp_all
  with Cons.IH [of "show_line ?l n2" "Suc k"] Cons.prems(2) obtain n' where n': "RecvThread (\<lambda>_. False) (Suc k) (show_line ?l n2) = Some n'"
    "c_shown n' = c_shown (show_line ?l n2) @ map (\<lambda>(j, nm, msg). ShowChat (if nm = [] then ascii ''Player '' @ dec_string (unat j) else nm) msg) chats @ [ShowDisconnected]"
    by auto
  have "RecvThread (\<lambda>_. False) k n = Some n'" using rp n'(1) by (subst RecvThread.simps) simp
  then show ?case using n'(2) n2(3) c by simp
qed

text \<open>C18: Server to client, end to end: the chat packets the server sends, however the network cuts their
  bytes, are shown by the client as they were sent, each once and in order, with "Player" and the
  number for an empty name, and then the end of the connection.\<close>

theorem chats_are_shown_as_sent:
  assumes "\<forall>i. 0 < recvRes n i" and "\<forall>(j, nm, msg) \<in> set chats. length nm + length msg \<le> 4084"
    and "c_in n = concat (map (\<lambda>(j, nm, msg). packet_bytes 3 (chat_layout j nm msg)) chats)"
  shows "\<exists>n'. RecvThread (\<lambda>_. False) k n = Some n' \<and> c_shown n' = c_shown n @
    map (\<lambda>(j, nm, msg). ShowChat (if nm = [] then ascii ''Player '' @ dec_string (unat j) else nm) msg) chats @ [ShowDisconnected]"
  using RecvThread_shows [OF assms] .

theorem chats_are_shown_as_sent_witness:
  "\<exists>n'. RecvThread (\<lambda>_. False) 0 (demo_cnet\<lparr>c_in := packet_bytes 3 (chat_layout 7 [65] [72, 105]) @ packet_bytes 3 (chat_layout 7 [65] [])\<rparr>) = Some n' \<and>
    c_shown n' = [ShowChat [65] [72, 105], ShowChat [65] [], ShowDisconnected]"
  using chats_are_shown_as_sent [of "demo_cnet\<lparr>c_in := packet_bytes 3 (chat_layout 7 [65] [72, 105]) @ packet_bytes 3 (chat_layout 7 [65] [])\<rparr>"
      "[(7, [65], [72, 105]), (7, [65], [])]" 0]
  by (simp add: demo_cnet_def)

end
