(* ===== verification/Start_Up.thy ===== *)
theory Start_Up
  imports Client Network
begin

text \<open>
  The two \<open>main\<close> functions around the parts modelled elsewhere: the client of client.cpp from its
  arguments to its exit, and the server of Network.cpp from Winsock to the end of the accept
  thread. Every call that acquires or releases a resource is recorded with its result, in order;
  the results the operating system gives are an argument. The code discards the results of
  \<open>bind\<close>, \<open>listen\<close>, \<open>shutdown\<close> and of the server's \<open>WSAStartup\<close> and \<open>socket\<close>.
\<close>

section \<open>Calls\<close>

datatype thread_role = RecvRole | GameRole | AcceptRole

datatype set_up_call =
    Startup bool
  | OpenSocket bool
  | ConnectTo bytes u16 bool
  | BindTo u16
  | Listen
  | Spawn thread_role bool
  | JoinThread thread_role
  | CloseThreadHandle thread_role
  | ShutdownSocket
  | CloseSock
  | Cleanup

section \<open>The client\<close>

text \<open>
  \<open>os_address\<close> is \<open>InetPtonA\<close>, true when the text is an address; \<open>os_thread\<close> is whether the thread of
  \<open>std::thread\<close> can be made. When it cannot, the constructor throws and nothing catches it.
\<close>

record client_os =
  os_winsock :: bool
  os_socket :: bool
  os_address :: "bytes \<Rightarrow> bool"
  os_connect :: "bytes \<Rightarrow> u16 \<Rightarrow> bool"
  os_thread :: bool

text \<open>How the program ends: \<open>main\<close> returns, or \<open>std::terminate\<close> is called.\<close>

datatype client_exit = Returned int | Terminated

text \<open>\<open>AskString\<close> on the lines typed; a failed \<open>getline\<close> leaves the line empty.\<close>

fun ask_string :: "bytes \<Rightarrow> bytes list \<Rightarrow> bytes \<times> bytes list" where
  "ask_string d [] = (AskString d [], [])"
| "ask_string d (line # rest) = (AskString d line, rest)"

text \<open>
  The server's address and port, the nickname and the room, from the arguments (without the
  program's name) and the lines typed, and the lines that are left.
\<close>

definition client_settings :: "bytes list \<Rightarrow> bytes list \<Rightarrow> bytes \<times> int \<times> bytes \<times> int \<times> bytes list" where
  "client_settings args input =
     (let serverIp = (if length args \<ge> 1 then args ! 0 else ascii ''127.0.0.1'');
          serverPort = (if length args \<ge> 2 then (case stoi (args ! 1) of Some v \<Rightarrow> v | None \<Rightarrow> 9000) else 9000);
          (serverIp, input) = (if length args < 1 then ask_string serverIp input else (serverIp, input));
          (serverPort, input) = (if length args < 2 then AskInt serverPort input else (serverPort, input));
          (nickname, input) = ask_string (ascii ''CppClient'') input;
          (roomId, input) = AskInt 1 input
      in (serverIp, serverPort, nickname, roomId, input))"

text \<open>\<open>main\<close>: how it ends, the calls and what was sent and shown.\<close>

definition client_program ::
  "client_os \<Rightarrow> (nat \<Rightarrow> bool) \<Rightarrow> bytes list \<Rightarrow> bytes list \<Rightarrow> cnet \<Rightarrow> (client_exit \<times> set_up_call list \<times> cnet) option" where
  "client_program os stopped args input n =
     (let (serverIp, serverPort, nickname, roomId, input) = client_settings args input in
      if \<not> os_winsock os then Some (Returned 1, [Startup False], n)
      else if \<not> os_socket os then Some (Returned 1, [Startup True, OpenSocket False, Cleanup], n)
      else if \<not> os_address os serverIp then Some (Returned 1, [Startup True, OpenSocket True, CloseSock, Cleanup], n)
      else
        let port = word_of_int serverPort;
            connected = os_connect os serverIp port;
            calls = [Startup True, OpenSocket True, ConnectTo serverIp port connected] in
        if \<not> connected then Some (Returned 1, calls @ [CloseSock, Cleanup], n)
        else if \<not> os_thread os then Some (Terminated, calls @ [Spawn RecvRole False], n)
        else do {
          n1 \<leftarrow> client_main nickname (word_of_int roomId) stopped input n;
          Some (Returned 0, calls @ [Spawn RecvRole True, ShutdownSocket, CloseSock, JoinThread RecvRole, Cleanup], n1)
        })"

section \<open>The server\<close>

text \<open>
  \<open>so_winsock\<close> is whether Winsock starts and \<open>so_socket\<close> the listening socket, \<open>INVALID_SOCKET\<close> when
  there is none; \<open>so_port\<close> is whether the completion port is made, \<open>so_thread\<close> whether \<open>CreateThread\<close> succeeds
  for the game and for the accept thread, \<open>so_workers\<close> what it returns for the workers.
\<close>

record server_os =
  so_winsock :: bool
  so_socket :: nat
  so_port :: bool
  so_concurrency :: u32
  so_workers :: "nat \<Rightarrow> nat option"
  so_thread :: "thread_role \<Rightarrow> bool"

text \<open>\<open>m_listenSocket\<close> is \<open>INVALID_SOCKET\<close> (\<open>None\<close>) when \<open>socket\<close> failed, which nothing tests.\<close>

definition StartAcceptThread :: "bool \<Rightarrow> nat \<Rightarrow> host \<Rightarrow> bool \<times> host" where
  "StartAcceptThread created listenSock h = (created, h\<lparr>h_listen := (if listenSock = INVALID_SOCKET then None else Some listenSock)\<rparr>)"

text \<open>\<open>JoinAcceptThread\<close>: nothing when the thread was never made.\<close>

definition JoinAcceptThread :: "bool \<Rightarrow> set_up_call list" where
  "JoinAcceptThread created = (if created then [JoinThread AcceptRole, CloseThreadHandle AcceptRole] else [])"

text \<open>
  \<open>main\<close> up to the point where it waits for the server to be told to stop: the exit code when it
  gives up, the calls and the state it leaves.
\<close>

definition server_start :: "server_os \<Rightarrow> host \<Rightarrow> int option \<times> set_up_call list \<times> host" where
  "server_start os h =
     (let h1 = h\<lparr>h_world := Init (h_world h)\<rparr>;
          game = so_thread os GameRole;
          calls = [Startup (so_winsock os), Spawn GameRole game] @ (if game then [CloseThreadHandle GameRole] else []) @
            [OpenSocket (so_socket os \<noteq> INVALID_SOCKET), BindTo 9000, Listen];
          (ok, h2) = Network_Init (so_port os) (so_concurrency os) (so_workers os) h1 in
      if \<not> ok then (Some (- 1), calls, h2)
      else let (started, h3) = StartAcceptThread (so_thread os AcceptRole) (so_socket os) h2;
               calls = calls @ [Spawn AcceptRole started] in
        if \<not> started then (Some (- 1), calls @ [CloseSock], h3)
        else (None, calls, h3))"

text \<open>
  The rest of \<open>main\<close>: it polls \<open>m_running\<close> (\<open>polls\<close> is what it reads), joins the accept thread and
  cleans up. \<open>None\<close>: it is still waiting.
\<close>

fun server_wait :: "bool list \<Rightarrow> (int \<times> set_up_call list) option" where
  "server_wait [] = None"
| "server_wait (m_running # polls) =
     (if m_running then server_wait polls else Some (0, JoinAcceptThread True @ [Cleanup]))"

end
