(* ===== verification/End_To_End.thy ===== *)
theory End_To_End
  imports Start_Up Client_Properties System_Facts Room_Properties
begin

text \<open>
  The client's program against the server: what its start-up acquires and releases, what the
  server's start-up leaves running, and the way of a client from its command line into its room:
  its bytes cross the network in pieces, the receive handler cuts them into packets, and the game
  thread logs the player in and seats it.
\<close>

section \<open>Delivery keeps the world in order\<close>

lemma deliver_fill:
  assumes "sessions n s = Some x"
  shows "deliver s bs n = OnRecvComplete s (of_nat (length bs)) True (fill_buffer s (bs @ drop (length bs) (s_recvBuf x)) n)"
proof -
  have "put_session s (x\<lparr>s_recvBuf := bs @ drop (length bs) (s_recvBuf x)\<rparr>) n = fill_buffer s (bs @ drop (length bs) (s_recvBuf x)) n"
    using assms by (simp add: put_session_def fill_buffer_def)
  with assms show ?thesis by (simp add: deliver_def Let_def)
qed

lemma deliver_world_ok:
  assumes ok: "world_ok w" and d: "deliver s bs (net w) = Some n" and len: "length bs \<le> BUFFER_SIZE"
  shows "world_ok (w\<lparr>net := n\<rparr>)"
proof -
  obtain x where x: "sessions (net w) s = Some x" using d by (auto simp: deliver_def bind_eq_Some_conv)
  note okx = net_okD(1,2) [OF world_okD(2) [OF ok] x]
  let ?d = "bs @ drop (length bs) (s_recvBuf x)" and ?m = "fill_buffer s (bs @ drop (length bs) (s_recvBuf x)) (net w)"
  have l: "length ?d = BUFFER_SIZE" using okx(1) len by (simp add: session_ok_def)
  let ?x = "x\<lparr>s_recvBuf := ?d\<rparr>"
  have m: "sessions ?m s = Some ?x" "session_ok ?x" "framed ?x"
    using x okx l by (simp_all add: fill_buffer_def session_ok_def framed_def)
  have "unat (of_nat (length bs) :: u32) \<le> BUFFER_SIZE"
    using len by (simp add: unsigned_of_nat take_bit_nat_eq_self BUFFER_SIZE_def)
  from OnRecvComplete_total [OF m this, of True] d deliver_fill [OF x]
  have "io_effect s (- 1) ?m n" by auto
  from io_effect_trans [OF fill_buffer_effect [OF l] this] have "io_effect s (- 1) (net w) n" by simp
  then show ?thesis by (rule world_ok_effect [OF ok])
qed

lemma deliver_all_world_ok:
  assumes "world_ok w" and "for_each (deliver s) chunks (net w) = Some n" and "list_all (\<lambda>c. length c \<le> BUFFER_SIZE) chunks"
  shows "world_ok (w\<lparr>net := n\<rparr>)"
  using assms
proof (induction chunks arbitrary: w)
  case Nil
  then have "n = net w" by simp
  with Nil.prems(1) show ?case by simp
next
  case (Cons c cs)
  obtain m where m: "deliver s c (net w) = Some m" "for_each (deliver s) cs m = Some n"
    using Cons.prems(2) by (auto split: option.splits)
  have "world_ok (w\<lparr>net := m\<rparr>)" using deliver_world_ok [OF Cons.prems(1) m(1)] Cons.prems(3) by simp
  from Cons.IH [OF this] m(2) Cons.prems(3) show ?case by simp
qed

section \<open>Logging in and entering\<close>

lemma game_iter_packet:
  "jobQueue (net w) = packet_job s p # q \<Longrightarrow> game_iter e w = OnPacket e s p (w\<lparr>net := (net w)\<lparr>jobQueue := q\<rparr>\<rparr>)"
  by (cases p) (simp add: game_iter_def packet_job_def)

lemma OnPacket_login:
  assumes a: "players (gs w) s = Some a" "pheap (gs w) a = Some q" "p_state q = PNone" "g_FSM (gs w) = InitFSM empty_FSM"
    and p: "packet_ok p" "h_id (header p) = pkt PKT_CS_LOGIN" "body p \<noteq> []"
  shows "OnPacket e s p w = Some (w\<lparr>gs := put_player a (q\<lparr>p_name := body p, p_state := LoggedIn\<rparr>) (gs w)\<rparr>)"
proof -
  have "GetHandler (InitFSM empty_FSM) PNone (pkt PKT_CS_LOGIN) = Some (Some FSM_Login)"
    unfolding GetHandler_iff by (intro exI [of _ PKT_CS_LOGIN]) (simp add: fsm_entries_def del: pkt.simps)
  then show ?thesis using OnPacket_handler [OF a(1,2), of e p] FSM_Login_eq [OF p(1) a(1,2)] a(3,4) p(2,3) by simp
qed

lemma OnPacket_enter:
  assumes ok: "world_ok w" and a: "players (gs w) s = Some a" "pheap (gs w) a = Some q" "p_state q = LoggedIn"
      "g_FSM (gs w) = InitFSM empty_FSM" "p_name q \<noteq> []"
    and p: "packet_ok p" "h_id (header p) = pkt PKT_CS_ENTER_ROOM" "body p = le32 k"
  shows "\<exists>g. OnPacket e s p w = Some (w\<lparr>gs := g\<rparr>) \<and> pheap g a = Some (q\<lparr>p_room := Some k, p_state := InRoom\<rparr>) \<and>
    (\<exists>r. rooms g k = Some r \<and> last (r_players r) = a)"
proof -
  have h: "GetHandler (InitFSM empty_FSM) LoggedIn (pkt PKT_CS_ENTER_ROOM) = Some (Some FSM_EnterRoom)"
    unfolding GetHandler_iff by (intro exI [of _ PKT_CS_ENTER_ROOM]) (simp add: fsm_entries_def del: pkt.simps)
  obtain g r where g: "EnterRoom a k (gs w) = Some g" "pheap g a = Some (q\<lparr>p_room := Some k\<rparr>)"
    "rooms g k = Some r" "last (r_players r) = a" using EnterRoom_step [OF ok a(2), of k] by blast
  have "HandleEnterRoom s p w = Some (w\<lparr>gs := g\<rparr>)"
    using HandleEnterRoom_eq [OF p(1) a(1,2)] a(5) p(3) g(1) by simp
  then have "run_FSM_EnterRoom s a p w = Some (w\<lparr>gs := put_player a (q\<lparr>p_room := Some k, p_state := InRoom\<rparr>) g\<rparr>)"
    using g(2) by (simp add: run_FSM_EnterRoom_def on_game_def set_player_def put_player_def)
  with OnPacket_handler [OF a(1,2), of e p] h a(3,4) p(2) g(3,4) show ?thesis
    by (intro exI [of _ "put_player a (q\<lparr>p_room := Some k, p_state := InRoom\<rparr>) g"]) (auto simp: put_player_def)
qed

section \<open>From the command line into the room\<close>

lemma AskString_nonempty: "d \<noteq> [] \<Longrightarrow> AskString d l \<noteq> []"
  by (simp add: AskString_def Let_def)

lemma ask_string_nonempty: "d \<noteq> [] \<Longrightarrow> fst (ask_string d input) \<noteq> []"
  by (cases input) (simp_all add: AskString_nonempty)

lemma nickname_nonempty:
  assumes "client_settings args input = (ip, port, nick, room, rest)"
  shows "nick \<noteq> []"
proof -
  have "ascii ''CppClient'' \<noteq> []" by (simp add: ascii_def)
  with ask_string_nonempty assms show ?thesis
    by (auto simp: client_settings_def Let_def case_prod_beta simp del: ask_string.simps)
qed

text \<open>C17: The whole way of a client, from its command line into its room. On the client: the calls of its
  start-up succeed, the network takes its bytes, its receive thread does not clear \<open>running\<close>, and its
  nickname and messages have at most 4092 bytes each. On the server, which is running and well formed:
  the client's session is open with nothing received yet, its player is in the initial state, and the
  job queue is empty. Then, however the network cuts the bytes into pieces, the server queues exactly
  the login, the room and the messages, and after two iterations the game thread has given the player
  its nickname and seated it as the last member of its room, with exactly the messages left to run.\<close>

theorem client_comes_into_its_room:
  assumes set: "client_settings args input = (ip, port, nick, room, rest)"
    and os: "os_winsock os" "os_socket os" "os_address os ip" "os_connect os ip (word_of_int port)" "os_thread os"
    and n: "sends_all n" "c_out n = []" "length nick \<le> 4092" "\<forall>m \<in> set (spoken rest). length m \<le> 4092"
    and w: "world_ok w" "open_session s [] (net w)" "jobQueue (net w) = []" "running (gs w)" "g_FSM (gs w) = InitFSM empty_FSM"
    and a: "players (gs w) s = Some a" "pheap (gs w) a = Some q" "p_state q = PNone"
  shows "\<exists>calls n'. client_program os (\<lambda>_. False) args input n = Some (Returned 0, calls, n') \<and>
    (\<forall>chunks. concat chunks = c_out n' \<and> list_all (\<lambda>c. c \<noteq> [] \<and> length c \<le> BUFFER_SIZE) chunks \<longrightarrow>
      (\<exists>m w' p r. for_each (deliver s) chunks (net w) = Some m \<and> GameThreadLoop [e1, e2] (w\<lparr>net := m\<rparr>) = Some w' \<and>
        pheap (gs w') a = Some p \<and> p_name p = nick \<and> p_state p = InRoom \<and> p_room p = Some (word_of_int room) \<and>
        rooms (gs w') (word_of_int room) = Some r \<and> last (r_players r) = a \<and>
        jobQueue (net w') = map (\<lambda>msg. PacketJob s (header (mk_packet PKT_CS_CHAT msg)) msg) (spoken rest)))"
proof -
  let ?p1 = "mk_packet PKT_CS_LOGIN nick" and ?p2 = "mk_packet PKT_CS_ENTER_ROOM (le32 (word_of_int room))"
  let ?ps = "?p1 # ?p2 # map (mk_packet PKT_CS_CHAT) (spoken rest)"
  obtain n' where n': "client_main nick (word_of_int room) (\<lambda>_. False) rest n = Some n'" "frames (c_out n') = (?ps, [], False)"
    "list_all (\<lambda>p. packet_ok p \<and> IsKnownPacketId (h_id (header p))) ?ps"
    using client_main_sends [OF n, of "word_of_int room"] by auto
  have prog: "\<exists>calls. client_program os (\<lambda>_. False) args input n = Some (Returned 0, calls, n')"
    using set os n'(1) by (simp add: client_program_def Let_def)
  have "\<exists>m w' p r. for_each (deliver s) chunks (net w) = Some m \<and> GameThreadLoop [e1, e2] (w\<lparr>net := m\<rparr>) = Some w' \<and>
        pheap (gs w') a = Some p \<and> p_name p = nick \<and> p_state p = InRoom \<and> p_room p = Some (word_of_int room) \<and>
        rooms (gs w') (word_of_int room) = Some r \<and> last (r_players r) = a \<and>
        jobQueue (net w') = map (\<lambda>msg. PacketJob s (header (mk_packet PKT_CS_CHAT msg)) msg) (spoken rest)"
    if c: "concat chunks = c_out n'" "list_all (\<lambda>c. c \<noteq> [] \<and> length c \<le> BUFFER_SIZE) chunks" for chunks
  proof -
    have "frames ([] @ concat chunks) = (?ps, [], False)" using c(1) n'(2) by simp
    moreover have "list_all (\<lambda>p. IsKnownPacketId (h_id (header p))) ?ps" using n'(3) by (auto simp: list_all_iff)
    ultimately obtain m where m: "for_each (deliver s) chunks (net w) = Some m" "jobQueue m = map (packet_job s) ?ps"
      using deliver_stream [OF w(2) _ _ c(2)] w(3) by fastforce
    have "list_all (\<lambda>c. length c \<le> BUFFER_SIZE) chunks" using c(2) by (simp add: list_all_iff)
    from deliver_all_world_ok [OF w(1) m(1) this] have ok: "world_ok (w\<lparr>net := m\<rparr>)" .
    let ?jobs = "map (packet_job s) (map (mk_packet PKT_CS_CHAT) (spoken rest))"
    let ?w1 = "w\<lparr>net := m\<lparr>jobQueue := packet_job s ?p2 # ?jobs\<rparr>\<rparr>"
    have ok1: "world_ok ?w1" using ok by (simp add: world_ok_def net_ok_def)
    let ?q1 = "q\<lparr>p_name := nick, p_state := LoggedIn\<rparr>"
    let ?w2 = "?w1\<lparr>gs := put_player a ?q1 (gs w)\<rparr>"
    have p: "packet_ok ?p1" "packet_ok ?p2" using n'(3) by simp_all
    have r1: "OnPacket e1 s ?p1 ?w1 = Some ?w2"
      using OnPacket_login [of ?w1 s a q ?p1 e1] a w(5) p(1) nickname_nonempty [OF set] by simp
    have "game_iter e1 (w\<lparr>net := m\<rparr>) = OnPacket e1 s ?p1 ?w1"
      using game_iter_packet [of "w\<lparr>net := m\<rparr>" s ?p1 "packet_job s ?p2 # ?jobs"] m(2) by simp
    with r1 have i1: "game_iter e1 (w\<lparr>net := m\<rparr>) = Some ?w2" by simp
    have ok2: "world_ok ?w2"
    proof -
      have "safe_on (OnPacket e1 s ?p1) ?w1 \<or> packet_crashes e1 s ?p1 ?w1" using OnPacket_safe(2) [OF ok1 p(1)] by blast
      moreover have "\<not> packet_crashes e1 s ?p1 ?w1" using OnPacket_safe(1) [OF ok1 p(1), of e1 s] r1 by simp
      ultimately show ?thesis using r1 world_step_ok [OF _ ok1] by (auto simp: safe_on_def)
    qed
    let ?w3 = "?w2\<lparr>net := m\<lparr>jobQueue := ?jobs\<rparr>\<rparr>"
    have ok3: "world_ok ?w3" using ok2 by (simp add: world_ok_def net_ok_def)
    obtain g r where g: "OnPacket e2 s ?p2 ?w3 = Some (?w3\<lparr>gs := g\<rparr>)"
      "pheap g a = Some (?q1\<lparr>p_room := Some (word_of_int room), p_state := InRoom\<rparr>)"
      "rooms g (word_of_int room) = Some r" "last (r_players r) = a"
      using OnPacket_enter [OF ok3, of s a ?q1 ?p2 "word_of_int room" e2] a w(5) p(2) nickname_nonempty [OF set]
      by (auto simp: put_player_def)
    have "game_iter e2 ?w2 = OnPacket e2 s ?p2 ?w3" using game_iter_packet [of ?w2 s ?p2 ?jobs] by simp
    with g(1) have i2: "game_iter e2 ?w2 = Some (?w3\<lparr>gs := g\<rparr>)" by simp
    have "running (gs (w\<lparr>net := m\<rparr>))" "running (gs ?w2)" using w(4) by (simp_all add: put_player_def)
    then have "GameThreadLoop [e1, e2] (w\<lparr>net := m\<rparr>) = Some (?w3\<lparr>gs := g\<rparr>)" using i1 i2 by simp
    with m(1) g show ?thesis
      by (intro exI [of _ m] exI [of _ "?w3\<lparr>gs := g\<rparr>"] exI [of _ "?q1\<lparr>p_room := Some (word_of_int room), p_state := InRoom\<rparr>"]
          exI [of _ r]) (simp add: packet_job_def comp_def)
  qed
  with prog show ?thesis by blast
qed

definition demo_client_os :: client_os where
  "demo_client_os = \<lparr>os_winsock = True, os_socket = True, os_address = (\<lambda>_. True), os_connect = (\<lambda>_ _. True), os_thread = True\<rparr>"

text \<open>The arguments \<open>10.0.0.1 9000\<close> and the lines \<open>A\<close>, \<open>7\<close>, \<open>hi\<close>.\<close>

definition demo_args :: "bytes list" where
  "demo_args = [[49, 48, 46, 48, 46, 48, 46, 49], [57, 48, 48, 48]]"

lemma demo_settings: "client_settings demo_args [[65], [55], [104, 105]] = ([49, 48, 46, 48, 46, 48, 46, 49], 9000, [65], 7, [[104, 105]])"
proof -
  have "stoi [57, 48, 48, 48] = Some 9000" "stoi [55] = Some 7" by (simp_all add: stoi_def digits_value_def int_ok_def Let_def)
  then show ?thesis
    by (simp add: client_settings_def demo_args_def AskString_def Trim_eq is_blank_def Let_def)
qed

lemma arena_open: "open_session 6 [] (net arena)"
  by (simp add: open_session_def frames_wait demo_session_def new_Session_ok) (simp add: new_Session_def)

theorem client_comes_into_its_room_witness:
  "\<exists>calls n' m w' p. client_program demo_client_os (\<lambda>_. False) demo_args [[65], [55], [104, 105]] demo_cnet = Some (Returned 0, calls, n') \<and>
    for_each (deliver 6) (map (\<lambda>b. [b]) (c_out n')) (net arena) = Some m \<and>
    GameThreadLoop [demo_env, demo_env] (arena\<lparr>net := m\<rparr>) = Some w' \<and> pheap (gs w') 16 = Some p \<and> p_room p = Some 7"
proof -
  have sp: "spoken [[104, 105]] = [[104, 105]]"
    by (simp add: Trim_eq is_blank_def ToLowerAscii_def is_quit_def ascii_def of_char_def)
  have n: "sends_all demo_cnet" "c_out demo_cnet = []" by (auto simp: sends_all_def demo_cnet_def)
  have os: "os_winsock demo_client_os" "os_socket demo_client_os" "os_address demo_client_os a" "os_connect demo_client_os a q" "os_thread demo_client_os" for a q
    by (simp_all add: demo_client_os_def)
  have "players (gs arena) 6 = Some 16" "pheap (gs arena) 16 = Some (arena_player 6 4 None PNone False)" by simp_all
  note a = this
  from client_comes_into_its_room [OF demo_settings os n _ _ arena_ok arena_open _ _ _ a, of demo_env demo_env] sp
  obtain calls n' where c: "client_program demo_client_os (\<lambda>_. False) demo_args [[65], [55], [104, 105]] demo_cnet = Some (Returned 0, calls, n')"
    and "\<forall>chunks. concat chunks = c_out n' \<and> list_all (\<lambda>c. c \<noteq> [] \<and> length c \<le> BUFFER_SIZE) chunks \<longrightarrow>
      (\<exists>m w' p r. for_each (deliver 6) chunks (net arena) = Some m \<and> GameThreadLoop [demo_env, demo_env] (arena\<lparr>net := m\<rparr>) = Some w' \<and>
        pheap (gs w') 16 = Some p \<and> p_name p = [65] \<and> p_state p = InRoom \<and> p_room p = Some (word_of_int 7) \<and>
        rooms (gs w') (word_of_int 7) = Some r \<and> last (r_players r) = 16 \<and>
        jobQueue (net w') = map (\<lambda>msg. PacketJob 6 (header (mk_packet PKT_CS_CHAT msg)) msg) (spoken [[104, 105]]))"
    by auto
  then obtain m w' and p :: player where "for_each (deliver 6) (map (\<lambda>b. [b]) (c_out n')) (net arena) = Some m"
    "GameThreadLoop [demo_env, demo_env] (arena\<lparr>net := m\<rparr>) = Some w'" "pheap (gs w') 16 = Some p" "p_room p = Some (word_of_int 7)"
    by (elim allE [of _ "map (\<lambda>b. [b]) (c_out n')"]) (auto simp: list_all_iff BUFFER_SIZE_def)
  with c show ?thesis by auto
qed

section \<open>From one client's console to another's\<close>

text \<open>The bytes a sequence of calls sends to a session.\<close>

fun sent_to :: "sid \<Rightarrow> syscall list \<Rightarrow> bytes" where
  "sent_to t [] = []"
| "sent_to t (WSASend u d # cs) = (if u = t then d @ sent_to t cs else sent_to t cs)"
| "sent_to t (c # cs) = sent_to t cs"

lemma sent_to_sends:
  assumes "sends_exactly cs sends"
  shows "sent_to t cs = sent_to t sends"
proof -
  have "sent_to t cs = sent_to t (filter is_send cs)"
  proof (induction cs)
    case (Cons c cs)
    then show ?case by (cases c) simp_all
  qed simp
  with assms show ?thesis by (simp add: sends_exactly_def)
qed

lemma sent_to_others: "b \<notin> f ` set bs \<Longrightarrow> sent_to b (map (\<lambda>c. WSASend (f c) d) bs) = []"
  by (induction bs) auto

lemma sent_to_one:
  "distinct (map f bs) \<Longrightarrow> b \<in> set bs \<Longrightarrow> sent_to (f b) (map (\<lambda>c. WSASend (f c) d) bs) = d"
proof (induction bs)
  case (Cons c bs)
  show ?case
  proof (cases "f b = f c")
    case True
    with Cons.prems(1) sent_to_others [of "f b" f bs d] show ?thesis by auto
  next
    case False
    with Cons show ?thesis by auto
  qed
qed simp

text \<open>C15: The way of a message from one client to another: when a player that is InRoom and has a name of
  fewer than 4084 bytes sends a CHAT packet whose message is not empty, then every other member of its
  room whose session may be sent to (it is open and the server is not shutting down) is sent the
  message once, whatever the network answers: the member's client, reading the bytes in pieces of any
  size, shows it once, under the sender's name, cut only to what a packet holds. The member's own
  state does not matter: a member whose match has started (InGame) is shown the message too, which
  the protocol document rules out; a player gets into such a room by ENTER_ROOM.\<close>

theorem chat_is_shown_to_every_other_member:
  assumes w: "world_ok w" "packet_ok p" "players (gs w) s = Some a" "pheap (gs w) a = Some q" "g_FSM (gs w) = InitFSM empty_FSM"
    and r: "p_state q = InRoom" "p_room q = Some k" "rooms (gs w) k = Some r"
    and p: "h_id (header p) = pkt PKT_CS_CHAT" "body p \<noteq> []" "p_name q \<noteq> []" "length (p_name q) < 4084"
    and b: "b \<in> set (r_players r)" "b \<noteq> a" "send_allowed (session_of (gs w) b) (pkt PKT_SC_CHAT) (net w)"
  shows "\<exists>w' cs. OnPacket e s p w = Some w' \<and> trace (net w') = trace (net w) @ cs \<and>
    (\<forall>n i. (\<forall>i. 0 < recvRes n i) \<and> c_in n = sent_to (session_of (gs w) b) cs \<longrightarrow>
      (\<exists>n'. RecvThread (\<lambda>_. False) i n = Some n' \<and>
        c_shown n' = c_shown n @ [ShowChat (p_name q) (take (4084 - length (p_name q)) (body p)), ShowDisconnected]))"
proof -
  let ?as = "filter (\<lambda>b. send_allowed (session_of (gs w) b) 3 (net w)) (filter (\<lambda>b. b \<noteq> a) (r_players r))"
    and ?msg = "take (4084 - length (p_name q)) (body p)"
  let ?d = "packet_bytes 3 (chat_layout (p_id q) (p_name q) ?msg)"
  obtain w' cs where w': "run_FSM_Chat s p w = Some w'" "trace (net w') = trace (net w) @ cs"
    "sends_exactly cs (map (\<lambda>b. WSASend (session_of (gs w) b) ?d) ?as)"
    using chat_reaches_every_other_member [OF w(1-4) r(2,3) p(3,2,4)] by blast
  have on: "OnPacket e s p w = Some w'"
    using OnPacket_handler [OF w(3,4), of e p] w(5) r(1) p(1) w'(1) by (simp add: handler_table)
  have "distinct (map (session_of (gs w)) ?as)"
    using member_sessions_distinct [OF world_okD(1) [OF w(1)] r(3)] by (simp add: distinct_map inj_on_def)
  moreover have "b \<in> set ?as" using b by simp
  ultimately have d: "sent_to (session_of (gs w) b) cs = ?d"
    unfolding sent_to_sends [OF w'(3)] by (rule sent_to_one)
  have "\<exists>n'. RecvThread (\<lambda>_. False) i n = Some n' \<and> c_shown n' = c_shown n @ [ShowChat (p_name q) ?msg, ShowDisconnected]"
    if n: "\<forall>i. 0 < recvRes n i" "c_in n = sent_to (session_of (gs w) b) cs" for n i
    using RecvThread_shows [OF n(1), of "[(p_id q, p_name q, ?msg)]" i] n(2) d p(3,4) by simp
  with on w'(2) show ?thesis by (intro exI [of _ w'] exI [of _ cs]) simp
qed

text \<open>A match between 13 and 14 has started, and 15 enters its room.\<close>

definition match_arena :: world where
  "match_arena = arena\<lparr>gs := (gs arena)\<lparr>
     pheap := [13 \<mapsto> arena_player 3 1 (Some 100) InGame True, 14 \<mapsto> arena_player 4 2 (Some 100) InGame True,
       15 \<mapsto> arena_player 5 3 None LoggedIn False, 16 \<mapsto> arena_player 6 4 None PNone False],
     rooms := [1 \<mapsto> new_Room 1, 100 \<mapsto> \<lparr>r_id = 100, r_players = [13, 14], r_capacity = 2, r_started = True\<rparr>]\<rparr>\<rparr>"

lemma match_arena_ok: "world_ok match_arena"
proof -
  have "game_wf (gs match_arena)"
    by (rule game_wfI) (auto simp: match_arena_def new_Room_def split: if_splits)
  then show ?thesis by (auto simp: world_ok_def net_ok_def match_arena_def split: if_splits)
qed

lemma enters_started_match:
  "\<exists>w. OnPacket demo_env 5 (mk_packet PKT_CS_ENTER_ROOM [100, 0, 0, 0]) match_arena = Some w \<and> world_ok w \<and>
    net w = net arena \<and> g_FSM (gs w) = InitFSM empty_FSM \<and> players (gs w) 5 = Some 15 \<and>
    pheap (gs w) 15 = Some (arena_player 5 3 (Some 100) InRoom False) \<and> pheap (gs w) 14 = Some (arena_player 4 2 (Some 100) InGame True) \<and>
    rooms (gs w) 100 = Some \<lparr>r_id = 100, r_players = [13, 14, 15], r_capacity = 2, r_started = True\<rparr>"
proof -
  let ?p = "mk_packet PKT_CS_ENTER_ROOM [100, 0, 0, 0]"
  have p: "packet_ok ?p" by (simp add: mk_packet_ok)
  have "OnPacket demo_env 5 ?p match_arena = run_FSM_EnterRoom 5 15 ?p match_arena"
    by (simp add: OnPacket_def GetPlayer_def handler_table match_arena_def)
  moreover have "\<exists>w. run_FSM_EnterRoom 5 15 ?p match_arena = Some w \<and>
    net w = net arena \<and> g_FSM (gs w) = InitFSM empty_FSM \<and> players (gs w) 5 = Some 15 \<and>
    pheap (gs w) 15 = Some (arena_player 5 3 (Some 100) InRoom False) \<and> pheap (gs w) 14 = Some (arena_player 4 2 (Some 100) InGame True) \<and>
    rooms (gs w) 100 = Some \<lparr>r_id = 100, r_players = [13, 14, 15], r_capacity = 2, r_started = True\<rparr>"
    by (simp add: run_FSM_EnterRoom_def HandleEnterRoom_def mk_packet_def GetPlayer_def IsLoggedIn_def read_bytes_def HEADER_SIZE_def
        EnterRoom_def LeaveRoom_def GetOrCreateRoom_def FindRoom_def Room_Join_def of_le32_def on_game_def set_player_def match_arena_def
        arena_player_def)
  ultimately obtain w where o: "OnPacket demo_env 5 ?p match_arena = Some w" and w:
    "net w = net arena \<and> g_FSM (gs w) = InitFSM empty_FSM \<and> players (gs w) 5 = Some 15 \<and>
    pheap (gs w) 15 = Some (arena_player 5 3 (Some 100) InRoom False) \<and> pheap (gs w) 14 = Some (arena_player 4 2 (Some 100) InGame True) \<and>
    rooms (gs w) 100 = Some \<lparr>r_id = 100, r_players = [13, 14, 15], r_capacity = 2, r_started = True\<rparr>" by auto
  then have "\<not> packet_crashes demo_env 5 ?p match_arena" using OnPacket_safe(1) [OF match_arena_ok p, of demo_env 5] by simp
  from OnPacket_safe(2) [OF match_arena_ok p this] o have "world_ok w" using world_step_ok match_arena_ok by (auto simp: safe_on_def)
  with o w show ?thesis by blast
qed

theorem chat_is_shown_to_every_other_member_witness:
  "\<exists>w x w' cs n'. OnPacket demo_env 5 (mk_packet PKT_CS_ENTER_ROOM [100, 0, 0, 0]) match_arena = Some w \<and>
    pheap (gs w) 14 = Some x \<and> p_state x = InGame \<and> p_session x = 4 \<and>
    OnPacket demo_env 5 (mk_packet PKT_CS_CHAT [72, 105]) w = Some w' \<and> trace (net w') = cs \<and>
    RecvThread (\<lambda>_. False) 0 (demo_cnet\<lparr>c_in := sent_to 4 cs\<rparr>) = Some n' \<and> c_shown n' = [ShowChat [65] [72, 105], ShowDisconnected]"
proof -
  obtain w where w: "OnPacket demo_env 5 (mk_packet PKT_CS_ENTER_ROOM [100, 0, 0, 0]) match_arena = Some w" "world_ok w"
    "net w = net arena" "g_FSM (gs w) = InitFSM empty_FSM" "players (gs w) 5 = Some 15"
    "pheap (gs w) 15 = Some (arena_player 5 3 (Some 100) InRoom False)" "pheap (gs w) 14 = Some (arena_player 4 2 (Some 100) InGame True)"
    "rooms (gs w) 100 = Some \<lparr>r_id = 100, r_players = [13, 14, 15], r_capacity = 2, r_started = True\<rparr>"
    using enters_started_match by (elim exE conjE) (rule that)
  have p: "packet_ok (mk_packet PKT_CS_CHAT [72, 105])" by (simp add: mk_packet_ok)
  have s4: "session_of (gs w) 14 = 4" using w(7) by (simp add: session_of_def)
  have al: "send_allowed (session_of (gs w) 14) (pkt PKT_SC_CHAT) (net w)"
    unfolding s4 w(3) by (simp add: send_allowed_def demo_session_def new_Session_def)
  from chat_is_shown_to_every_other_member [OF w(2) p w(5,6,4) _ _ w(8) _ _ _ _ _ _ al, of demo_env] w(3) obtain w' cs where
    w': "OnPacket demo_env 5 (mk_packet PKT_CS_CHAT [72, 105]) w = Some w'" "trace (net w') = cs"
    "\<forall>n i. (\<forall>i. 0 < recvRes n i) \<and> c_in n = sent_to 4 cs \<longrightarrow> (\<exists>n'. RecvThread (\<lambda>_. False) i n = Some n' \<and>
        c_shown n' = c_shown n @ [ShowChat [65] [72, 105], ShowDisconnected])"
    unfolding s4 by auto
  let ?n = "demo_cnet\<lparr>c_in := sent_to 4 cs\<rparr>"
  have "(\<forall>i. 0 < recvRes ?n i) \<and> c_in ?n = sent_to 4 cs" "c_shown ?n = []" by (simp_all add: demo_cnet_def)
  with w'(3) obtain n' where "RecvThread (\<lambda>_. False) 0 ?n = Some n'" "c_shown n' = [ShowChat [65] [72, 105], ShowDisconnected]"
    by fastforce
  with w(1,7) w'(1,2) show ?thesis
    by (intro exI [of _ w] exI [of _ "arena_player 4 2 (Some 100) InGame True"] exI [of _ w'] exI [of _ cs] exI [of _ n']) simp
qed

section \<open>Start-up\<close>

text \<open>C20: On every path on which its \<open>main\<close> returns the client gives back what it took: Winsock is
  cleaned up exactly when it was started, the socket is closed exactly when it was opened, and the
  receive thread is joined exactly when it was started, after the socket it reads from was closed.
  The exit code is 1 exactly when it did not connect. When it has connected and the thread cannot be
  made, and only then, the program is terminated instead, with neither the socket closed nor Winsock
  cleaned up; otherwise it returns 0.\<close>

theorem client_releases_what_it_took:
  assumes "client_program os stopped args input n = Some (exit, calls, n')"
  shows "let connected = (\<exists>ip port. ConnectTo ip port True \<in> set calls) in
    (exit = Returned 1 \<longleftrightarrow> \<not> connected) \<and>
    (exit = Returned 0 \<longleftrightarrow> connected \<and> os_thread os) \<and>
    (exit = Terminated \<longleftrightarrow> connected \<and> \<not> os_thread os) \<and>
    (exit \<noteq> Terminated \<longrightarrow>
      count_list calls (Startup True) = count_list calls Cleanup \<and>
      count_list calls (OpenSocket True) = count_list calls CloseSock \<and>
      count_list calls (Spawn RecvRole True) = count_list calls (JoinThread RecvRole) \<and>
      (JoinThread RecvRole \<in> set calls \<longrightarrow> (\<exists>before after. calls = before @ [CloseSock, JoinThread RecvRole] @ after))) \<and>
    (exit = Terminated \<longrightarrow> Startup True \<in> set calls \<and> OpenSocket True \<in> set calls \<and>
      Spawn RecvRole False \<in> set calls \<and> Cleanup \<notin> set calls \<and> CloseSock \<notin> set calls)"
proof -
  obtain ip port nick room rest where s: "client_settings args input = (ip, port, nick, room, rest)" by (metis prod.exhaust)
  have split: "\<exists>before after. a # b # c # d # e # CloseSock # JoinThread RecvRole # xs = before @ CloseSock # JoinThread RecvRole # after"
    for a b c d e xs by (intro exI [of _ "[a, b, c, d, e]"] exI [of _ xs]) simp
  show ?thesis using assms s split
    by (auto simp: client_program_def Let_def bind_eq_Some_conv split: if_splits)
qed

theorem client_releases_what_it_took_witness:
  "\<exists>calls. client_program (demo_client_os\<lparr>os_socket := False\<rparr>) (\<lambda>_. False) [] [] demo_cnet = Some (Returned 1, calls, demo_cnet) \<and>
    count_list calls Cleanup = 1"
proof -
  have "client_program (demo_client_os\<lparr>os_socket := False\<rparr>) (\<lambda>_. False) [] [] demo_cnet =
      Some (Returned 1, [Startup True, OpenSocket False, Cleanup], demo_cnet)"
    by (simp add: client_program_def demo_client_os_def case_prod_beta Let_def)
  from this client_releases_what_it_took [OF this] show ?thesis by auto
qed

lemma start_workers_eq:
  "start_workers created i k h = (\<forall>j \<in> set [i..<i + k]. created j \<noteq> None,
     h\<lparr>h_workers := h_workers h @ map (the \<circ> created) (takeWhile (\<lambda>j. created j \<noteq> None) [i..<i + k])\<rparr>)"
proof (induction k arbitrary: i h)
  case (Suc k)
  have u: "[i..<i + Suc k] = i # [Suc i..<Suc i + k]" by (simp add: upt_conv_Cons)
  show ?case unfolding u using Suc [of "Suc i"] by (cases "created i") (auto simp del: upt_Suc)
qed simp

text \<open>C21: The server's start-up gives up exactly when the completion port or the accept thread cannot be
  made; a worker thread that cannot be made ends the loop over them and is not an error, so the
  server can run with fewer workers than counted, or none; when it gives up at the accept thread
  the workers stay, no exit signal is posted, and Winsock is not cleaned up.\<close>

theorem server_start_outcome:
  "\<exists>calls h'. server_start os h = (if so_port os \<and> so_thread os AcceptRole then None else Some (- 1), calls, h') \<and>
    h_workers h' = h_workers h @ (if so_port os then map (the \<circ> so_workers os) (takeWhile (\<lambda>i. so_workers os i \<noteq> None) 
      [0..<unat (GetWorkerThreadCount (so_concurrency os))]) else []) \<and>
    srvState (h_io h') = Running \<and> g_FSM (gs (h_world h')) = InitFSM (g_FSM (gs (h_world h))) \<and>
    trace (h_io h') = trace (h_io h) \<and> Cleanup \<notin> set calls \<and> (CloseSock \<in> set calls \<longleftrightarrow> so_port os \<and> \<not> so_thread os AcceptRole)"
proof -
  let ?count = "unat (GetWorkerThreadCount (so_concurrency os))"
  have "StartWorkerThreads (so_concurrency os) (so_workers os) g =
      (\<forall>j \<in> set [0..<?count]. so_workers os j \<noteq> None,
       g\<lparr>h_workers := h_workers g @ map (the \<circ> so_workers os) (takeWhile (\<lambda>j. so_workers os j \<noteq> None) [0..<?count])\<rparr>)" for g
    unfolding StartWorkerThreads_def start_workers_eq by simp
  then show ?thesis
    by (auto simp: server_start_def Network_Init_def StartAcceptThread_def Let_def Init_def h_io_def)
qed

end
