(* ===== verification/Collision.thy ===== *)
theory Collision
  imports System_Properties End_To_End
begin

text \<open>
  A run of the whole server, from its start, that ends in the use of a destroyed room: two clients
  are accepted, their bytes arrive, the game thread serves both, and the second client's automatic
  match then takes the number of the chat room that the first one has made.
\<close>

section \<open>Building runs\<close>

text \<open>The server is running, the session is open with nothing kept, and the calls are accepted.\<close>

lemma reach_accept:
  assumes y: "sys_reach y" and s: "sessions (h_io (y_host y)) s = None"
    and n: "\<not> IsShuttingDown (h_io (y_host y))" "\<forall>i. sysResult (h_io (y_host y)) i = IoStarted"
  shows "\<exists>y'. sys_reach y' \<and> open_session s [] (h_io (y_host y')) \<and>
    map_option s_pendingIO (sessions (h_io (y_host y')) s) = Some 1 \<and>
    jobQueue (h_io (y_host y')) = jobQueue (h_io (y_host y)) @ [ConnectJob s] \<and>
    gs (h_world (y_host y')) = gs (h_world (y_host y)) \<and>
    (\<forall>t. t \<noteq> s \<longrightarrow> sessions (h_io (y_host y')) t = sessions (h_io (y_host y)) t)"
proof -
  let ?junk = "replicate 8192 0 :: bytes"
  have res: "sysResult (h_io (y_host y)) (length (trace (h_io (y_host y))) + 1) = IoStarted" using n(2) by simp
  let ?x = "(new_Session 10 ?junk)\<lparr>s_recvPosted := True, s_pendingIO := 1\<rparr>"
  obtain h where h: "accept_client 10 s ?junk (y_host y) = Some h" "sessions (h_io h) = (sessions (h_io (y_host y)))(s \<mapsto> ?x)"
    "jobQueue (h_io h) = jobQueue (h_io (y_host y)) @ [ConnectJob s]" "gs (h_world h) = gs (h_world (y_host y))"
    "srvState (h_io h) = srvState (h_io (y_host y))" "sysResult (h_io h) = sysResult (h_io (y_host y))"
    using accept_client_eq [OF res, of 10 s ?junk] n(1) by simp
  have "sys_exec (EvAccept 10 s ?junk) y = Some (y\<lparr>y_host := h\<rparr>)" using h(1) by simp
  from sys_reachI [OF y _ this] have "sys_reach (y\<lparr>y_host := h\<rparr>)" using s by simp
  moreover have "session_ok ?x" using new_Session_ok [of ?junk 10] by simp
  moreover have "s_state ?x = Connected" "s_recvRing ?x = new_ring ?junk" by (simp_all add: new_Session_def)
  ultimately show ?thesis
    using h n by (intro exI [of _ "y\<lparr>y_host := h\<rparr>"]) (simp add: open_session_def frames_wait IsShuttingDown_def)
qed

lemma reach_deliver:
  assumes y: "sys_reach y" and o: "open_session s kept (h_io (y_host y))"
    and p: "map_option s_pendingIO (sessions (h_io (y_host y)) s) = Some p" "p \<noteq> 0"
    and bs: "bs \<noteq> []" "length bs \<le> BUFFER_SIZE" and fr: "frames (kept @ bs) = (ps, rest, False)"
    and known: "list_all (\<lambda>p. IsKnownPacketId (h_id (header p))) ps"
  shows "\<exists>y'. sys_reach y' \<and> open_session s rest (h_io (y_host y')) \<and>
    jobQueue (h_io (y_host y')) = jobQueue (h_io (y_host y)) @ map (packet_job s) ps \<and>
    gs (h_world (y_host y')) = gs (h_world (y_host y)) \<and>
    (\<forall>t. t \<noteq> s \<longrightarrow> sessions (h_io (y_host y')) t = sessions (h_io (y_host y)) t)"
proof -
  let ?n = "h_io (y_host y)"
  obtain x where x: "sessions ?n s = Some x" "s_pendingIO x = p" using p(1) by auto
  note ok = sys_reach_ok [OF y, unfolded sys_ok_def]
  have "unat p \<noteq> 0" using p(2) by (simp add: word_unat_eq_iff)
  then have "y_done y s \<noteq> started s ?n" using balance_flight(2) [OF host_okD(5) [OF ok, of s]] x by auto
  then have lt: "y_done y s < started s ?n" using balance_flight(1) [OF host_okD(5) [OF ok, of s]] by simp
  obtain m where m: "deliver s bs ?n = Some m" "open_session s rest m" "jobQueue m = jobQueue ?n @ map (packet_job s) ps"
    "\<forall>t. t \<noteq> s \<longrightarrow> sessions m t = sessions ?n t"
    using deliver_chunk [OF o bs fr known] by blast
  let ?d = "bs @ drop (length bs) (s_recvBuf x)" and ?len = "of_nat (length bs) :: u32"
  have d: "length ?d = BUFFER_SIZE" using host_live(1) [OF ok x(1)] bs(2) by (simp add: session_ok_def)
  have len: "unat ?len \<le> BUFFER_SIZE"
    using bs(2) by (simp add: unsigned_of_nat take_bit_nat_eq_self BUFFER_SIZE_def)
  let ?c = "\<lparr>c_key = Some s, c_overlapped = Some Recv, c_bytes = ?len, c_ret = True\<rparr>" and ?h = "set_io (fill_buffer s ?d ?n) (y_host y)"
  have rc: "OnRecvComplete (the (c_key ?c)) (c_bytes ?c) (c_ret ?c) (h_io ?h) = Some m"
    using m(1) deliver_fill [OF x(1)] by simp
  obtain z where z: "sessions m s = Some z" "s_state z = Connected" "session_ok z"
    using m(2) by (auto simp: open_session_def)
  have z': "\<not> s_destroying z"
  proof -
    have "io_effect s (- 1) (fill_buffer s ?d ?n) m"
      using OnRecvComplete_total [of "fill_buffer s ?d ?n" s "x\<lparr>s_recvBuf := ?d\<rparr>" ?len True] host_live [OF ok x(1)] d len x(1) rc
      by (auto simp: fill_buffer_def session_ok_def framed_def)
    moreover have "sessions (fill_buffer s ?d ?n) s = Some (x\<lparr>s_recvBuf := ?d\<rparr>)" using x(1) by (simp add: fill_buffer_def)
    ultimately show ?thesis
      using io_effect_session [of s "- 1" "fill_buffer s ?d ?n" m s] z(1) host_okD(5) [OF ok, of s] x(1)
      by (fastforce simp: balance_ok_def)
  qed
  have "TryDestroySession (Some s) (set_io m ?h) = Some (set_io m ?h)"
    by (rule TryDestroySession_keeps [of _ _ z]) (use z z' in \<open>simp_all add: destroyable_def\<close>)
  then have "step_worker ?c ?h = Some (set_io m ?h)"
    using worker_turn_recv [of ?c s ?h m] rc by (simp add: step_worker_def)
  then have "sys_exec (EvComplete s Recv ?len True ?d) y =
      Some (y\<lparr>y_host := set_io m ?h, y_done := (y_done y)(s := y_done y s + 1)\<rparr>)" (is "_ = Some ?y'")
    by (simp add: Let_def)
  moreover have "enabled (EvComplete s Recv ?len True ?d) y" using lt len d by simp
  ultimately have "sys_reach ?y'" using sys_reachI [OF y] by blast
  then show ?thesis using m(2-4) by (intro exI [of _ ?y']) simp
qed

text \<open>A job that touches only the game's half.\<close>

definition game_job :: "env \<Rightarrow> GameJob \<Rightarrow> game \<Rightarrow> game \<Rightarrow> bool" where
  "game_job e job g g' \<longleftrightarrow> (\<forall>w. gs w = g \<longrightarrow> run_job e job w = Some (w\<lparr>gs := g'\<rparr>)) \<and> running g \<and> pheap g (e_addr e) = None"

lemma reach_job:
  assumes y: "sys_reach y" and q: "jobQueue (h_io (y_host y)) = job # q" and g: "gs (h_world (y_host y)) = g0" and j: "game_job e job g0 g"
  shows "\<exists>y'. sys_reach y' \<and> jobQueue (h_io (y_host y')) = q \<and> gs (h_world (y_host y')) = g \<and>
    sessions (h_io (y_host y')) = sessions (h_io (y_host y))"
proof -
  let ?w = "(pop_head (h_world (y_host y)))\<lparr>gs := g\<rparr>"
  have "jobQueue (net (h_world (y_host y))) = job # q" using q by (simp add: h_io_def)
  then have "game_iter e (h_world (y_host y)) = Some ?w" using g j by (simp add: game_iter_job game_job_def)
  then have "sys_exec (EvGame e) y = Some (y\<lparr>y_host := (y_host y)\<lparr>h_world := ?w\<rparr>\<rparr>)" (is "_ = Some ?y'") by simp
  from sys_reachI [OF y _ this] have "sys_reach ?y'" using g j by (simp add: game_job_def)
  then show ?thesis using q by (intro exI [of _ ?y']) (simp add: h_io_def pop_head_def)
qed

section \<open>The two clients\<close>

definition joins_as :: "sid \<Rightarrow> paddr \<Rightarrow> game \<Rightarrow> game" where
  "joins_as s a g = g\<lparr>players := (players g)(s \<mapsto> a), pheap := (pheap g)(a \<mapsto> (new_Player s)\<lparr>p_id := nextPlayerId g\<rparr>),
     nextPlayerId := nextPlayerId g + 1\<rparr>"

definition named :: "paddr \<Rightarrow> bytes \<Rightarrow> game \<Rightarrow> game" where
  "named a nm g = put_player a ((the (pheap g a))\<lparr>p_name := nm, p_state := LoggedIn\<rparr>) g"

definition in_chat_room :: "paddr \<Rightarrow> room_key \<Rightarrow> game \<Rightarrow> game" where
  "in_chat_room a k g = put_player a ((the (pheap g a))\<lparr>p_room := Some k, p_state := InRoom\<rparr>)
     (put_room k ((new_Room (ucast k))\<lparr>r_players := [a]\<rparr>) g)"

lemma run_packet_job: "run_job e (packet_job s p) w = OnPacket e s p w"
  by (cases p) (simp add: packet_job_def)

lemma connect_job:
  "running g \<Longrightarrow> players g s = None \<Longrightarrow> pheap g (e_addr e) = None \<Longrightarrow> game_job e (ConnectJob s) g (joins_as s (e_addr e) g)"
  by (simp add: game_job_def on_game_def OnSessionConnected_def joins_as_def Let_def)

lemma login_job:
  assumes "running g" and "pheap g (e_addr e) = None" and "g_FSM g = InitFSM empty_FSM" and "players g s = Some a"
    and "pheap g a = Some q" and "p_state q = PNone" and "nm \<noteq> []" and "length nm \<le> 4092"
  shows "game_job e (packet_job s (mk_packet PKT_CS_LOGIN nm)) g (named a nm g)"
  using assms OnPacket_login [of _ s a q "mk_packet PKT_CS_LOGIN nm" e]
  by (auto simp: game_job_def run_packet_job named_def mk_packet_ok)

lemma enter_job:
  assumes "running g" and "pheap g (e_addr e) = None" and "g_FSM g = InitFSM empty_FSM" and "players g s = Some a"
    and "pheap g a = Some q" and "p_state q = LoggedIn" and "p_room q = None" and "p_name q \<noteq> []" and "rooms g k = None"
  shows "game_job e (packet_job s (mk_packet PKT_CS_ENTER_ROOM (le32 k))) g (in_chat_room a k g)"
proof -
  let ?p = "mk_packet PKT_CS_ENTER_ROOM (le32 k)"
  have "run_job e (packet_job s ?p) w = Some (w\<lparr>gs := in_chat_room a k g\<rparr>)" if w: "gs w = g" for w
  proof -
    have p: "packet_ok ?p" by (simp add: mk_packet_ok)
    have "EnterRoom a k g = Some (put_player a (q\<lparr>p_room := Some k\<rparr>) (put_room k ((new_Room (ucast k))\<lparr>r_players := [a]\<rparr>) g))"
      using assms(5,7,9) by (simp add: EnterRoom_def GetOrCreateRoom_def FindRoom_def Room_Join_def new_Room_def put_room_def set_player_def)
    then have "run_FSM_EnterRoom s a ?p w = Some (w\<lparr>gs := in_chat_room a k g\<rparr>)"
      using assms w HandleEnterRoom_eq [OF p, of w s a q]
      by (simp add: run_FSM_EnterRoom_def on_game_def set_player_def put_player_def put_room_def in_chat_room_def)
    then show ?thesis
      using OnPacket_handler [of w s a q e ?p] assms w by (simp add: run_packet_job handler_table)
  qed
  with assms(1,2) show ?thesis by (simp add: game_job_def)
qed

text \<open>What the two clients send.\<close>

definition first_client :: "Packet list" where
  "first_client = [mk_packet PKT_CS_LOGIN [65], mk_packet PKT_CS_ENTER_ROOM (le32 100)]"

definition second_client :: "Packet list" where
  "second_client = [mk_packet PKT_CS_LOGIN [66], mk_packet PKT_CS_JOIN_ROOM (le32 0)]"

lemma client_frames:
  assumes "list_all packet_ok ps"
  shows "frames ([] @ concat (map encode_packet ps)) = (ps, [], False)"
  using frames_encode_all [OF assms, of "[]"] by (simp add: frames_wait)

text \<open>The game once both have been served: room 100 is a chat room with one player.\<close>

definition served :: game where
  "served = named 21 [66] (joins_as 7 21 (in_chat_room 20 100 (named 20 [65] (joins_as 6 20 (gs (boot (\<lambda>_. IoStarted)))))))"

lemma served_fields:
  "players served = [6 \<mapsto> 20, 7 \<mapsto> 21]" "rooms served = [1 \<mapsto> new_Room 1, 100 \<mapsto> (new_Room 100)\<lparr>r_players := [20]\<rparr>]"
  "pheap served 21 = Some \<lparr>p_session = 7, p_room = None, p_name = [66], p_state = LoggedIn, p_id = 2, p_ready = False\<rparr>"
  "pheap served 20 = Some \<lparr>p_session = 6, p_room = Some 100, p_name = [65], p_state = InRoom, p_id = 1, p_ready = False\<rparr>"
  "pheap served 22 = None" "nextGameRoomId served = 100" "running served" "g_FSM served = InitFSM empty_FSM"
  by (simp_all add: served_def named_def joins_as_def in_chat_room_def put_player_def put_room_def boot_def Init_def new_GameServer_def
      new_Player_def new_Room_def)

lemma run_two_clients:
  "\<exists>y. sys_reach y \<and> jobQueue (h_io (y_host y)) = [packet_job 7 (mk_packet PKT_CS_JOIN_ROOM (le32 0))] \<and>
    gs (h_world (y_host y)) = served \<and> is_open 6 (h_io (y_host y)) \<and> is_open 7 (h_io (y_host y))"
proof -
  let ?y0 = "sys_init (\<lambda>_. IoStarted) [8, 9]" and ?g0 = "gs (boot (\<lambda>_. IoStarted))"
  have y0: "sessions (h_io (y_host ?y0)) = Map.empty" "\<not> IsShuttingDown (h_io (y_host ?y0))"
    "\<forall>i. sysResult (h_io (y_host ?y0)) i = IoStarted" "jobQueue (h_io (y_host ?y0)) = []" "gs (h_world (y_host ?y0)) = ?g0"
    by (simp_all add: sys_init_def boot_def Init_def h_io_def IsShuttingDown_def)
  have "sessions (h_io (y_host ?y0)) 6 = None" using y0(1) by simp
  from reach_accept [OF sys_reach.init this y0(2,3)] obtain y1 where y1: "sys_reach y1" "open_session 6 [] (h_io (y_host y1))"
    "map_option s_pendingIO (sessions (h_io (y_host y1)) 6) = Some 1" "jobQueue (h_io (y_host y1)) = [ConnectJob 6]"
    "gs (h_world (y_host y1)) = ?g0" "sessions (h_io (y_host y1)) 7 = None"
    using y0 by auto
  have ok: "list_all packet_ok first_client" "list_all packet_ok second_client"
    "list_all (\<lambda>p. IsKnownPacketId (h_id (header p))) first_client" "list_all (\<lambda>p. IsKnownPacketId (h_id (header p))) second_client"
    by (simp_all add: first_client_def second_client_def mk_packet_ok IsKnownPacketId_def)
  have len: "concat (map encode_packet first_client) \<noteq> []" "length (concat (map encode_packet first_client)) \<le> BUFFER_SIZE"
    "concat (map encode_packet second_client) \<noteq> []" "length (concat (map encode_packet second_client)) \<le> BUFFER_SIZE"
    by (simp_all add: first_client_def second_client_def encode_packet_def header_bytes_def BUFFER_SIZE_def)
  obtain y2 where y2: "sys_reach y2" "open_session 6 [] (h_io (y_host y2))"
    "jobQueue (h_io (y_host y2)) = ConnectJob 6 # map (packet_job 6) first_client" "gs (h_world (y_host y2)) = ?g0"
    "sessions (h_io (y_host y2)) 7 = None"
    using reach_deliver [OF y1(1-3) _ len(1,2) client_frames [OF ok(1)] ok(3)] y1(4-6) by auto
  have n2: "\<not> IsShuttingDown (h_io (y_host y2))" "\<forall>i. sysResult (h_io (y_host y2)) i = IoStarted"
    using y2(2) by (simp_all add: open_session_def)
  from reach_accept [OF y2(1,5) n2] obtain y3 where y3: "sys_reach y3" "open_session 7 [] (h_io (y_host y3))"
    "map_option s_pendingIO (sessions (h_io (y_host y3)) 7) = Some 1"
    "jobQueue (h_io (y_host y3)) = ConnectJob 6 # map (packet_job 6) first_client @ [ConnectJob 7]"
    "gs (h_world (y_host y3)) = ?g0" "sessions (h_io (y_host y3)) 6 = sessions (h_io (y_host y2)) 6"
    using y2(3,4) by auto
  obtain y4 where y4: "sys_reach y4" "open_session 7 [] (h_io (y_host y4))"
    "jobQueue (h_io (y_host y4)) = ConnectJob 6 # map (packet_job 6) first_client @ ConnectJob 7 # map (packet_job 7) second_client"
    "gs (h_world (y_host y4)) = ?g0" "sessions (h_io (y_host y4)) 6 = sessions (h_io (y_host y2)) 6"
    using reach_deliver [OF y3(1-3) _ len(3,4) client_frames [OF ok(2)] ok(4)] y3(4-6) by auto
  let ?e = "\<lambda>a. demo_env\<lparr>e_addr := a\<rparr>"
  let ?g1 = "joins_as 6 20 ?g0" and ?g2 = "named 20 [65] (joins_as 6 20 ?g0)"
  let ?g3 = "in_chat_room 20 100 (named 20 [65] (joins_as 6 20 ?g0))"
  let ?g4 = "joins_as 7 21 (in_chat_room 20 100 (named 20 [65] (joins_as 6 20 ?g0)))"
  note g = named_def joins_as_def in_chat_room_def put_player_def put_room_def boot_def Init_def new_GameServer_def new_Player_def
  have j1: "game_job (?e 20) (ConnectJob 6) ?g0 ?g1" using connect_job [of ?g0 6 "?e 20"] by (simp add: g)
  have j2: "game_job (?e 22) (packet_job 6 (mk_packet PKT_CS_LOGIN [65])) ?g1 ?g2"
    by (rule login_job, simp_all add: g) simp_all
  have j3: "game_job (?e 22) (packet_job 6 (mk_packet PKT_CS_ENTER_ROOM (le32 100))) ?g2 ?g3"
    by (rule enter_job, simp_all add: g) simp_all
  have j4: "game_job (?e 21) (ConnectJob 7) ?g3 ?g4" using connect_job [of ?g3 7 "?e 21"] by (simp add: g)
  have j5: "game_job (?e 22) (packet_job 7 (mk_packet PKT_CS_LOGIN [66])) ?g4 served"
    unfolding served_def by (rule login_job, simp_all add: g) simp_all
  let ?q = "\<lambda>y. jobQueue (h_io (y_host y))"
  obtain z1 where z1: "sys_reach z1" "?q z1 = map (packet_job 6) first_client @ ConnectJob 7 # map (packet_job 7) second_client"
    "gs (h_world (y_host z1)) = ?g1" "sessions (h_io (y_host z1)) = sessions (h_io (y_host y4))"
    using reach_job [OF y4(1,3,4) j1] by (elim exE conjE) (rule that)
  obtain z2 where z2: "sys_reach z2" "?q z2 = packet_job 6 (mk_packet PKT_CS_ENTER_ROOM (le32 100)) # ConnectJob 7 # map (packet_job 7) second_client"
    "gs (h_world (y_host z2)) = ?g2" "sessions (h_io (y_host z2)) = sessions (h_io (y_host y4))"
    using reach_job [OF z1(1) _ z1(3) j2] z1(2,4) by (auto simp: first_client_def)
  obtain z3 where z3: "sys_reach z3" "?q z3 = ConnectJob 7 # map (packet_job 7) second_client"
    "gs (h_world (y_host z3)) = ?g3" "sessions (h_io (y_host z3)) = sessions (h_io (y_host y4))"
    using reach_job [OF z2(1-3) j3] z2(4) by auto
  obtain z4 where z4: "sys_reach z4" "?q z4 = map (packet_job 7) second_client"
    "gs (h_world (y_host z4)) = ?g4" "sessions (h_io (y_host z4)) = sessions (h_io (y_host y4))"
    using reach_job [OF z3(1-3) j4] z3(4) by auto
  obtain z5 where z5: "sys_reach z5" "?q z5 = [packet_job 7 (mk_packet PKT_CS_JOIN_ROOM (le32 0))]"
    "gs (h_world (y_host z5)) = served" "sessions (h_io (y_host z5)) = sessions (h_io (y_host y4))"
    using reach_job [OF z4(1) _ z4(3) j5] z4(2,4) by (auto simp: second_client_def)
  have "is_open 6 (h_io (y_host y2))" "is_open 7 (h_io (y_host y4))"
    using y2(2) y4(2) by (auto simp: open_session_def is_open_def)
  then have "is_open 6 (h_io (y_host z5))" "is_open 7 (h_io (y_host z5))"
    using z5(4) y4(5) by (simp_all add: is_open_def)
  with z5(1-3) show ?thesis by blast
qed

section \<open>The collision\<close>

text \<open>The environment of the last step; the map holds the rooms 1 and 100.\<close>

definition last_env :: env where
  "last_env = demo_env\<lparr>e_addr := 22\<rparr>"

lemma served_join:
  assumes "gs w = served\<lparr>nextGameRoomId := k\<rparr>"
  shows "packet_crashes last_env 7 (mk_packet PKT_CS_JOIN_ROOM (le32 0)) w \<longleftrightarrow> k \<in> {1, 100, INT32_MAX}"
  using assms
  by (auto simp: packet_crashes_def join_collides_def acquire_collides_def served_fields handler_table last_env_def joinable_def new_Room_def
      INT32_MAX_def)

text \<open>C11: The collision of room numbers is reachable from the start of the server by two well-behaved
  clients: the first logs in and enters chat room 100, the second logs in and asks for an automatic
  match. When the game thread takes the second one's JOIN_ROOM, both sessions are alive and open, and
  all jobs before it were served; \<open>AcquireGameRoom\<close> takes the number 100, \<open>emplace\<close> finds it in use and
  destroys the new room, and the game thread uses it. It is the chat room in the way that does it: in
  the same state with the next number at 101 the same step is safe.\<close>

theorem automatic_match_after_chat_room_100_uses_freed_room:
  "\<exists>y. sys_reach y \<and> enabled (EvGame last_env) y \<and>
    jobQueue (h_io (y_host y)) = [PacketJob 7 \<lparr>h_size = 8, h_id = 20\<rparr> [0, 0, 0, 0]] \<and>
    is_open 6 (h_io (y_host y)) \<and> is_open 7 (h_io (y_host y)) \<and>
    rooms (gs (h_world (y_host y))) = [1 \<mapsto> new_Room 1, 100 \<mapsto> (new_Room 100)\<lparr>r_players := [20]\<rparr>] \<and>
    nextGameRoomId (gs (h_world (y_host y))) = 100 \<and>
    sys_exec (EvGame last_env) y = None \<and>
    game_iter last_env ((h_world (y_host y))\<lparr>gs := (gs (h_world (y_host y)))\<lparr>nextGameRoomId := 101\<rparr>\<rparr>) \<noteq> None"
proof -
  let ?p = "mk_packet PKT_CS_JOIN_ROOM (le32 0)"
  obtain y where y: "sys_reach y" "jobQueue (h_io (y_host y)) = [packet_job 7 ?p]" "gs (h_world (y_host y)) = served"
    "is_open 6 (h_io (y_host y))" "is_open 7 (h_io (y_host y))" using run_two_clients by blast
  have p: "packet_ok ?p" by (simp add: mk_packet_ok)
  let ?w = "h_world (y_host y)"
  let ?v = "?w\<lparr>gs := (gs ?w)\<lparr>nextGameRoomId := 101\<rparr>\<rparr>"
  have it: "game_iter last_env w = OnPacket last_env 7 ?p (pop_head w)" if "net w = net ?w" for w
    using that y(2) game_iter_job [of w "packet_job 7 ?p" "[]" last_env] by (simp add: h_io_def run_packet_job)
  have ok: "world_ok ?w" using host_okD(1) [OF sys_reach_ok [OF y(1), unfolded sys_ok_def]] .
  then have okv: "world_ok ?v" using wf_cong [of "gs ?w" "gs ?v"] by (simp add: world_ok_def net_ok_def)
  have "served = served\<lparr>nextGameRoomId := 100\<rparr>" using served_fields(6) by simp
  then have "packet_crashes last_env 7 ?p (pop_head ?w)" using served_join [of "pop_head ?w" 100] y(3) by simp
  then have "game_iter last_env ?w = None" using OnPacket_safe(1) [of "pop_head ?w" ?p last_env 7] ok p it [of ?w] by simp
  moreover have "\<not> packet_crashes last_env 7 ?p (pop_head ?v)" using served_join [of "pop_head ?v" 101] y(3) by (simp add: INT32_MAX_def)
  then have "game_iter last_env ?v \<noteq> None" using OnPacket_safe(1) [of "pop_head ?v" ?p last_env 7] okv p it [of ?v] by simp
  moreover have "enabled (EvGame last_env) y" using y(3) served_fields(5,7) by (simp add: last_env_def)
  moreover have "packet_job 7 ?p = PacketJob 7 \<lparr>h_size = 8, h_id = 20\<rparr> [0, 0, 0, 0]"
    by (simp add: packet_job_def mk_packet_def le32_def)
  ultimately show ?thesis using y served_fields(2,6) by (intro exI [of _ y]) simp
qed

end
