(* ===== verification/Spec2Isabelle.thy ===== *)
theory Spec2Isabelle
  imports Transport_Properties Game_Properties Room_Properties Match_Properties Network_Properties
    System_Properties Races Client_Properties End_To_End Collision
begin

text \<open>
  The verification of a chat and game server on Windows I/O completion ports and of its console
  client. Paths below are under \<open>src/IOCP-GameChatServer/IOCP-GameChatServer/\<close> unless they start
  with \<open>client\<close>.

  \<^bold>\<open>The program.\<close> Network.cpp accepts clients and runs the worker threads; a worker takes one
  completion at a time from the completion port and hands it to the session it belongs to.
  Session.cpp posts receives and sends, cuts the received bytes into packets with the ring of
  RingBuffer.cpp, counts the operations in flight and closes the socket once. Protocol.cpp
  validates a packet and puts it in the job queue (GameJobQueue.cpp). One game thread
  (GameServer.cpp) takes the jobs in order; it alone touches players and rooms (Player.cpp,
  Room.cpp), through the table of FSM.cpp. A session is deleted when it is closed, the game thread
  has cleaned it up and no operation is in flight. client/client.cpp is the client.

  \<^bold>\<open>The state.\<close> \<open>io\<close> (theory Session) holds the heap of sessions, the server state, the job queue
  and the system calls made, in order; \<open>sysResult\<close> is the sequence of results the operating system
  gives and any sequence is an instance. \<open>game\<close> (Room, Game_Server) holds the players by session,
  the heap of players, the rooms by number and the counters. \<open>world\<close> is both, \<open>host\<close> (Network) adds
  the session table, the worker handles, the running flag and the listening socket, \<open>sys\<close> (System)
  adds the counts of what was dequeued. A pointer is an address into a heap that is a partial map;
  an operation answers \<open>None\<close> when the code would use freed memory, leave an array or overflow a
  signed integer, so every theorem that ends in \<open>Some\<close> is also a memory-safety statement. Integers
  are words of their width where the code's arithmetic wraps (unsigned types and the pending counter,
  an \<open>atomic<long>\<close> of 32 bits), \<open>int\<close> with the overflow checked (\<open>int_ok\<close>) where the code has \<open>int\<close>,
  and a signed word with its increment checked for the counter of room numbers.

  \<^bold>\<open>Definitions and source.\<close>
  \<^item> Prelude: words, little-endian bytes, memcpy, \<open>for_each\<close>, decimal text.
  \<^item> Packet: Packet.h, Packet.cpp, Protocol.h and \<open>IsKnownPacketId\<close>.
  \<^item> Ring_Buffer: RingBuffer.h, RingBuffer.cpp. Job_Queue: GameJob.h, GameJobQueue.cpp.
  \<^item> Session: Session.h, Session.cpp, \<open>ProcessPacket\<close> of Protocol.cpp, the \<open>Enqueue\<close> functions of
    GameServer.cpp. Framing: \<open>OnRecvComplete\<close> with its loop, and the reference \<open>frames\<close>.
  \<^item> Wire_Format: \<open>Writer\<close>, the map and the packet bodies of GameServer.cpp, with decoders.
  \<^item> Room, Game_Server, Game_Loop: Player.cpp, Room.cpp, the handlers of GameServer.cpp, FSM.cpp and
    \<open>GameThreadLoop\<close>.
  \<^item> Network: Network.h, Network.cpp and \<open>GameServer::Shutdown\<close>.
  \<^item> System: the steps of all threads as one transition system.
  \<^item> Client: client/client.cpp. Start_Up: both \<open>main\<close> functions.

  \<^bold>\<open>Interfaces.\<close> \<open>fifo\<close> (Job_Queue), \<open>byte_store\<close> (Ring_Buffer), \<open>one_shot\<close> (the compare-and-exchange
  flags, Session_Facts), \<open>membership\<close> (Room_Facts) and \<open>registry\<close> (the session table, Network_Facts)
  state what a client of a structure relies on; each is interpreted on the model's definitions.
  Three contracts carry the proofs: \<open>io_frame\<close> (what sending and closing may do to the sessions),
  \<open>io_effect\<close> (what a completion may do), \<open>world_step\<close> (what a packet handler may do).

  \<^bold>\<open>What is shown.\<close>
  \<^item> Transport_Properties: the receive handler refines \<open>frames\<close>, any segmentation of a stream
    delivers its packets, one receive is outstanding, a close happens once, packets round-trip.
  \<^item> Game_Properties: the game thread is memory safe but for one packet in one situation, given
    exactly; every job follows the player's state machine; the loop runs jobs in order.
  \<^item> Room_Properties, Match_Properties: who receives a chat, when a match starts, capacity, what a
    disconnect announces.
  \<^item> Network_Properties: the shutdown sequence, whatever the network answers, and a cleanup status
    that reaches a freed session.
  \<^item> System_Properties: in every reachable state of the whole server a step uses freed memory in
    three ways only; the pending counter is the number of operations in flight modulo \<open>2^32\<close>; the
    connect and disconnect jobs of a session are in order; players and rooms agree; the last event
    of a session frees it; a session whose socket number is still in the table escapes a shutdown.
  \<^item> Collision: a run from the start of the server, with two well-behaved clients, that ends in the
    use of a destroyed room.
  \<^item> Races: two orders of steps inside the turns of two workers in which one uses a session the
    other has deleted, from reachable states.
  \<^item> Client_Properties, End_To_End: what the client shows is what the server sent, its receive
    thread ends, its \<open>main\<close> releases what it took, its command line brings its player into its
    room through any segmentation of its bytes, and a chat is shown on every other member's console.

  \<^bold>\<open>Granularity.\<close> A run of \<open>sys_step\<close> interleaves whole handlers: one accepted client, one
  completion with the attempt to destroy its session, one job, one call of \<open>Shutdown\<close>. Inside a turn
  the code gives other workers room: theory Races splits the turn where the pending count has been
  taken back and shows what can happen there. \<open>enabled\<close> states what is assumed of the
  operating system: a completion arrives at most once for a started operation and with at most
  4096 bytes, a posted status at most once, \<open>new\<close> returns an address that is not in use. Nothing
  bounds the number of operations in flight, as nothing does in the code: with \<open>2^32\<close> of them on one
  session its counter is back at zero, which is the third way of a fault above.

  \<^bold>\<open>Loops and fuel.\<close> The receive loop, the waits for the workers and \<open>RecvAll\<close> are total with a
  measure. \<open>GameThreadLoop\<close> runs for ever in the code; it is given one environment (clock,
  iteration order of the room map, address of an allocation) per iteration, and the theorems hold
  for every list of them. \<open>SendAll\<close> may not return when \<open>send\<close> keeps answering nothing, so its loop
  is a \<open>partial_function\<close> and returning is part of the theorems (\<open>sends_all\<close>). The lines typed at
  the client are a list; at its end \<open>getline\<close> fails.

  \<^bold>\<open>Findings.\<close>
  \<^item> GameServer.cpp: a JOIN_ROOM that picks a room number already taken uses a destroyed room (line
    514), the counter of room numbers can overflow (line 510), and answers carry only 16 bits of a
    room number (line 521); a cleanup status may reach a freed session (line 221); ENTER_ROOM
    overfills a game room and lets a chat player into a match that has started (line 164), whose
    members are then sent the chat that protocol-v1.md keeps from them (Room.cpp, line 45).
  \<^item> Network.cpp, Session.cpp: two completions, or a receive and a cleanup status, race to delete a
    session (Network.cpp, line 114, Session.cpp, line 115); a reused socket number hides a session
    from the shutdown (Network.cpp, line 178); the server goes on without workers (line 40).
  \<^item> Protocol.cpp, FSM.cpp: packets of a kicked client are still queued (Protocol.cpp, line 33); an
    empty login still changes the state (FSM.cpp, line 14).
  \<^item> client/client.cpp: a client that cannot make its receive thread is terminated without cleaning
    up (line 395).
  \<^item> README and protocol-v1.md promise errors the code does not send.

  \<^bold>\<open>Not modelled.\<close> Console output of the server and the text of the client's console lines (a line
  is a constructor), the critical sections themselves (each is one step), the waiting inside the
  blocking calls, the accessors that only return a field, the worker's branch for an I/O type that
  does not exist, and client.cs, a second client in another language.
\<close>

end
